(* ===== verification/Prelude.thy ===== *)
theory Prelude
  imports Main "HOL-Library.Word"
begin

text \<open>
  What every theory of the development shares: the ways a run of the library can stop, the two
  result types (pure computations that may stop, and operations on a state that may also unwind),
  the compare-and-exchange loop the runtime uses in several places, and the collections of
  rewrite rules that the component theories fill.
\<close>

unbundle bit_operations_syntax

named_theorems packing \<open>round trips and field reads of the packed machine words\<close>
named_theorems kernels \<open>definitions of the pure functions computed between two atomic accesses\<close>
named_theorems checked_simps \<open>rewrite rules of the two result types\<close>

section \<open>Ways to stop\<close>

text \<open>
  \<open>runtime.rs\<close> has two modules of aborting errors, \<open>fatal_errors\<close> and \<open>undefined_behavior\<close>; each
  of their functions is a constructor here. Both abort the process.
\<close>

datatype fatal_error =
    Shared_refcnt_underflow
  | Shared_refcnt_overflow
  | Merged_refcnt_overflow
  | Weak_refcnt_overflow

datatype undefined_behavior =
    Negative_refcnt_merge
  | Explicit_merge_bad_id
  | Negative_refcnt_no_owner
  | Owner_undefined_state
  | Strong_count_arith_overflow
  | Biased_count_zero_and_owned

text \<open>
  The other ways a run stops: a failing \<open>assert!\<close> or \<open>debug_assert!\<close> of the library itself, a panic
  of user code inside \<open>nounwind::abort_unwind\<close>, reaching \<open>unreachable_unchecked\<close>, \<open>unchecked_sub\<close> or
  \<open>unwrap_unchecked\<close> outside their contract, an access to memory that has been freed, a second drop
  of a value, an allocation failure (\<open>handle_alloc_error\<close>), and a loop that never ends.
\<close>

datatype fault =
    Fatal fatal_error
  | Undefined undefined_behavior
  | Assertion_failed
  | Nounwind_abort
  | Unchecked_violation
  | Use_after_free
  | Double_drop
  | Alloc_error
  | Layout_overflow
  | Diverges

section \<open>Results\<close>

text \<open>A pure computation that may stop: \<open>Inl\<close> the fault, or \<open>Inr\<close> the value.\<close>

type_synonym 'a checked = "fault + 'a"

fun bind_checked :: "'a checked \<Rightarrow> ('a \<Rightarrow> 'b checked) \<Rightarrow> 'b checked" where
  "bind_checked (Inl e) f = Inl e"
| "bind_checked (Inr x) f = f x"

text \<open>\<open>Option::unwrap_or_else\<close> with a diverging closure.\<close>

fun or_fault :: "fault \<Rightarrow> 'a option \<Rightarrow> 'a checked" where
  "or_fault e None = Inl e"
| "or_fault e (Some x) = Inr x"

text \<open>\<open>debug_assert!\<close>: checked only in a build with debug assertions.\<close>

definition debug_assert :: "bool \<Rightarrow> bool \<Rightarrow> unit checked" where
  "debug_assert dbg P = (if dbg \<and> \<not> P then Inl Assertion_failed else Inr ())"

lemma bind_checked_Inr [checked_simps]:
  "bind_checked m f = Inr y \<longleftrightarrow> (\<exists>x. m = Inr x \<and> f x = Inr y)"
  by (cases m) auto

lemma bind_checked_Inl [checked_simps]:
  "bind_checked m f = Inl e \<longleftrightarrow> m = Inl e \<or> (\<exists>x. m = Inr x \<and> f x = Inl e)"
  by (cases m) auto

lemma bind_checked_assoc:
  "bind_checked (bind_checked m f) g = bind_checked m (\<lambda>x. bind_checked (f x) g)"
  by (cases m) auto

lemma bind_checked_cong [fundef_cong]:
  "m = m' \<Longrightarrow> (\<And>x. m' = Inr x \<Longrightarrow> f x = g x) \<Longrightarrow> bind_checked m f = bind_checked m' g"
  by (cases m') auto

lemma or_fault_Inr [checked_simps]: "or_fault e o' = Inr x \<longleftrightarrow> o' = Some x"
  by (cases o') auto

lemma or_fault_Inl [checked_simps]: "or_fault e o' = Inl e' \<longleftrightarrow> o' = None \<and> e' = e"
  by (cases o') auto

lemma debug_assert_Inr [checked_simps]: "debug_assert dbg P = Inr u \<longleftrightarrow> (dbg \<longrightarrow> P)"
  by (simp add: debug_assert_def)

lemma debug_assert_Inl [checked_simps]:
  "debug_assert dbg P = Inl e \<longleftrightarrow> dbg \<and> \<not> P \<and> e = Assertion_failed"
  by (auto simp: debug_assert_def)

lemma debug_assert_True [simp]: "debug_assert dbg True = Inr ()"
  by (simp add: debug_assert_def)

text \<open>
  An operation on a state: it returns a value and the new state, or a panic of user code unwinds
  out of it with the state left behind, or the process stops.
\<close>

datatype ('s, 'a) outcome = Return 'a 's | Unwind 's | Halt fault

fun bind_outcome :: "('s, 'a) outcome \<Rightarrow> ('a \<Rightarrow> 's \<Rightarrow> ('s, 'b) outcome) \<Rightarrow> ('s, 'b) outcome" where
  "bind_outcome (Return x s) f = f x s"
| "bind_outcome (Unwind s) f = Unwind s"
| "bind_outcome (Halt e) f = Halt e"

text \<open>A pure step of an operation: it reads no state and leaves it as it is.\<close>

fun lift_checked :: "'a checked \<Rightarrow> 's \<Rightarrow> ('s, 'a) outcome" where
  "lift_checked (Inl e) s = Halt e"
| "lift_checked (Inr x) s = Return x s"

text \<open>\<open>nounwind::abort_unwind\<close>: a panic that would leave the closure aborts instead.\<close>

fun abort_unwind :: "('s, 'a) outcome \<Rightarrow> ('s, 'a) outcome" where
  "abort_unwind (Return x s) = Return x s"
| "abort_unwind (Unwind s) = Halt Nounwind_abort"
| "abort_unwind (Halt e) = Halt e"

lemma bind_outcome_Return [checked_simps]:
  "bind_outcome m f = Return y s \<longleftrightarrow> (\<exists>x t. m = Return x t \<and> f x t = Return y s)"
  by (cases m) auto

lemma bind_outcome_assoc:
  "bind_outcome (bind_outcome m f) g = bind_outcome m (\<lambda>x s. bind_outcome (f x s) g)"
  by (cases m) auto

lemma lift_checked_Return [checked_simps]: "lift_checked m s = Return x t \<longleftrightarrow> m = Inr x \<and> t = s"
  by (cases m) auto

lemma abort_unwind_Return [checked_simps]: "abort_unwind m = Return x s \<longleftrightarrow> m = Return x s"
  by (cases m) auto

lemma abort_unwind_not_Unwind [simp]: "abort_unwind m \<noteq> Unwind s"
  by (cases m) auto

section \<open>Compare-and-exchange loops\<close>

text \<open>
  The loops of the runtime read a word, compute its replacement and try to exchange it; when the
  exchange fails (another thread changed the word, or \<open>compare_exchange_weak\<close> failed for no
  reason) they start again from the value the exchange returned. \<open>seen\<close> lists the values that the
  failing exchanges return, so the loop is defined for every behaviour of the other threads. The
  result is the word that the last exchange found and the one it wrote.
\<close>

fun cas_loop :: "('w \<Rightarrow> 'w checked) \<Rightarrow> 'w list \<Rightarrow> 'w \<Rightarrow> ('w \<times> 'w) checked" where
  "cas_loop next [] old = bind_checked (next old) (\<lambda>new. Inr (old, new))"
| "cas_loop next (x # seen) old = bind_checked (next old) (\<lambda>_. cas_loop next seen x)"

text \<open>What was seen before does not matter: a loop that ends has exchanged the last word it read.\<close>

lemma cas_loop_result:
  assumes "cas_loop next seen old = Inr (old', new)"
  shows "old' = last (old # seen) \<and> next old' = Inr new"
  using assms by (induction seen arbitrary: old) (auto simp: checked_simps)

text \<open>Spurious failures change nothing.\<close>

lemma cas_loop_spurious: "cas_loop next (replicate n old) old = cas_loop next [] old"
proof (induction n)
  case 0
  then show ?case by simp
next
  case (Suc n)
  then show ?case by (cases "next old") auto
qed

text \<open>
  The loop of the standard library's \<open>fetch_update\<close>: the closure may decline, and then the loop
  ends with the word it declined.
\<close>

fun fetch_update :: "('w \<Rightarrow> 'w option checked) \<Rightarrow> 'w list \<Rightarrow> 'w \<Rightarrow> ('w + ('w \<times> 'w)) checked" where
  "fetch_update f [] old =
     bind_checked (f old) (\<lambda>r. Inr (case r of None \<Rightarrow> Inl old | Some new \<Rightarrow> Inr (old, new)))"
| "fetch_update f (x # seen) old =
     bind_checked (f old) (\<lambda>r. case r of None \<Rightarrow> Inr (Inl old) | Some _ \<Rightarrow> fetch_update f seen x)"

section \<open>Machine words\<close>

lemma sint_range62: "- (2 ^ 61) \<le> sint (c :: 62 word)" "sint (c :: 62 word) < 2 ^ 61"
  using sint_range_size [of c] by (auto simp: word_size)

lemma unat_lt20: "unat (c :: 20 word) < 2 ^ 20"
  using unsigned_less [of c, where 'a = nat] by simp

text \<open>Counting up and down where nothing wraps around.\<close>

lemma uint_minus_one: "(a :: 'a::len word) \<noteq> 0 \<Longrightarrow> uint (a - 1) = uint a - 1"
proof -
  assume "a \<noteq> 0"
  then have "int (unat (a - 1)) = int (unat a) - 1"
    by (subst unat_minus_one) (simp_all add: of_nat_diff Suc_le_eq unat_gt_0 flip: of_nat_Suc)
  then show ?thesis by simp
qed

lemma uint20_plus_one: "unat a + 1 < 2 ^ 20 \<Longrightarrow> uint (a + 1 :: 20 word) = uint a + 1"
proof -
  assume "unat a + 1 < 2 ^ 20"
  then have "unat (a + 1) = unat a + 1" by (simp add: unat_word_ariths)
  then have "int (unat (a + 1)) = int (unat a) + 1" by simp
  then show ?thesis by simp
qed

lemma uint32_plus_one: "uint (a :: 32 word) \<le> 2 ^ 31 \<Longrightarrow> uint (a + 1) = uint a + 1"
  by (simp add: uint_word_ariths)

end
