(* ===== verification/Thread_Ids.thy ===== *)
theory Thread_Ids
  imports Prelude
begin

text \<open>
  Thread identifiers (\<open>runtime/threads.rs\<close>): the unique id of a thread and the short id, a 12 bit
  number with zero reserved, that fits beside the biased count in one 32 bit word. The lemmas show
  that every way of making a short id gives a nonzero 12 bit number, and that ids, short ids and
  indices into the thread table correspond one to one.
\<close>

section \<open>Unique ids\<close>

datatype UniqueThreadId = UniqueThreadId "64 word"

fun UniqueThreadId_value :: "UniqueThreadId \<Rightarrow> 64 word" where
  "UniqueThreadId_value (UniqueThreadId x) = x"

definition UniqueThreadId_MIN :: UniqueThreadId where
  "UniqueThreadId_MIN = UniqueThreadId 1"

text \<open>\<open>NonZeroUsize::checked_add\<close>, then \<open>expect\<close>.\<close>

definition UniqueThreadId_from_index :: "64 word \<Rightarrow> UniqueThreadId checked" where
  "UniqueThreadId_from_index i =
     (if unat (UniqueThreadId_value UniqueThreadId_MIN) + unat i < 2 ^ 64
      then Inr (UniqueThreadId (UniqueThreadId_value UniqueThreadId_MIN + i))
      else Inl Assertion_failed)"

section \<open>Short ids\<close>

text \<open>A wrapper of a \<open>NonZeroU16\<close>.\<close>

datatype ShortThreadId = ShortThreadId "16 word"

definition ShortThreadId_BITS :: nat where
  "ShortThreadId_BITS = 12"

definition ShortThreadId_MAX :: "12 word" where
  "ShortThreadId_MAX = 4095"

definition ShortThreadId_new :: "12 word \<Rightarrow> ShortThreadId option" where
  "ShortThreadId_new x = (if ucast x \<noteq> (0 :: 16 word) then Some (ShortThreadId (ucast x)) else None)"

fun ShortThreadId_value :: "ShortThreadId \<Rightarrow> 12 word" where
  "ShortThreadId_value (ShortThreadId v) = ucast v"

text \<open>\<open>unchecked_sub\<close>: undefined when it would wrap.\<close>

fun ShortThreadId_index :: "ShortThreadId \<Rightarrow> 64 word checked" where
  "ShortThreadId_index (ShortThreadId v) =
     (if v = 0 then Inl Unchecked_violation else Inr (ucast (v - 1)))"

datatype ThreadIdOverflowError = ThreadIdOverflowError

definition ShortThreadId_try_from :: "UniqueThreadId \<Rightarrow> ThreadIdOverflowError + ShortThreadId" where
  "ShortThreadId_try_from u =
     (let value = UniqueThreadId_value u in
      if unat value \<ge> 2 ^ 16 then Inl ThreadIdOverflowError
      else if ucast value \<le> (ucast ShortThreadId_MAX :: 16 word) then Inr (ShortThreadId (ucast value))
      else Inl ThreadIdOverflowError)"

section \<open>Valid short ids\<close>

text \<open>What the type of the source guarantees: not zero, and at most 12 bits.\<close>

fun short_id_ok :: "ShortThreadId \<Rightarrow> bool" where
  "short_id_ok (ShortThreadId v) \<longleftrightarrow> 0 < unat v \<and> unat v < 4096"

fun short_id_nat :: "ShortThreadId \<Rightarrow> nat" where
  "short_id_nat (ShortThreadId v) = unat v"

lemma short_id_nat_inject: "short_id_nat s = short_id_nat s' \<longleftrightarrow> s = s'"
  by (cases s; cases s') (simp add: word_unat_eq_iff)

lemma short_id_ok_alt: "short_id_ok s \<longleftrightarrow> 0 < short_id_nat s \<and> short_id_nat s < 4096"
  by (cases s) simp

lemma unat_ucast_16_12: "unat (ucast (x :: 12 word) :: 16 word) = unat x"
  by (simp add: unsigned_ucast_eq take_bit_nat_eq_self_iff order.strict_trans2 [OF unsigned_less])

lemma ShortThreadId_new_None [packing]: "ShortThreadId_new x = None \<longleftrightarrow> x = 0"
  by (auto simp: ShortThreadId_new_def word_unat_eq_iff unat_ucast_16_12)

lemma ShortThreadId_new_Some:
  assumes "ShortThreadId_new x = Some s"
  shows "short_id_ok s \<and> ShortThreadId_value s = x \<and> short_id_nat s = unat x"
proof -
  have s: "s = ShortThreadId (ucast x)" and nz: "ucast x \<noteq> (0 :: 16 word)"
    using assms by (auto simp: ShortThreadId_new_def split: if_splits)
  have lt: "unat x < 4096"
    using unsigned_less [of x, where 'a = nat] by simp
  have "(ucast (ucast x :: 16 word) :: 12 word) = x"
    by (rule bit_word_eqI) (simp add: bit_simps)
  then show ?thesis
    using s nz lt by (simp add: unat_ucast_16_12 word_unat_eq_iff)
qed

lemma ShortThreadId_new_value [packing]:
  assumes "short_id_ok s"
  shows "ShortThreadId_new (ShortThreadId_value s) = Some s"
proof -
  obtain v where s: "s = ShortThreadId v" by (cases s)
  have "unat v < 2 ^ 12" using assms s by simp
  then have "(ucast (ucast v :: 12 word) :: 16 word) = v"
    by (simp add: word_unat_eq_iff unsigned_ucast_eq unsigned_take_bit_eq take_bit_nat_eq_self)
  then show ?thesis
    using assms s by (auto simp: ShortThreadId_new_def)
qed

lemma ShortThreadId_value_nonzero: "short_id_ok s \<Longrightarrow> ShortThreadId_value s \<noteq> 0"
  using ShortThreadId_new_value [of s] ShortThreadId_new_None [of "ShortThreadId_value s"] by auto

lemma ShortThreadId_index_ok:
  "short_id_ok s \<Longrightarrow> \<exists>i. ShortThreadId_index s = Inr i \<and> unat i = short_id_nat s - 1"
proof -
  assume ok: "short_id_ok s"
  obtain v where s: "s = ShortThreadId v" by (cases s)
  have v: "v \<noteq> 0" using ok s by auto
  then have "unat (v - 1) = unat v - 1"
    using ok s by (simp add: unat_minus_one)
  moreover have "unat (ucast (v - 1) :: 64 word) = unat (v - 1)"
    by (simp add: unsigned_ucast_eq take_bit_nat_eq_self_iff order.strict_trans2 [OF unsigned_less])
  ultimately show ?thesis using s v by simp
qed

section \<open>From a table index to a short id and back\<close>

lemma UniqueThreadId_from_index_Inr:
  assumes "UniqueThreadId_from_index i = Inr u"
  shows "unat (UniqueThreadId_value u) = unat i + 1"
  using assms
  by (auto simp: UniqueThreadId_from_index_def UniqueThreadId_MIN_def unat_word_ariths split: if_splits)

lemma ShortThreadId_try_from_Inr_iff:
  "(\<exists>s. ShortThreadId_try_from u = Inr s) \<longleftrightarrow> unat (UniqueThreadId_value u) \<le> 4095"
proof -
  have *: "ucast v \<le> (ucast ShortThreadId_MAX :: 16 word) \<longleftrightarrow> unat v \<le> 4095"
    if "unat v < 2 ^ 16" for v :: "64 word"
  proof -
    have "unat (ucast v :: 16 word) = unat v"
      using that by (simp add: unsigned_ucast_eq take_bit_nat_eq_self)
    then show ?thesis
      by (simp add: word_le_nat_alt unat_ucast_16_12 ShortThreadId_MAX_def)
  qed
  show ?thesis
    using * [of "UniqueThreadId_value u"]
    by (auto simp: ShortThreadId_try_from_def Let_def not_le)
qed

lemma ShortThreadId_try_from_nat:
  assumes "ShortThreadId_try_from u = Inr s"
  shows "short_id_nat s = unat (UniqueThreadId_value u)"
  using assms
  by (auto simp: ShortThreadId_try_from_def Let_def unsigned_ucast_eq take_bit_nat_eq_self
      not_le split: if_splits)

lemma short_id_of_index:
  assumes u: "UniqueThreadId_from_index i = Inr u" and s: "ShortThreadId_try_from u = Inr s"
  shows "short_id_ok s \<and> ShortThreadId_index s = Inr i"
proof -
  have n: "short_id_nat s = unat i + 1"
    using UniqueThreadId_from_index_Inr [OF u] ShortThreadId_try_from_nat [OF s] by simp
  have "unat (UniqueThreadId_value u) \<le> 4095"
    using s ShortThreadId_try_from_Inr_iff by blast
  then have ok: "short_id_ok s"
    using n ShortThreadId_try_from_nat [OF s] by (simp add: short_id_ok_alt)
  then obtain j where j: "ShortThreadId_index s = Inr j" "unat j = short_id_nat s - 1"
    using ShortThreadId_index_ok by blast
  then have "j = i" using n by (simp add: word_unat_eq_iff)
  then show ?thesis using ok j by simp
qed

lemma ShortThreadId_index_inject:
  assumes "short_id_ok s" "short_id_ok s'" "ShortThreadId_index s = ShortThreadId_index s'"
  shows "s = s'"
proof -
  obtain i where "ShortThreadId_index s = Inr i" "unat i = short_id_nat s - 1"
    using ShortThreadId_index_ok assms(1) by blast
  moreover obtain j where "ShortThreadId_index s' = Inr j" "unat j = short_id_nat s' - 1"
    using ShortThreadId_index_ok assms(2) by blast
  ultimately have "short_id_nat s = short_id_nat s'"
    using assms by (auto simp: short_id_ok_alt)
  then show ?thesis by (simp add: short_id_nat_inject)
qed

end
