(* ===== verification/Counter_Words.thy ===== *)
theory Counter_Words
  imports Thread_Ids
begin

text \<open>
  The two packed words of an object header (\<open>runtime.rs\<close>, a target with 64 bit pointers): the
  biased word, 20 bits of count above 12 bits of owner id, and the shared word, a signed 62 bit
  count below the \<open>merged\<close> and \<open>queued\<close> flags. The lemmas show that packing and unpacking are
  inverse to each other, what an atomic \<open>fetch_add\<close> of 1 and \<open>fetch_or\<close> of \<open>MERGED_BIT\<close> on the raw
  word do to the unpacked one, and the range of every checked operation. The locale
  \<open>packed_word\<close> is the interface through which the header reads and writes a packed word.
\<close>

section \<open>The interface of a packed word\<close>

locale packed_word =
  fixes to_raw :: "'w \<Rightarrow> 'r" and from_raw :: "'r \<Rightarrow> 'w" and valid :: "'w \<Rightarrow> bool"
  assumes from_to: "valid w \<Longrightarrow> from_raw (to_raw w) = w"
    and to_from: "to_raw (from_raw r) = r"
    and valid_from: "valid (from_raw r)"
begin

lemma from_raw_inject: "from_raw r = from_raw r' \<longleftrightarrow> r = r'"
  by (metis to_from)

lemma to_raw_inject: "valid w \<Longrightarrow> valid w' \<Longrightarrow> to_raw w = to_raw w' \<longleftrightarrow> w = w'"
  by (metis from_to)

text \<open>Reading a raw word, changing a field and storing it back.\<close>

lemma read_update: "valid (f (from_raw r)) \<Longrightarrow> from_raw (to_raw (f (from_raw r))) = f (from_raw r)"
  by (rule from_to)

text \<open>
  A compare-and-exchange loop over the raw word that computes on the unpacked one exchanges the
  last word it read for the packed result.
\<close>

lemma cas_loop_unpacked:
  assumes "cas_loop (\<lambda>r. bind_checked (next (from_raw r)) (\<lambda>w. Inr (to_raw w))) seen old = Inr (r, r')"
    and "\<And>w w'. valid w \<Longrightarrow> next w = Inr w' \<Longrightarrow> valid w'"
  shows "r = last (old # seen) \<and> next (from_raw r) = Inr (from_raw r')"
proof -
  note res = cas_loop_result [OF assms(1)]
  then have r: "r = last (old # seen)" by blast
  from res obtain w where w: "next (from_raw r) = Inr w" "r' = to_raw w"
    by (auto simp: checked_simps)
  then have "from_raw r' = w"
    using assms(2) valid_from from_to by blast
  with r w show ?thesis by simp
qed

end

section \<open>The biased word\<close>

text \<open>\<open>BiasedCount\<close> is \<open>u20\<close>.\<close>

definition BiasedCount_BITS :: nat where
  "BiasedCount_BITS = 20"

definition u20_checked_add :: "20 word \<Rightarrow> 20 word \<Rightarrow> 20 word option" where
  "u20_checked_add a b = (if unat a + unat b < 2 ^ 20 then Some (a + b) else None)"

record BiasedWord =
  owner_id :: "ShortThreadId option"
  biased_count :: "20 word"

definition BiasedWord_BITS :: nat where
  "BiasedWord_BITS = 32"

definition BiasedWord_UNOWNED :: BiasedWord where
  "BiasedWord_UNOWNED = \<lparr>owner_id = None, biased_count = 0\<rparr>"

definition BiasedWord_to_raw :: "BiasedWord \<Rightarrow> 32 word" where
  "BiasedWord_to_raw w =
     (push_bit ShortThreadId_BITS (ucast (biased_count w)))
     OR (case owner_id w of None \<Rightarrow> 0 | Some s \<Rightarrow> ucast (ShortThreadId_value s))"

definition BiasedWord_from_raw :: "32 word \<Rightarrow> BiasedWord" where
  "BiasedWord_from_raw raw =
     \<lparr>owner_id = ShortThreadId_new (ucast raw),
      biased_count = ucast (drop_bit ShortThreadId_BITS raw)\<rparr>"

definition biased_word_ok :: "BiasedWord \<Rightarrow> bool" where
  "biased_word_ok w \<longleftrightarrow> (\<forall>s. owner_id w = Some s \<longrightarrow> short_id_ok s)"

lemma biased_word_ok_UNOWNED [simp]: "biased_word_ok BiasedWord_UNOWNED"
  by (simp add: biased_word_ok_def BiasedWord_UNOWNED_def)

lemma BiasedWord_pack_owner:
  "(ucast (push_bit 12 (ucast (c :: 20 word)) OR (ucast (x :: 12 word)) :: 32 word) :: 12 word) = x"
  by (rule bit_word_eqI) (simp add: bit_simps)

lemma BiasedWord_pack_count:
  "(ucast (drop_bit 12 (push_bit 12 (ucast (c :: 20 word)) OR (ucast (x :: 12 word)) :: 32 word))
    :: 20 word) = c"
  by (rule bit_word_eqI) (auto simp: bit_simps dest: bit_imp_le_length)

lemma BiasedWord_unpack:
  "push_bit 12 (ucast (ucast (drop_bit 12 (r :: 32 word)) :: 20 word)) OR ucast (ucast r :: 12 word) = r"
  by (rule bit_word_eqI) (auto simp: bit_simps)

lemma BiasedWord_from_to:
  assumes "biased_word_ok w"
  shows "BiasedWord_from_raw (BiasedWord_to_raw w) = w"
proof (cases "owner_id w")
  case None
  have "(ucast (push_bit 12 (ucast (biased_count w)) :: 32 word) :: 12 word) = 0"
    using BiasedWord_pack_owner [of "biased_count w" 0] by simp
  moreover have "(ucast (drop_bit 12 (push_bit 12 (ucast (biased_count w)) :: 32 word)) :: 20 word)
      = biased_count w"
    using BiasedWord_pack_count [of "biased_count w" 0] by simp
  ultimately show ?thesis
    using None by (simp add: BiasedWord_from_raw_def BiasedWord_to_raw_def ShortThreadId_BITS_def
        ShortThreadId_new_None)
next
  case (Some s)
  then have "short_id_ok s"
    using assms by (simp add: biased_word_ok_def)
  then show ?thesis
    using Some by (simp add: BiasedWord_from_raw_def BiasedWord_to_raw_def ShortThreadId_BITS_def
        BiasedWord_pack_owner BiasedWord_pack_count ShortThreadId_new_value del: drop_bit_or)
qed

lemma BiasedWord_to_from: "BiasedWord_to_raw (BiasedWord_from_raw r) = r"
proof (cases "ShortThreadId_new (ucast r)")
  case None
  then have "(ucast r :: 12 word) = 0"
    by (simp add: ShortThreadId_new_None)
  then show ?thesis
    using None BiasedWord_unpack [of r]
    by (simp add: BiasedWord_to_raw_def BiasedWord_from_raw_def ShortThreadId_BITS_def)
next
  case (Some s)
  then show ?thesis
    using ShortThreadId_new_Some [OF Some] BiasedWord_unpack [of r]
    by (simp add: BiasedWord_to_raw_def BiasedWord_from_raw_def ShortThreadId_BITS_def)
qed

lemma biased_word_ok_from_raw: "biased_word_ok (BiasedWord_from_raw r)"
  by (auto simp: biased_word_ok_def BiasedWord_from_raw_def dest: ShortThreadId_new_Some)

interpretation bw: packed_word BiasedWord_to_raw BiasedWord_from_raw biased_word_ok
  by unfold_locales (auto simp: BiasedWord_from_to BiasedWord_to_from biased_word_ok_from_raw)

section \<open>The shared count\<close>

text \<open>
  \<open>SharedCount\<close> wraps \<open>i62\<close>. \<open>SharedCount_value\<close> is the \<open>isize\<close> that \<open>value\<close> returns;
  a cast \<open>as usize\<close> of an \<open>isize\<close> is \<open>word_of_int\<close>.
\<close>

type_synonym SharedCount = "62 word"

definition SharedCount_BITS :: nat where
  "SharedCount_BITS = 62"

definition SharedCount_MAX :: SharedCount where
  "SharedCount_MAX = 2 ^ 61 - 1"

definition SharedCount_value :: "SharedCount \<Rightarrow> int" where
  "SharedCount_value c = sint c"

text \<open>\<open>new\<close> panics when the value does not fit; \<open>new_unchecked\<close> must not be called then.\<close>

definition SharedCount_new :: "int \<Rightarrow> SharedCount checked" where
  "SharedCount_new v =
     (if - (2 ^ 61) \<le> v \<and> v < 2 ^ 61 then Inr (word_of_int v) else Inl Assertion_failed)"

definition SharedCount_new_unchecked :: "int \<Rightarrow> SharedCount checked" where
  "SharedCount_new_unchecked v =
     (if - (2 ^ 61) \<le> v \<and> v < 2 ^ 61 then Inr (word_of_int v) else Inl Unchecked_violation)"

definition SharedCount_to_bits :: "SharedCount \<Rightarrow> 64 word" where
  "SharedCount_to_bits c = ucast c"

definition SharedCount_masked_new :: "64 word \<Rightarrow> SharedCount" where
  "SharedCount_masked_new x = ucast x"

definition SharedCount_checked_add :: "SharedCount \<Rightarrow> SharedCount \<Rightarrow> SharedCount option" where
  "SharedCount_checked_add a b =
     (if - (2 ^ 61) \<le> sint a + sint b \<and> sint a + sint b < 2 ^ 61 then Some (a + b) else None)"

definition SharedCount_checked_sub :: "SharedCount \<Rightarrow> SharedCount \<Rightarrow> SharedCount option" where
  "SharedCount_checked_sub a b =
     (if - (2 ^ 61) \<le> sint a - sint b \<and> sint a - sint b < 2 ^ 61 then Some (a - b) else None)"

lemma sint_word_of_int_62: "- (2 ^ 61) \<le> v \<Longrightarrow> v < 2 ^ 61 \<Longrightarrow> sint (word_of_int v :: 62 word) = v"
  using signed_take_bit_int_eq_self [of 61 v] by (simp add: signed_of_int)

lemma sint_add_62:
  "- (2 ^ 61) \<le> sint a + sint b \<Longrightarrow> sint a + sint b < 2 ^ 61 \<Longrightarrow> sint (a + b :: 62 word) = sint a + sint b"
  using sint_word_of_int_62 [of "sint a + sint b"] by simp

lemma sint_sub_62:
  "- (2 ^ 61) \<le> sint a - sint b \<Longrightarrow> sint a - sint b < 2 ^ 61 \<Longrightarrow> sint (a - b :: 62 word) = sint a - sint b"
  using sint_word_of_int_62 [of "sint a - sint b"] by simp

lemma SharedCount_checked_add_Some [packing]:
  "SharedCount_checked_add a b = Some c \<Longrightarrow> SharedCount_value c = SharedCount_value a + SharedCount_value b"
  by (auto simp: SharedCount_checked_add_def SharedCount_value_def sint_add_62 split: if_splits)

lemma SharedCount_checked_sub_Some [packing]:
  "SharedCount_checked_sub a b = Some c \<Longrightarrow> SharedCount_value c = SharedCount_value a - SharedCount_value b"
  by (auto simp: SharedCount_checked_sub_def SharedCount_value_def sint_sub_62 split: if_splits)

lemma SharedCount_new_value: "SharedCount_new v = Inr c \<Longrightarrow> SharedCount_value c = v"
  by (auto simp: SharedCount_new_def SharedCount_value_def sint_word_of_int_62 split: if_splits)

lemma SharedCount_value_range: "- (2 ^ 61) \<le> SharedCount_value c" "SharedCount_value c < 2 ^ 61"
  unfolding SharedCount_value_def by (rule sint_range62)+

lemma SharedCount_value_inject: "SharedCount_value c = SharedCount_value d \<longleftrightarrow> c = d"
  by (auto simp: SharedCount_value_def intro: signed_word_eqI)

lemma SharedCount_value_0 [simp]: "SharedCount_value 0 = 0"
  by (simp add: SharedCount_value_def)

lemma SharedCount_value_1 [simp]: "SharedCount_value 1 = 1"
  by (simp add: SharedCount_value_def)

section \<open>The shared word\<close>

record SharedWord =
  shared_count :: SharedCount
  merged :: bool
  queued :: bool

definition SharedWord_BITS :: nat where
  "SharedWord_BITS = SharedCount_BITS + 2"

definition MERGED_BIT :: "64 word" where
  "MERGED_BIT = push_bit SharedCount_BITS 1"

definition QUEUED_BIT :: "64 word" where
  "QUEUED_BIT = push_bit (SharedCount_BITS + 1) 1"

text \<open>\<open>SharedCount::new(SharedCount::MAX.value() / 2)\<close>, evaluated at compile time.\<close>

definition OVERFLOW_THRESHOLD :: SharedCount where
  "OVERFLOW_THRESHOLD = word_of_int (SharedCount_value SharedCount_MAX div 2)"

definition SharedWord_to_raw :: "SharedWord \<Rightarrow> 64 word" where
  "SharedWord_to_raw w =
     (SharedCount_to_bits (shared_count w)
      OR push_bit SharedCount_BITS (of_bool (merged w)))
     OR push_bit (SharedCount_BITS + 1) (of_bool (queued w))"

definition SharedWord_from_raw :: "64 word \<Rightarrow> SharedWord" where
  "SharedWord_from_raw raw =
     \<lparr>shared_count = SharedCount_masked_new raw,
      merged = (raw AND MERGED_BIT \<noteq> 0),
      queued = (raw AND QUEUED_BIT \<noteq> 0)\<rparr>"

lemma SharedWord_from_raw_bits:
  "shared_count (SharedWord_from_raw r) = ucast r"
  "merged (SharedWord_from_raw r) = bit r 62"
  "queued (SharedWord_from_raw r) = bit r 63"
  by (simp_all add: SharedWord_from_raw_def SharedCount_masked_new_def MERGED_BIT_def QUEUED_BIT_def
      SharedCount_BITS_def bit_iff_and_push_bit_not_eq_0 del: push_bit_of_1)

lemma SharedWord_to_raw_bit:
  "bit (SharedWord_to_raw w) n \<longleftrightarrow>
     (n < 62 \<and> bit (shared_count w) n) \<or> (n = 62 \<and> merged w) \<or> (n = 63 \<and> queued w)"
  by (auto simp: SharedWord_to_raw_def SharedCount_to_bits_def SharedCount_BITS_def bit_simps
      dest: bit_imp_le_length)

lemma SharedWord_from_to: "SharedWord_from_raw (SharedWord_to_raw w) = w"
proof -
  have "shared_count (SharedWord_from_raw (SharedWord_to_raw w)) = shared_count w"
    by (rule bit_word_eqI) (simp add: SharedWord_from_raw_bits SharedWord_to_raw_bit bit_simps)
  then show ?thesis
    by (simp add: SharedWord.equality SharedWord_from_raw_bits SharedWord_to_raw_bit)
qed

lemma SharedWord_to_from: "SharedWord_to_raw (SharedWord_from_raw r) = r"
proof (rule bit_word_eqI)
  fix n assume "n < LENGTH(64)"
  then have "n < 62 \<or> n = 62 \<or> n = 63" by auto
  then show "bit (SharedWord_to_raw (SharedWord_from_raw r)) n = bit r n"
    by (auto simp: SharedWord_to_raw_bit SharedWord_from_raw_bits bit_simps)
qed

interpretation sw: packed_word SharedWord_to_raw SharedWord_from_raw "\<lambda>_. True"
  by unfold_locales (simp_all add: SharedWord_from_to SharedWord_to_from)

section \<open>Atomic read-modify-write on the raw shared word\<close>

lemma bit_MERGED_BIT: "bit MERGED_BIT n \<longleftrightarrow> n = 62"
  by (auto simp: MERGED_BIT_def SharedCount_BITS_def bit_push_bit_iff bit_1_iff simp del: push_bit_of_1)

text \<open>\<open>fetch_or(MERGED_BIT)\<close> sets the merged flag and nothing else.\<close>

lemma SharedWord_fetch_or:
  "SharedWord_from_raw (r OR MERGED_BIT) = (SharedWord_from_raw r)\<lparr>merged := True\<rparr>"
proof -
  have b: "bit (r OR MERGED_BIT) n \<longleftrightarrow> bit r n \<or> n = 62" for n
    by (auto simp: bit_or_iff bit_MERGED_BIT)
  have "(ucast (r OR MERGED_BIT) :: 62 word) = ucast r"
    by (rule bit_word_eqI) (auto simp: bit_simps b bit_MERGED_BIT)
  then show ?thesis
    by (simp add: SharedWord.equality SharedWord_from_raw_bits b)
qed

lemma bit_word_div: "bit (r :: 64 word) n \<longleftrightarrow> odd (unat r div 2 ^ n)"
proof -
  have "bit r n \<longleftrightarrow> bit (unat r) n"
    by (simp add: bit_unsigned_iff)
  then show ?thesis by (simp add: bit_iff_odd)
qed

lemma div_plus_one: "a mod b \<noteq> b - 1 \<Longrightarrow> 0 < b \<Longrightarrow> (a + 1) div b = a div b" for a b :: nat
  by (auto simp: div_Suc mod_Suc split: if_splits)

lemma div_exp_62_63: "a div 2 ^ 63 = a div 2 ^ 62 div 2" for a :: nat
  using div_mult2_eq [of a "2 ^ 62" 2] by simp

lemma unat_ucast_62: "unat (ucast (r :: 64 word) :: 62 word) = unat r mod 2 ^ 62"
  by (simp add: unsigned_ucast_eq take_bit_eq_mod)

lemma ucast_62_minus_1_iff: "(ucast (r :: 64 word) :: 62 word) = - 1 \<longleftrightarrow> unat r mod 2 ^ 62 = 2 ^ 62 - 1"
proof -
  have "unat (- 1 :: 62 word) = 2 ^ 62 - 1"
    by (simp add: unsigned_minus_1_eq_mask mask_eq_exp_minus_1)
  then show ?thesis
    by (metis unat_ucast_62 unsigned_word_eqI)
qed

lemma SharedWord_fetch_add_count:
  "shared_count (SharedWord_from_raw (r + 1)) = shared_count (SharedWord_from_raw r) + 1"
proof -
  have "(ucast (r + 1) :: 62 word) = ucast r + 1"
    by (rule unsigned_word_eqI [where 'a = nat])
      (simp add: unat_ucast_62 unat_word_ariths mod_mod_cancel mod_simps)
  then show ?thesis by (simp add: SharedWord_from_raw_bits)
qed

text \<open>
  A \<open>fetch_add(1)\<close> on the raw word adds one to the count and keeps the flags, unless the count is
  \<open>-1\<close>: then the 62 bits are all set and the addition carries into the flags.
\<close>

lemma SharedWord_fetch_add:
  assumes "shared_count (SharedWord_from_raw r) \<noteq> - 1"
  shows "SharedWord_from_raw (r + 1) = (SharedWord_from_raw r)\<lparr>shared_count := shared_count (SharedWord_from_raw r) + 1\<rparr>"
proof -
  let ?a = "unat r"
  have m: "?a mod 2 ^ 62 \<noteq> 2 ^ 62 - 1"
    using assms by (simp add: SharedWord_from_raw_bits ucast_62_minus_1_iff)
  have lt: "?a < 2 ^ 64"
    using unsigned_less [of r, where 'a = nat] by simp
  have "?a \<noteq> 2 ^ 64 - 1" using m by auto
  then have a1: "unat (r + 1) = ?a + 1"
    using lt by (simp add: unat_word_ariths)
  have d62: "(?a + 1) div 2 ^ 62 = ?a div 2 ^ 62"
    using m by (rule div_plus_one) simp
  have d63: "(?a + 1) div 2 ^ 63 = ?a div 2 ^ 63"
    unfolding div_exp_62_63 d62 ..
  show ?thesis
    using SharedWord_fetch_add_count [of r] d62 d63
    by (intro SharedWord.equality) (simp_all add: SharedWord_from_raw_bits bit_word_div a1)
qed

lemma SharedWord_fetch_add_carry:
  assumes "shared_count (SharedWord_from_raw r) = - 1"
  shows "SharedWord_from_raw (r + 1) =
     \<lparr>shared_count = 0, merged = (\<not> merged (SharedWord_from_raw r)),
      queued = (queued (SharedWord_from_raw r) \<noteq> merged (SharedWord_from_raw r))\<rparr>"
proof -
  define k where "k = unat r div 2 ^ 62"
  have "unat r mod 2 ^ 62 = 2 ^ 62 - 1"
    using assms by (simp add: SharedWord_from_raw_bits ucast_62_minus_1_iff)
  then have a: "unat r = k * 2 ^ 62 + (2 ^ 62 - 1)"
    using div_mult_mod_eq [of "unat r" "2 ^ 62"] by (simp add: k_def)
  have "unat r < 2 ^ 64"
    using unsigned_less [of r, where 'a = nat] by simp
  then have "k < 4" by (simp add: k_def)
  then have k: "k = 0 \<or> k = 1 \<or> k = 2 \<or> k = 3" by auto
  have r1: "unat (r + 1) = (unat r + 1) mod 2 ^ 64"
    by (simp add: unat_word_ariths)
  have a1: "unat r + 1 = k * 2 ^ 62 + 2 ^ 62"
    unfolding a by simp
  have "unat (r + 1) = (k * 2 ^ 62 + 2 ^ 62) mod 2 ^ 64"
    unfolding r1 a1 ..
  with k have c: "unat (r + 1) div 2 ^ 62 = (k + 1) mod 4"
    by (elim disjE) simp_all
  have bits': "bit (r + 1) 62 = odd ((k + 1) mod 4)" "bit (r + 1) 63 = odd ((k + 1) mod 4 div 2)"
    unfolding bit_word_div div_exp_62_63 c by (rule refl)+
  have bits: "bit r 62 = odd k" "bit r 63 = odd (k div 2)"
    unfolding bit_word_div div_exp_62_63 k_def by (rule refl)+
  have "bit (r + 1) 62 = (\<not> bit r 62)" "bit (r + 1) 63 = (bit r 63 \<noteq> bit r 62)"
    unfolding bits bits' using k by (elim disjE; simp)+
  then show ?thesis
    using SharedWord_fetch_add_count [of r] assms
    by (intro SharedWord.equality) (simp_all add: SharedWord_from_raw_bits)
qed

lemmas unpack_simps [packing] =
  SharedWord_from_to SharedWord_to_from BiasedWord_from_to BiasedWord_to_from

text \<open>
  C30. The packed counters lose nothing: every shared word and every biased word with a valid owner
  is read back as it was written, and every raw value is the packing of what is read from it, so a
  compare-and-swap on the raw word compares all the fields.
\<close>

theorem counter_words_round_trip:
  "SharedWord_from_raw (SharedWord_to_raw s) = s \<and> SharedWord_to_raw (SharedWord_from_raw x) = x
   \<and> BiasedWord_to_raw (BiasedWord_from_raw y) = y \<and> biased_word_ok (BiasedWord_from_raw y)
   \<and> BiasedWord_from_raw (BiasedWord_to_raw BiasedWord_UNOWNED) = BiasedWord_UNOWNED
   \<and> BiasedWord_from_raw (BiasedWord_to_raw ((BiasedWord_from_raw y)\<lparr>biased_count := n\<rparr>))
     = (BiasedWord_from_raw y)\<lparr>biased_count := n\<rparr>"
proof -
  have "biased_word_ok ((BiasedWord_from_raw y)\<lparr>biased_count := n\<rparr>)"
    using bw.valid_from [of y] by (simp add: biased_word_ok_def)
  then show ?thesis
    using sw.from_to sw.to_from bw.to_from bw.valid_from bw.from_to by simp
qed
end
