(* ===== verification/Thread_State.thy ===== *)
theory Thread_State
  imports Thread_Ids
begin

text \<open>
  The state the runtime keeps per thread (\<open>runtime/threads.rs\<close>): the shared information in the
  table \<open>THREADS\<close>, the two thread-local variables, how a thread is initialised on first use, and
  how it asks for its short id. The invariant \<open>runtime_ok\<close> ties the three together; the lemmas
  show that initialisation keeps it and never fails one of its own assertions, that no two threads
  ever share a short id, and that \<open>existing_short_id\<close> never reaches its unreachable branch.

  The table is a \<open>boxcar::Vec\<close> and a thread's queue a \<open>SegQueue\<close>, both from other crates. The
  index that \<open>push_with\<close> gives to a new entry is an argument of the model (the crate promises a
  fresh one), and the queue is a value of a type variable with its operations as parameters.
\<close>

section \<open>Flags and statuses\<close>

datatype ThreadStateFlag = Live | QueuedObjects | Dying | Dead

fun is_live :: "ThreadStateFlag \<Rightarrow> bool" where
  "is_live Live = True"
| "is_live QueuedObjects = True"
| "is_live Dying = False"
| "is_live Dead = False"

definition is_dead_or_dying :: "ThreadStateFlag \<Rightarrow> bool" where
  "is_dead_or_dying f \<longleftrightarrow> \<not> is_live f"

datatype LocalThreadStatus = DeadOrDying | Uninit | Active

datatype ThreadStateInitError = AlreadyDied | InitIdOverflow ThreadIdOverflowError

datatype LocalThreadAccessError = Uninitialized | AccessDead | AccessIdOverflow ThreadIdOverflowError

section \<open>The state of one thread\<close>

text \<open>
  \<open>SharedThreadInfo\<close>. Its \<open>queued_objects\<close> is a \<open>Weak\<close> pointer to the \<open>Arc\<close> that holds the
  \<open>ObjectQueue\<close>: \<open>queue_strong\<close> is the strong count of that \<open>Arc\<close> (so \<open>upgrade\<close> succeeds while it
  is positive) and \<open>queue_inner\<close> the \<open>SegQueue\<close> inside, \<open>queue_short_id\<close> the queue's short id.
\<close>

record 'q SharedThreadInfo =
  info_id :: UniqueThreadId
  info_short_id :: ShortThreadId
  state_flag :: ThreadStateFlag
  queue_strong :: nat
  queue_short_id :: ShortThreadId
  queue_inner :: 'q

text \<open>
  \<open>LocalThreadState\<close> holds a reference to the entry of the table (its index here), the short id,
  and one strong reference to the queue.
\<close>

record LocalThreadState =
  shared_info :: nat
  local_short_id :: ShortThreadId

text \<open>
  \<open>LocalThreadStateFast\<close>. \<open>shared_state_flag\<close> points to \<open>DUMMY_STATE_FLAG\<close> (\<open>None\<close>) or to the
  flag of an entry of the table (\<open>Some\<close> its index).
\<close>

record LocalThreadStateFast =
  status :: LocalThreadStatus
  fast_short_id :: "ShortThreadId option"
  shared_state_flag :: "nat option"

definition DUMMY_STATE_FLAG :: ThreadStateFlag where
  "DUMMY_STATE_FLAG = Dying"

definition fast_init :: LocalThreadStateFast where
  "fast_init = \<lparr>status = Uninit, fast_short_id = None, shared_state_flag = None\<rparr>"

text \<open>
  A lazily initialised \<open>thread_local!\<close> with a destructor: not initialised yet, initialised with a
  value, or its destructor has started (every later \<open>try_with\<close> gives an \<open>AccessError\<close>).
\<close>

datatype tls_slot = Tls_uninit | Tls_alive "ThreadStateInitError + LocalThreadState" | Tls_destroyed

type_synonym thread = nat

record 'q runtime =
  threads :: "nat \<Rightarrow> (ThreadIdOverflowError + 'q SharedThreadInfo) option"
  ids_exhausted :: bool
  fast :: "thread \<Rightarrow> LocalThreadStateFast"
  tls :: "thread \<Rightarrow> tls_slot"

definition runtime_init :: "'q runtime" where
  "runtime_init = \<lparr>threads = \<lambda>_. None, ids_exhausted = False, fast = \<lambda>_. fast_init, tls = \<lambda>_. Tls_uninit\<rparr>"

section \<open>Asking for the short id\<close>

fun existing_short_id_of ::
  "LocalThreadStatus \<Rightarrow> ShortThreadId option \<Rightarrow> (LocalThreadAccessError + ShortThreadId) checked" where
  "existing_short_id_of Uninit None = Inr (Inl Uninitialized)"
| "existing_short_id_of DeadOrDying None = Inr (Inl AccessDead)"
| "existing_short_id_of Active (Some short_id) = Inr (Inr short_id)"
| "existing_short_id_of _ _ = Inl Unchecked_violation"

definition existing_short_id ::
  "thread \<Rightarrow> ('q, 'z) runtime_scheme \<Rightarrow> (LocalThreadAccessError + ShortThreadId) checked" where
  "existing_short_id t rt = existing_short_id_of (status (fast rt t)) (fast_short_id (fast rt t))"

section \<open>Initialising a thread\<close>

text \<open>
  The entry \<open>push_with\<close> stores at \<open>index\<close>, built by its closure: a new queue with one strong
  reference when the id is short enough, an error otherwise.
\<close>

definition new_thread_entry ::
  "'q \<Rightarrow> 64 word \<Rightarrow> (ThreadIdOverflowError + 'q SharedThreadInfo) checked" where
  "new_thread_entry empty_queue index =
     bind_checked (UniqueThreadId_from_index index) (\<lambda>uid.
       case ShortThreadId_try_from uid of
         Inr short_id \<Rightarrow> Inr (Inr
           \<lparr>info_id = uid, info_short_id = short_id, state_flag = Live, queue_strong = 1,
            queue_short_id = short_id, queue_inner = empty_queue\<rparr>)
       | Inl ThreadIdOverflowError \<Rightarrow> Inr (Inl ThreadIdOverflowError))"

definition init_thread ::
  "'q \<Rightarrow> 64 word \<Rightarrow> thread \<Rightarrow> ('q, 'z) runtime_scheme
    \<Rightarrow> ((ThreadStateInitError + LocalThreadState) \<times> ('q, 'z) runtime_scheme) checked" where
  "init_thread empty_queue index t rt =
     (case status (fast rt t) of
        DeadOrDying \<Rightarrow> Inr (Inl AlreadyDied, rt)
      | Active \<Rightarrow> Inl Assertion_failed
      | Uninit \<Rightarrow>
          if ids_exhausted rt then Inr (Inl (InitIdOverflow ThreadIdOverflowError), rt)
          else
            bind_checked (new_thread_entry empty_queue index) (\<lambda>entry.
              let rt = rt\<lparr>threads := (threads rt)(unat index \<mapsto> entry)\<rparr> in
              case entry of
                Inl e \<Rightarrow> Inr (Inl (InitIdOverflow e), rt\<lparr>ids_exhausted := True\<rparr>)
              | Inr info \<Rightarrow>
                  if fast rt t = fast_init
                  then Inr (Inr \<lparr>shared_info = unat index, local_short_id = info_short_id info\<rparr>,
                    rt\<lparr>fast := (fast rt)(t :=
                      \<lparr>status = Active, fast_short_id = Some (info_short_id info),
                       shared_state_flag = Some (unat index)\<rparr>)\<rparr>)
                  else Inl Assertion_failed))"

text \<open>
  \<open>THIS_THREAD_STATE.try_with\<close> under \<open>LocalThreadState::with_current\<close>: the first access
  initialises the variable (inside \<open>nounwind::abort_unwind\<close>, so a panic there aborts), and the
  closure of the caller runs on the state that is returned.
\<close>

definition with_current ::
  "'q \<Rightarrow> 64 word \<Rightarrow> thread \<Rightarrow> ('q, 'z) runtime_scheme
    \<Rightarrow> ((LocalThreadAccessError + LocalThreadState) \<times> ('q, 'z) runtime_scheme) checked" where
  "with_current empty_queue index t rt =
     bind_checked
       (case tls rt t of
          Tls_destroyed \<Rightarrow> Inr (None, rt)
        | Tls_alive v \<Rightarrow> Inr (Some v, rt)
        | Tls_uninit \<Rightarrow>
            bind_checked (init_thread empty_queue index t rt) (\<lambda>(v, rt).
              Inr (Some v, rt\<lparr>tls := (tls rt)(t := Tls_alive v)\<rparr>)))
       (\<lambda>(v, rt). Inr
         (case v of
            Some (Inr state) \<Rightarrow> Inr state
          | Some (Inl (InitIdOverflow cause)) \<Rightarrow> Inl (AccessIdOverflow cause)
          | Some (Inl AlreadyDied) \<Rightarrow> Inl AccessDead
          | None \<Rightarrow> Inl AccessDead, rt))"

text \<open>\<open>LocalThreadState::init_tid\<close>.\<close>

definition init_tid ::
  "'q \<Rightarrow> 64 word \<Rightarrow> thread \<Rightarrow> ('q, 'z) runtime_scheme
    \<Rightarrow> (ShortThreadId option \<times> ('q, 'z) runtime_scheme) checked" where
  "init_tid empty_queue index t rt =
     bind_checked (with_current empty_queue index t rt) (\<lambda>(r, rt).
       Inr (case r of Inl _ \<Rightarrow> None | Inr state \<Rightarrow> Some (local_short_id state), rt))"

text \<open>\<open>SharedThreadInfo::get_by_id\<close>, with the index of the entry it finds.\<close>

definition get_by_id ::
  "ShortThreadId \<Rightarrow> ('q, 'z) runtime_scheme \<Rightarrow> (nat \<times> 'q SharedThreadInfo) option checked" where
  "get_by_id sid rt =
     bind_checked (ShortThreadId_index sid) (\<lambda>i.
       Inr (case threads rt (unat i) of
              Some (Inr info) \<Rightarrow> Some (unat i, info)
            | _ \<Rightarrow> None))"

text \<open>\<open>LocalThreadState::currently_needs_collect\<close>: one load through the flag pointer.\<close>

definition flag_at :: "nat option \<Rightarrow> ('q, 'z) runtime_scheme \<Rightarrow> ThreadStateFlag" where
  "flag_at p rt =
     (case p of
        None \<Rightarrow> DUMMY_STATE_FLAG
      | Some i \<Rightarrow> (case threads rt i of Some (Inr info) \<Rightarrow> state_flag info | _ \<Rightarrow> DUMMY_STATE_FLAG))"

definition currently_needs_collect :: "thread \<Rightarrow> ('q, 'z) runtime_scheme \<Rightarrow> bool" where
  "currently_needs_collect t rt \<longleftrightarrow> flag_at (shared_state_flag (fast rt t)) rt \<noteq> Live"

section \<open>The invariant of the runtime state\<close>

text \<open>The two thread-local variables of a thread agree with each other and with the table.\<close>

definition alive_entry :: "LocalThreadState \<Rightarrow> ('q, 'z) runtime_scheme \<Rightarrow> bool" where
  "alive_entry st rt \<longleftrightarrow>
     (\<exists>info. threads rt (shared_info st) = Some (Inr info) \<and> info_short_id info = local_short_id st
        \<and> is_live (state_flag info) \<and> 0 < queue_strong info)"

definition thread_ok :: "('q, 'z) runtime_scheme \<Rightarrow> thread \<Rightarrow> bool" where
  "thread_ok rt t \<longleftrightarrow>
     (case tls rt t of
        Tls_uninit \<Rightarrow> fast rt t = fast_init
      | Tls_alive (Inl e) \<Rightarrow> fast rt t = fast_init
      | Tls_alive (Inr st) \<Rightarrow>
          fast rt t = \<lparr>status = Active, fast_short_id = Some (local_short_id st),
                       shared_state_flag = Some (shared_info st)\<rparr> \<and> alive_entry st rt
      | Tls_destroyed \<Rightarrow>
          fast_short_id (fast rt t) = None \<and> shared_state_flag (fast rt t) = None
          \<and> status (fast rt t) \<noteq> Active)"

text \<open>Every entry of the table sits at the index of its short id.\<close>

definition table_ok :: "('q, 'z) runtime_scheme \<Rightarrow> bool" where
  "table_ok rt \<longleftrightarrow>
     (\<forall>i info. threads rt i = Some (Inr info) \<longrightarrow>
        short_id_ok (info_short_id info) \<and> short_id_nat (info_short_id info) = i + 1
        \<and> queue_short_id info = info_short_id info)"

text \<open>No two threads are initialised with the same entry.\<close>

definition entries_distinct :: "('q, 'z) runtime_scheme \<Rightarrow> bool" where
  "entries_distinct rt \<longleftrightarrow>
     (\<forall>t t' st st'. tls rt t = Tls_alive (Inr st) \<longrightarrow> tls rt t' = Tls_alive (Inr st') \<longrightarrow>
        shared_info st = shared_info st' \<longrightarrow> t = t')"

definition runtime_ok :: "('q, 'z) runtime_scheme \<Rightarrow> bool" where
  "runtime_ok rt \<longleftrightarrow> (\<forall>t. thread_ok rt t) \<and> table_ok rt \<and> entries_distinct rt"

lemma runtime_okD:
  assumes "runtime_ok rt"
  shows "thread_ok rt t" "table_ok rt" "entries_distinct rt"
  using assms by (auto simp: runtime_ok_def)

lemma table_okD:
  "table_ok rt \<Longrightarrow> threads rt i = Some (Inr info) \<Longrightarrow>
     short_id_ok (info_short_id info) \<and> short_id_nat (info_short_id info) = i + 1
     \<and> queue_short_id info = info_short_id info"
  by (simp add: table_ok_def)

lemma runtime_ok_init: "runtime_ok runtime_init"
  by (simp add: runtime_ok_def runtime_init_def thread_ok_def table_ok_def entries_distinct_def)

lemma thread_ok_alive:
  "thread_ok rt t \<Longrightarrow> tls rt t = Tls_alive (Inr st) \<Longrightarrow>
     fast rt t = \<lparr>status = Active, fast_short_id = Some (local_short_id st),
                  shared_state_flag = Some (shared_info st)\<rparr> \<and> alive_entry st rt"
  by (simp add: thread_ok_def)

text \<open>\<open>existing_short_id\<close> gives an id exactly to the initialised threads.\<close>

lemma existing_short_id_total: "thread_ok rt t \<Longrightarrow> \<exists>r. existing_short_id t rt = Inr r"
  by (cases "status (fast rt t)")
    (auto simp: thread_ok_def existing_short_id_def fast_init_def split: tls_slot.splits sum.splits)

lemma existing_short_id_Inr:
  assumes "thread_ok rt t"
  shows "existing_short_id t rt = Inr (Inr s) \<longleftrightarrow> (\<exists>st. tls rt t = Tls_alive (Inr st) \<and> local_short_id st = s)"
  using assms
  by (cases "status (fast rt t)")
    (auto simp: thread_ok_def existing_short_id_def fast_init_def split: tls_slot.splits sum.splits)

lemma alive_entry_index:
  assumes "table_ok rt" "alive_entry st rt"
  shows "short_id_ok (local_short_id st) \<and> short_id_nat (local_short_id st) = shared_info st + 1"
  using assms by (auto simp: alive_entry_def dest: table_okD)

text \<open>No two threads share a short id.\<close>

lemma short_ids_distinct:
  assumes ok: "runtime_ok rt"
    and a: "existing_short_id t rt = Inr (Inr s)" and b: "existing_short_id t' rt = Inr (Inr s)"
  shows "t = t'"
proof -
  obtain st where st: "tls rt t = Tls_alive (Inr st)" "local_short_id st = s"
    using a existing_short_id_Inr runtime_okD(1) [OF ok] by blast
  obtain st' where st': "tls rt t' = Tls_alive (Inr st')" "local_short_id st' = s"
    using b existing_short_id_Inr runtime_okD(1) [OF ok] by blast
  have "alive_entry st rt" "alive_entry st' rt"
    using thread_ok_alive [OF runtime_okD(1) [OF ok]] st(1) st'(1) by blast+
  then have "shared_info st = shared_info st'"
    using alive_entry_index [OF runtime_okD(2) [OF ok], of st]
      alive_entry_index [OF runtime_okD(2) [OF ok], of st'] st(2) st'(2) by simp
  then show ?thesis
    using runtime_okD(3) [OF ok] st(1) st'(1) by (auto simp: entries_distinct_def)
qed

section \<open>Initialisation keeps the invariant\<close>

text \<open>
  The index is one that \<open>push_with\<close> can give: nothing is stored there yet. A table of threads
  never holds \<open>usize::MAX\<close> entries, the case \<open>from_index\<close> panics in. Once the ids are exhausted
  \<open>push_with\<close> is not called any more.
\<close>

definition fresh_index :: "64 word \<Rightarrow> ('q, 'z) runtime_scheme \<Rightarrow> bool" where
  "fresh_index index rt \<longleftrightarrow>
     ids_exhausted rt \<or> threads rt (unat index) = None \<and> unat index < 2 ^ 64 - 1"

lemma new_thread_entry_cases:
  assumes "unat index < 2 ^ 64 - 1"
  obtains "new_thread_entry q index = Inr (Inl ThreadIdOverflowError)" and "4095 \<le> unat index"
  | info where "new_thread_entry q index = Inr (Inr info)" and "unat index < 4095"
      and "short_id_ok (info_short_id info)" and "short_id_nat (info_short_id info) = unat index + 1"
      and "state_flag info = Live" and "queue_strong info = 1" and "queue_inner info = q"
      and "queue_short_id info = info_short_id info"
proof -
  let ?u = "UniqueThreadId (1 + index)"
  have u: "UniqueThreadId_from_index index = Inr ?u"
    using assms by (simp add: UniqueThreadId_from_index_def UniqueThreadId_MIN_def)
  have v: "unat (UniqueThreadId_value ?u) = unat index + 1"
    using UniqueThreadId_from_index_Inr [OF u] .
  show thesis
  proof (cases "ShortThreadId_try_from ?u")
    case (Inl e)
    then have "4095 \<le> unat index"
      using ShortThreadId_try_from_Inr_iff [of ?u] v by auto
    then show thesis
      using that(1) Inl u by (cases e) (simp add: new_thread_entry_def)
  next
    case (Inr s)
    have "unat index < 4095"
      using ShortThreadId_try_from_Inr_iff [of ?u] Inr v by auto
    moreover have "short_id_ok s"
      using short_id_of_index [OF u Inr] by simp
    moreover have "short_id_nat s = unat index + 1"
      using ShortThreadId_try_from_nat [OF Inr] v by simp
    ultimately show thesis
      using that(2) Inr u by (simp add: new_thread_entry_def)
  qed
qed

text \<open>Adding an entry at a fresh index does not disturb the other threads.\<close>

lemma thread_ok_add_entry:
  assumes "thread_ok rt t" "threads rt i = None"
  shows "thread_ok (rt\<lparr>threads := (threads rt)(i \<mapsto> entry), ids_exhausted := b\<rparr>) t"
  using assms
  by (auto simp: thread_ok_def alive_entry_def split: tls_slot.splits sum.splits)

lemma init_thread_cases:
  assumes ok: "runtime_ok rt" and un: "tls rt t = Tls_uninit" and fresh: "fresh_index index rt"
  obtains "init_thread q index t rt = Inr (Inl (InitIdOverflow ThreadIdOverflowError), rt)"
      and "ids_exhausted rt"
  | rt' where "init_thread q index t rt = Inr (Inl (InitIdOverflow ThreadIdOverflowError), rt')"
      and "\<not> ids_exhausted rt" and "4095 \<le> unat index"
      and "rt' = rt\<lparr>threads := (threads rt)(unat index \<mapsto> Inl ThreadIdOverflowError), ids_exhausted := True\<rparr>"
  | info where "new_thread_entry q index = Inr (Inr info)" and "\<not> ids_exhausted rt"
      and "init_thread q index t rt = Inr (Inr \<lparr>shared_info = unat index, local_short_id = info_short_id info\<rparr>,
             rt\<lparr>threads := (threads rt)(unat index \<mapsto> Inr info),
                fast := (fast rt)(t := \<lparr>status = Active, fast_short_id = Some (info_short_id info),
                       shared_state_flag = Some (unat index)\<rparr>)\<rparr>)"
proof -
  have f: "fast rt t = fast_init"
    using runtime_okD(1) [OF ok, of t] un by (simp add: thread_ok_def)
  then have st: "status (fast rt t) = Uninit" by (simp add: fast_init_def)
  show thesis
  proof (cases "ids_exhausted rt")
    case True
    then show thesis using that(1) st by (simp add: init_thread_def)
  next
    case False
    then have "unat index < 2 ^ 64 - 1" using fresh by (simp add: fresh_index_def)
    then show thesis
    proof (cases rule: new_thread_entry_cases [where q = q])
      case 1
      then show thesis using that(2) st False by (simp add: init_thread_def)
    next
      case (2 info)
      then show thesis using that(3) [of info] st False f by (simp add: init_thread_def)
    qed
  qed
qed

lemma alive_entry_frame [simp]:
  "alive_entry st (rt\<lparr>tls := f\<rparr>) = alive_entry st rt"
  "alive_entry st (rt\<lparr>fast := g\<rparr>) = alive_entry st rt"
  "alive_entry st (rt\<lparr>ids_exhausted := b\<rparr>) = alive_entry st rt"
  by (simp_all add: alive_entry_def)

text \<open>A thread that fails to be initialised keeps its empty thread-local state.\<close>

lemma runtime_ok_init_error:
  assumes ok: "runtime_ok rt" and un: "tls rt t = Tls_uninit"
  shows "runtime_ok (rt\<lparr>tls := (tls rt)(t := Tls_alive (Inl e))\<rparr>)"
proof -
  have "thread_ok (rt\<lparr>tls := (tls rt)(t := Tls_alive (Inl e))\<rparr>) u" for u
    using runtime_okD(1) [OF ok, of u] un
    by (cases "u = t") (auto simp: thread_ok_def split: tls_slot.splits sum.splits)
  then show ?thesis
    using ok un by (auto simp: runtime_ok_def table_ok_def entries_distinct_def)
qed

lemma runtime_ok_add_error:
  assumes ok: "runtime_ok rt" and none: "threads rt i = None"
  shows "runtime_ok (rt\<lparr>threads := (threads rt)(i \<mapsto> Inl e), ids_exhausted := b\<rparr>)"
  using ok thread_ok_add_entry [OF _ none] by (auto simp: runtime_ok_def table_ok_def entries_distinct_def)

text \<open>
  Initialising a thread keeps the invariant for it and for every other thread.
\<close>

lemma runtime_ok_after_init:
  assumes ok: "runtime_ok rt" and un: "tls rt t = Tls_uninit" and fresh: "fresh_index index rt"
    and init: "init_thread q index t rt = Inr (r, rt')"
  shows "runtime_ok (rt'\<lparr>tls := (tls rt')(t := Tls_alive r)\<rparr>)"
  using ok un fresh
proof (cases rule: init_thread_cases [where q = q])
  case 1
  then show ?thesis
    using init runtime_ok_init_error [OF ok un] by auto
next
  case (2 rt1)
  have "runtime_ok rt1" "tls rt1 t = Tls_uninit"
    using runtime_ok_add_error [OF ok] fresh un 2(2,4) by (auto simp: fresh_index_def)
  then show ?thesis
    using init 2(1) runtime_ok_init_error by auto
next
  case (3 info)
  have lt: "unat index < 2 ^ 64 - 1" and none: "threads rt (unat index) = None"
    using fresh 3(2) by (simp_all add: fresh_index_def)
  have info: "short_id_ok (info_short_id info) \<and> short_id_nat (info_short_id info) = unat index + 1
      \<and> state_flag info = Live \<and> queue_strong info = 1 \<and> queue_short_id info = info_short_id info"
    using lt
  proof (cases rule: new_thread_entry_cases [where q = q])
    case 1
    then show ?thesis using 3(1) by simp
  next
    case (2 info')
    then show ?thesis using 3(1) by simp
  qed
  let ?st = "\<lparr>shared_info = unat index, local_short_id = info_short_id info\<rparr>"
  let ?rt = "rt'\<lparr>tls := (tls rt')(t := Tls_alive r)\<rparr>"
  have r: "r = Inr ?st" and rt': "rt' = rt\<lparr>threads := (threads rt)(unat index \<mapsto> Inr info),
      fast := (fast rt)(t := \<lparr>status = Active, fast_short_id = Some (info_short_id info),
      shared_state_flag = Some (unat index)\<rparr>)\<rparr>"
    using init 3(3) by auto
  have "thread_ok ?rt t"
    using info by (simp add: thread_ok_def r rt' alive_entry_def)
  moreover have "thread_ok ?rt u" if "u \<noteq> t" for u
    using runtime_okD(1) [OF ok, of u] none that
    by (auto simp: thread_ok_def rt' alive_entry_def split: tls_slot.splits sum.splits)
  ultimately have "\<forall>u. thread_ok ?rt u" by metis
  moreover have "table_ok ?rt"
    using runtime_okD(2) [OF ok] info by (auto simp: table_ok_def rt')
  moreover have new: "shared_info st \<noteq> unat index" if "tls rt u = Tls_alive (Inr st)" for u st
    using runtime_okD(1) [OF ok, of u] that none by (auto simp: thread_ok_def alive_entry_def)
  have "entries_distinct ?rt"
    unfolding entries_distinct_def
  proof (intro allI impI)
    fix u u' st st'
    assume "tls ?rt u = Tls_alive (Inr st)" "tls ?rt u' = Tls_alive (Inr st')" "shared_info st = shared_info st'"
    then show "u = u'"
      using runtime_okD(3) [OF ok] new [of u st] new [of u' st']
      by (cases "u = t"; cases "u' = t") (auto simp: r rt' entries_distinct_def)
  qed
  ultimately show ?thesis
    unfolding runtime_ok_def by blast
qed

text \<open>Accessing the thread-local state never stops the process and keeps the invariant.\<close>

lemma with_current_ok:
  assumes ok: "runtime_ok rt" and fresh: "tls rt t = Tls_uninit \<Longrightarrow> fresh_index index rt"
  obtains r rt' where "with_current q index t rt = Inr (r, rt')" and "runtime_ok rt'"
    and "\<And>st. r = Inr st \<longleftrightarrow> tls rt' t = Tls_alive (Inr st)"
    and "tls rt t \<noteq> Tls_uninit \<Longrightarrow> rt' = rt"
proof (cases "tls rt t")
  case Tls_uninit
  note cases = init_thread_cases [OF ok Tls_uninit fresh [OF Tls_uninit], of q]
  obtain v rt1 where i: "init_thread q index t rt = Inr (v, rt1)" "v \<noteq> Inl AlreadyDied"
    by (rule cases) auto
  have ok': "runtime_ok (rt1\<lparr>tls := (tls rt1)(t := Tls_alive v)\<rparr>)"
    using runtime_ok_after_init [OF ok Tls_uninit fresh [OF Tls_uninit] i(1)] .
  show thesis
  proof (cases v)
    case (Inl e)
    then obtain x where "e = InitIdOverflow x"
      using i(2) by (cases e) auto
    then show thesis
      using that [OF _ ok', of "Inl (AccessIdOverflow x)"] i Tls_uninit Inl
      by (auto simp: with_current_def)
  next
    case (Inr st)
    then show thesis
      using that [OF _ ok', of "Inr st"] i Tls_uninit by (auto simp: with_current_def)
  qed
next
  case (Tls_alive v)
  have "\<exists>r. with_current q index t rt = Inr (r, rt) \<and> (\<forall>st. r = Inr st \<longleftrightarrow> v = Inr st)"
    using Tls_alive by (auto simp: with_current_def split: sum.splits ThreadStateInitError.splits)
  then show thesis
    using that ok Tls_alive by (metis sum.inject(2) tls_slot.inject)
next
  case Tls_destroyed
  then show thesis
    using that [OF _ ok, of "Inl AccessDead"] by (auto simp: with_current_def)
qed

lemma init_thread_frame:
  assumes "init_thread q index t rt = Inr (r, rt')"
  shows "runtime.more rt' = runtime.more rt"
proof (cases "new_thread_entry q index")
  case (Inl e)
  then show ?thesis
    using assms by (auto simp: init_thread_def split: LocalThreadStatus.split_asm if_split_asm)
next
  case (Inr entry)
  then show ?thesis
    using assms
    by (cases entry) (auto simp: init_thread_def Let_def split: LocalThreadStatus.split_asm if_split_asm)
qed

lemma with_current_frame:
  assumes "with_current q index t rt = Inr (r, rt')"
  shows "runtime.more rt' = runtime.more rt"
proof (cases "tls rt t")
  case Tls_uninit
  then obtain v rt1 where "init_thread q index t rt = Inr (v, rt1)"
    "rt' = rt1\<lparr>tls := (tls rt1)(t := Tls_alive v)\<rparr>"
    using assms by (auto simp: with_current_def checked_simps)
  then show ?thesis using init_thread_frame by fastforce
qed (use assms in \<open>auto simp: with_current_def\<close>)

lemma existing_short_id_ok:
  assumes ok: "runtime_ok rt" and s: "existing_short_id t rt = Inr (Inr s)"
  shows "short_id_ok s" "existing_short_id u rt = Inr (Inr s) \<longleftrightarrow> u = t"
proof -
  obtain st where st: "tls rt t = Tls_alive (Inr st)" "local_short_id st = s"
    using existing_short_id_Inr [OF runtime_okD(1) [OF ok]] s by blast
  then have "alive_entry st rt"
    using thread_ok_alive [OF runtime_okD(1) [OF ok]] by blast
  from alive_entry_index [OF runtime_okD(2) [OF ok] this] st(2) show "short_id_ok s" by simp
  show "existing_short_id u rt = Inr (Inr s) \<longleftrightarrow> u = t"
    using short_ids_distinct [OF ok s] s by blast
qed

text \<open>
  Asking for a short id, which initialises the thread when it has to, never stops the process
  and keeps the invariant of the runtime state. The id it gives is in range, and no other thread has
  it.
\<close>

theorem init_tid_gives_own_id:
  assumes "runtime_ok rt" "tls rt t = Tls_uninit \<Longrightarrow> fresh_index index rt"
  shows "\<exists>r rt'. init_tid q index t rt = Inr (r, rt') \<and> runtime_ok rt'
    \<and> (case r of None \<Rightarrow> True
       | Some s \<Rightarrow> short_id_ok s \<and> (\<forall>u. existing_short_id u rt' = Inr (Inr s) \<longleftrightarrow> u = t))"
proof -
  obtain v rt' where v: "with_current q index t rt = Inr (v, rt')" "runtime_ok rt'"
    "\<And>st. v = Inr st \<longleftrightarrow> tls rt' t = Tls_alive (Inr st)"
    by (rule with_current_ok [OF assms(1), of t index q]) (use assms(2) in auto)
  show ?thesis
  proof (cases v)
    case (Inl e)
    then show ?thesis using v(1,2) by (simp add: init_tid_def)
  next
    case (Inr st)
    then have "existing_short_id t rt' = Inr (Inr (local_short_id st))"
      using existing_short_id_Inr [OF runtime_okD(1) [OF v(2)]] v(3) by blast
    from existing_short_id_ok [OF v(2) this] show ?thesis
      using Inr v(1,2) by (simp add: init_tid_def)
  qed
qed

theorem init_tid_gives_own_id_witness:
  "\<exists>r rt'. init_tid () 0 3 runtime_init = Inr (r, rt') \<and> runtime_ok rt'"
proof -
  have "fresh_index 0 (runtime_init :: unit runtime)" by (simp add: fresh_index_def runtime_init_def)
  from init_tid_gives_own_id [OF runtime_ok_init this, where t = 3 and q = "()"] show ?thesis by blast
qed

end
