(* ===== verification/Registration.thy ===== *)
theory Registration
  imports Thread_State
begin

text \<open>
  The registration of threads, interleaved: any number of threads run \<open>init_thread\<close> at the same time,
  one access to a shared variable at a time. The shared variables are \<open>SHORT_THREAD_IDS_EXHAUSTED\<close> and
  the table \<open>THREADS\<close>, a \<open>boxcar::Vec\<close>: its \<open>push_with\<close> reserves an index, runs the closure with it
  and then publishes what the closure returned. All that is used of \<open>boxcar\<close> is that no index is given
  twice; which one a call gets is part of the action. Threads also end, and their ids are not given
  again: this is what makes it safe to keep an id in a header for longer than its thread lives.
\<close>

section \<open>States\<close>

text \<open>
  Where a thread is inside \<open>init_thread\<close>: what it accesses next. The flag of \<open>Publish\<close> and \<open>Read_back\<close>
  says whether the closure has set \<open>queued_objects\<close>.
\<close>

datatype 'q init_pc =
    Outside
  | Load_exhausted
  | Reserve_slot
  | Store_exhausted "64 word"
  | Publish "64 word" "ThreadIdOverflowError + 'q SharedThreadInfo" bool
  | Read_back "64 word" bool

text \<open>\<open>slots_taken\<close> says which indices \<open>push_with\<close> has given, and to whom.\<close>

record 'q registry = "'q runtime" +
  slots_taken :: "nat \<Rightarrow> thread option"
  init_at :: "thread \<Rightarrow> 'q init_pc"

definition registry_init :: "'q registry" where
  "registry_init = runtime.extend runtime_init \<lparr>slots_taken = \<lambda>_. None, init_at = \<lambda>_. Outside\<rparr>"

definition goto_init :: "thread \<Rightarrow> 'q init_pc \<Rightarrow> 'q registry \<Rightarrow> 'q registry" where
  "goto_init t p s = s\<lparr>init_at := (init_at s)(t := p)\<rparr>"

text \<open>\<open>init_thread\<close> returns and the thread-local variable gets its value.\<close>

definition leave_init :: "thread \<Rightarrow> ThreadStateInitError + LocalThreadState \<Rightarrow> 'q registry \<Rightarrow> 'q registry" where
  "leave_init t v s = s\<lparr>tls := (tls s)(t := Tls_alive v), init_at := (init_at s)(t := Outside)\<rparr>"

section \<open>Steps\<close>

text \<open>One access of \<open>init_thread\<close>; \<open>i\<close> is the index that \<open>push_with\<close> gives when it comes to that.\<close>

definition init_access :: "'q \<Rightarrow> thread \<Rightarrow> 64 word \<Rightarrow> 'q registry \<Rightarrow> 'q registry checked option" where
  "init_access q t i s =
     (case init_at s t of
        Outside \<Rightarrow> None
      | Load_exhausted \<Rightarrow>
          Some (Inr (if ids_exhausted s then leave_init t (Inl (InitIdOverflow ThreadIdOverflowError)) s
                     else goto_init t Reserve_slot s))
      | Reserve_slot \<Rightarrow>
          if slots_taken s (unat i) = None \<and> unat i < 2 ^ 64 - 1 then
            Some (bind_checked (new_thread_entry q i) (\<lambda>entry. Inr
              (goto_init t (case entry of Inl _ \<Rightarrow> Store_exhausted i | Inr _ \<Rightarrow> Publish i entry True)
                (s\<lparr>slots_taken := (slots_taken s)(unat i \<mapsto> t)\<rparr>))))
          else None
      | Store_exhausted i \<Rightarrow>
          Some (Inr (goto_init t (Publish i (Inl ThreadIdOverflowError) False) (s\<lparr>ids_exhausted := True\<rparr>)))
      | Publish i entry made \<Rightarrow>
          Some (Inr (goto_init t (Read_back i made) (s\<lparr>threads := (threads s)(unat i \<mapsto> entry)\<rparr>)))
      | Read_back i made \<Rightarrow>
          Some (case threads s (unat i) of
                  None \<Rightarrow> Inl Assertion_failed
                | Some (Inl e) \<Rightarrow> Inr (leave_init t (Inl (InitIdOverflow e)) s)
                | Some (Inr info) \<Rightarrow>
                    if fast s t = fast_init \<and> made then Inr
                      (leave_init t (Inr \<lparr>shared_info = unat i, local_short_id = info_short_id info\<rparr>)
                        (s\<lparr>fast := (fast s)(t := \<lparr>status = Active, fast_short_id = Some (info_short_id info),
                           shared_state_flag = Some (unat i)\<rparr>)\<rparr>))
                    else Inl Assertion_failed))"

text \<open>
  A thread starts \<open>init_thread\<close> when its thread-local variable is used for the first time. When the
  thread ends, the variable is destroyed, with the assertions of \<open>Drop for LocalThreadState\<close>; nothing is
  queued here, so that the queue goes without any processing (\<open>Queue_Protocol\<close> has all of its accesses).
\<close>

definition enter_init :: "thread \<Rightarrow> 'q registry \<Rightarrow> 'q registry checked" where
  "enter_init t s =
     (case status (fast s t) of
        DeadOrDying \<Rightarrow> Inr (leave_init t (Inl AlreadyDied) s)
      | Active \<Rightarrow> Inl Assertion_failed
      | Uninit \<Rightarrow> Inr (goto_init t Load_exhausted s))"

definition end_thread :: "thread \<Rightarrow> 'q registry \<Rightarrow> 'q registry checked" where
  "end_thread t s =
     (case tls s t of
        Tls_alive (Inr st) \<Rightarrow>
          if status (fast s t) = Active \<and> fast_short_id (fast s t) = Some (local_short_id st) then
            (case threads s (shared_info st) of
               Some (Inr info) \<Rightarrow>
                 if is_live (state_flag info) then Inr (s\<lparr>tls := (tls s)(t := Tls_destroyed),
                   fast := (fast s)(t := \<lparr>status = DeadOrDying, fast_short_id = None, shared_state_flag = None\<rparr>),
                   threads := (threads s)(shared_info st \<mapsto>
                     Inr (info\<lparr>state_flag := Dead, queue_strong := queue_strong info - 1\<rparr>))\<rparr>)
                 else Inl Assertion_failed
             | _ \<Rightarrow> Inl Assertion_failed)
          else Inl Assertion_failed
      | _ \<Rightarrow> Inr (s\<lparr>tls := (tls s)(t := Tls_destroyed)\<rparr>))"

datatype reg_action = Enter thread | Proceed thread "64 word" | End_thread thread

fun reg_act :: "'q \<Rightarrow> reg_action \<Rightarrow> 'q registry \<Rightarrow> 'q registry checked option" where
  "reg_act q (Enter t) s =
     (if init_at s t = Outside \<and> tls s t = Tls_uninit then Some (enter_init t s) else None)"
| "reg_act q (Proceed t i) s = init_access q t i s"
| "reg_act q (End_thread t) s =
     (if init_at s t = Outside \<and> tls s t \<noteq> Tls_destroyed then Some (end_thread t s) else None)"

inductive reg_reachable :: "'q \<Rightarrow> 'q registry \<Rightarrow> bool" for q where
  reg_begin: "reg_reachable q registry_init"
| reg_step: "reg_reachable q s \<Longrightarrow> reg_act q a s = Some (Inr s') \<Longrightarrow> reg_reachable q s'"

fun reg_run :: "'q \<Rightarrow> reg_action list \<Rightarrow> 'q registry \<Rightarrow> 'q registry option" where
  "reg_run q [] s = Some s"
| "reg_run q (a # as) s = (case reg_act q a s of Some (Inr s') \<Rightarrow> reg_run q as s' | _ \<Rightarrow> None)"

section \<open>Invariant\<close>

text \<open>What a thread inside \<open>init_thread\<close> has got, and what it has not done yet.\<close>

definition slot_of :: "'q \<Rightarrow> 'q registry \<Rightarrow> thread \<Rightarrow> 64 word \<Rightarrow> ThreadIdOverflowError + 'q SharedThreadInfo \<Rightarrow> bool" where
  "slot_of q s t i entry \<longleftrightarrow>
     slots_taken s (unat i) = Some t \<and> unat i < 2 ^ 64 - 1 \<and> new_thread_entry q i = Inr entry"

fun made_of :: "ThreadIdOverflowError + 'q SharedThreadInfo \<Rightarrow> bool" where
  "made_of (Inl _) = False"
| "made_of (Inr _) = True"

definition init_pc_ok :: "'q \<Rightarrow> 'q registry \<Rightarrow> thread \<Rightarrow> bool" where
  "init_pc_ok q s t \<longleftrightarrow>
     (case init_at s t of
        Outside \<Rightarrow> True
      | Load_exhausted \<Rightarrow> tls s t = Tls_uninit
      | Reserve_slot \<Rightarrow> tls s t = Tls_uninit
      | Store_exhausted i \<Rightarrow> tls s t = Tls_uninit \<and> slot_of q s t i (Inl ThreadIdOverflowError)
          \<and> threads s (unat i) = None
      | Publish i entry made \<Rightarrow> tls s t = Tls_uninit \<and> slot_of q s t i entry \<and> made = made_of entry
          \<and> threads s (unat i) = None \<and> (\<not> made \<longrightarrow> ids_exhausted s)
      | Read_back i made \<Rightarrow> tls s t = Tls_uninit \<and> (\<exists>entry. slot_of q s t i entry \<and> made = made_of entry
          \<and> threads s (unat i) = Some entry))"

definition slots_ok :: "'q registry \<Rightarrow> bool" where
  "slots_ok s \<longleftrightarrow> (\<forall>i. threads s i \<noteq> None \<longrightarrow> slots_taken s i \<noteq> None)
     \<and> (\<forall>t st. tls s t = Tls_alive (Inr st) \<longrightarrow> slots_taken s (shared_info st) = Some t)
     \<and> (\<forall>i e. threads s i = Some (Inl e) \<longrightarrow> ids_exhausted s)"

definition registry_ok :: "'q \<Rightarrow> 'q registry \<Rightarrow> bool" where
  "registry_ok q s \<longleftrightarrow> runtime_ok s \<and> slots_ok s \<and> (\<forall>t. init_pc_ok q s t)"

lemma registry_okD:
  assumes "registry_ok q s"
  shows "runtime_ok s" "slots_ok s" "init_pc_ok q s t"
  using assms by (simp_all add: registry_ok_def)

lemma slots_okD:
  assumes "slots_ok s"
  shows "threads s i \<noteq> None \<Longrightarrow> slots_taken s i \<noteq> None"
    "tls s t = Tls_alive (Inr st) \<Longrightarrow> slots_taken s (shared_info st) = Some t"
    "threads s i = Some (Inl e) \<Longrightarrow> ids_exhausted s"
  using assms by (auto simp: slots_ok_def)

lemma registry_fields [simp]:
  "threads (goto_init t p s) = threads s" "tls (goto_init t p s) = tls s" "fast (goto_init t p s) = fast s"
  "ids_exhausted (goto_init t p s) = ids_exhausted s" "slots_taken (goto_init t p s) = slots_taken s"
  "init_at (goto_init t p s) = (init_at s)(t := p)"
  "threads (leave_init t v s) = threads s" "tls (leave_init t v s) = (tls s)(t := Tls_alive v)"
  "fast (leave_init t v s) = fast s" "ids_exhausted (leave_init t v s) = ids_exhausted s"
  "slots_taken (leave_init t v s) = slots_taken s" "init_at (leave_init t v s) = (init_at s)(t := Outside)"
  by (simp_all add: goto_init_def leave_init_def)

text \<open>The runtime part of the invariant looks at the runtime part of the state only.\<close>

lemma runtime_ok_same:
  assumes "threads s' = threads s" "tls s' = tls s" "fast s' = fast s"
  shows "runtime_ok s' = runtime_ok s"
proof -
  have "alive_entry st s' = alive_entry st s" for st using assms by (simp add: alive_entry_def)
  then show ?thesis
    using assms by (simp add: runtime_ok_def thread_ok_def table_ok_def entries_distinct_def
        cong: tls_slot.case_cong sum.case_cong)
qed

text \<open>A step of one thread does not disturb another inside \<open>init_thread\<close>.\<close>

lemma init_pc_frame:
  assumes ok: "init_pc_ok q s u" and same: "init_at s' u = init_at s u" "tls s' u = tls s u"
    and ex: "ids_exhausted s \<Longrightarrow> ids_exhausted s'"
    and slot: "\<And>i. slots_taken s i = Some u \<Longrightarrow> slots_taken s' i = Some u \<and> threads s' i = threads s i"
  shows "init_pc_ok q s' u"
proof (cases "init_at s u")
  case (Store_exhausted i)
  then show ?thesis using ok same slot [of "unat i"] by (simp add: init_pc_ok_def slot_of_def)
next
  case (Publish i entry made)
  then show ?thesis using ok same ex slot [of "unat i"] by (auto simp: init_pc_ok_def slot_of_def)
next
  case (Read_back i made)
  then show ?thesis using ok same slot [of "unat i"] by (auto simp: init_pc_ok_def slot_of_def)
qed (use ok same in \<open>simp_all add: init_pc_ok_def\<close>)

lemma registry_okI:
  assumes ok: "registry_ok q s" and "runtime_ok s'" "slots_ok s'" "init_pc_ok q s' t"
    and same: "\<And>u. u \<noteq> t \<Longrightarrow> init_at s' u = init_at s u \<and> tls s' u = tls s u"
    and ex: "ids_exhausted s \<Longrightarrow> ids_exhausted s'"
    and slot: "\<And>u i. u \<noteq> t \<Longrightarrow> slots_taken s i = Some u \<Longrightarrow> slots_taken s' i = Some u \<and> threads s' i = threads s i"
  shows "registry_ok q s'"
proof -
  have "init_pc_ok q s' u" for u
  proof (cases "u = t")
    case False
    show ?thesis
      by (rule init_pc_frame [OF registry_okD(3) [OF ok]]) (use same [OF False] ex slot [OF False] in auto)
  qed (use assms(4) in simp)
  then show ?thesis using assms(2,3) by (simp add: registry_ok_def)
qed

section \<open>Every step keeps it\<close>

lemma new_entry_facts:
  assumes "slot_of q s t i (Inr info)"
  shows "unat i < 4095" "short_id_ok (info_short_id info)" "short_id_nat (info_short_id info) = unat i + 1"
    "state_flag info = Live" "queue_strong info = 1" "queue_short_id info = info_short_id info"
proof -
  have lt: "unat i < 2 ^ 64 - 1" and new: "new_thread_entry q i = Inr (Inr info)"
    using assms by (simp_all add: slot_of_def)
  have "unat i < 4095 \<and> short_id_ok (info_short_id info) \<and> short_id_nat (info_short_id info) = unat i + 1
    \<and> state_flag info = Live \<and> queue_strong info = 1 \<and> queue_short_id info = info_short_id info"
    by (rule new_thread_entry_cases [OF lt, of q]) (use new in auto)
  then show "unat i < 4095" "short_id_ok (info_short_id info)" "short_id_nat (info_short_id info) = unat i + 1"
    "state_flag info = Live" "queue_strong info = 1" "queue_short_id info = info_short_id info" by simp_all
qed

lemma reserve_keeps:
  assumes ok: "registry_ok q s" and at: "init_at s t = Reserve_slot"
    and free: "slots_taken s (unat i) = None" "unat i < 2 ^ 64 - 1"
  obtains s' where "init_access q t i s = Some (Inr s')" "registry_ok q s'"
proof -
  note D = registry_okD [OF ok] and S = slots_okD [OF registry_okD(2) [OF ok]]
  have un: "tls s t = Tls_uninit" using D(3) [of t] at by (simp add: init_pc_ok_def)
  have none: "threads s (unat i) = None" using S(1) [of "unat i"] free(1) by blast
  let ?s = "s\<lparr>slots_taken := (slots_taken s)(unat i \<mapsto> t)\<rparr>"
  have rt: "runtime_ok ?s" using D(1) runtime_ok_same [of ?s s] by simp
  have "shared_info st \<noteq> unat i" if "tls s u = Tls_alive (Inr st)" for u st using S(2) [OF that] free(1) by auto
  then have sl: "slots_ok ?s" using S by (auto simp: slots_ok_def)
  have keep: "registry_ok q (goto_init t p ?s)" if p: "init_pc_ok q (goto_init t p ?s) t" for p
  proof (rule registry_okI [OF ok _ _ p])
    show "runtime_ok (goto_init t p ?s)" using rt runtime_ok_same [of "goto_init t p ?s" ?s] by simp
    show "slots_ok (goto_init t p ?s)" using sl by (simp add: slots_ok_def)
  qed (use free(1) in auto)
  from free(2) show thesis
  proof (cases rule: new_thread_entry_cases [where q = q])
    case 1
    have "init_pc_ok q (goto_init t (Store_exhausted i) ?s) t"
      using un none 1(1) free(2) by (simp add: init_pc_ok_def slot_of_def)
    then show thesis using that keep 1(1) at free by (simp add: init_access_def)
  next
    case (2 info)
    have "init_pc_ok q (goto_init t (Publish i (Inr info) True) ?s) t"
      using un none 2(1) free(2) by (simp add: init_pc_ok_def slot_of_def)
    then show thesis using that keep 2(1) at free by (simp add: init_access_def)
  qed
qed

lemma runtime_ok_publish:
  assumes ok: "runtime_ok s" and none: "threads s (unat i) = None" and slot: "slot_of q s t i entry"
  shows "runtime_ok (s\<lparr>threads := (threads s)(unat i \<mapsto> entry)\<rparr>)"
proof (cases entry)
  case (Inl e)
  then show ?thesis using runtime_ok_add_error [OF ok none, where e = e and b = "ids_exhausted s"] by simp
next
  case (Inr info)
  let ?s = "s\<lparr>threads := (threads s)(unat i \<mapsto> entry)\<rparr>"
  have "thread_ok ?s u" for u
    using thread_ok_add_entry [OF runtime_okD(1) [OF ok] none, where entry = entry and b = "ids_exhausted s"] by simp
  moreover have "table_ok ?s"
    using runtime_okD(2) [OF ok] new_entry_facts [of q s t i info] slot Inr by (auto simp: table_ok_def)
  moreover have "entries_distinct ?s" using runtime_okD(3) [OF ok] by (simp add: entries_distinct_def)
  ultimately show ?thesis by (simp add: runtime_ok_def)
qed

lemma publish_keeps:
  assumes ok: "registry_ok q s" and at: "init_at s t = Publish i entry made"
  shows "registry_ok q (goto_init t (Read_back i made) (s\<lparr>threads := (threads s)(unat i \<mapsto> entry)\<rparr>))"
proof -
  note D = registry_okD [OF ok] and S = slots_okD [OF registry_okD(2) [OF ok]]
  have pc: "tls s t = Tls_uninit" "slot_of q s t i entry" "made = made_of entry" "threads s (unat i) = None"
    "\<not> made \<longrightarrow> ids_exhausted s"
    using D(3) [of t] at by (simp_all add: init_pc_ok_def)
  let ?s = "s\<lparr>threads := (threads s)(unat i \<mapsto> entry)\<rparr>"
  let ?s' = "goto_init t (Read_back i made) ?s"
  show ?thesis
  proof (rule registry_okI [OF ok, of _ t])
    show "runtime_ok ?s'" using runtime_ok_publish [OF D(1) pc(4,2)] runtime_ok_same [of ?s' ?s] by simp
    show "slots_ok ?s'"
      using S pc(2,3,5) by (cases entry) (auto simp: slots_ok_def slot_of_def split: if_splits)
    show "init_pc_ok q ?s' t" using pc by (auto simp: init_pc_ok_def slot_of_def)
  qed (use pc(2) in \<open>auto simp: slot_of_def\<close>)
qed

lemma read_back_keeps:
  assumes ok: "registry_ok q s" and at: "init_at s t = Read_back i made"
  obtains s' where "init_access q t j s = Some (Inr s')" "registry_ok q s'"
proof -
  note D = registry_okD [OF ok] and S = slots_okD [OF registry_okD(2) [OF ok]]
  obtain entry where pc: "tls s t = Tls_uninit" "slot_of q s t i entry" "made = made_of entry"
    "threads s (unat i) = Some entry"
    using D(3) [of t] at by (auto simp: init_pc_ok_def)
  have f: "fast s t = fast_init" using runtime_okD(1) [OF D(1), of t] pc(1) by (simp add: thread_ok_def)
  show thesis
  proof (cases entry)
    case (Inl e)
    let ?s = "leave_init t (Inl (InitIdOverflow e)) s"
    have "runtime_ok ?s"
      using runtime_ok_init_error [OF D(1) pc(1), of "InitIdOverflow e"] runtime_ok_same [of ?s "s\<lparr>tls := tls ?s\<rparr>"] by simp
    moreover have "slots_ok ?s" using S by (auto simp: slots_ok_def)
    moreover have "init_pc_ok q ?s t" by (simp add: init_pc_ok_def)
    ultimately have "registry_ok q ?s" by (rule registry_okI [OF ok]) auto
    then show thesis using that at pc(4) Inl by (simp add: init_access_def)
  next
    case (Inr info)
    note N = new_entry_facts [OF pc(2) [unfolded Inr]]
    let ?st = "\<lparr>shared_info = unat i, local_short_id = info_short_id info\<rparr>"
    let ?s = "leave_init t (Inr ?st) (s\<lparr>fast := (fast s)(t := \<lparr>status = Active,
      fast_short_id = Some (info_short_id info), shared_state_flag = Some (unat i)\<rparr>)\<rparr>)"
    have other: "shared_info st \<noteq> unat i" if "tls s u = Tls_alive (Inr st)" for u st
      using S(2) [OF that] pc(1,2) that by (auto simp: slot_of_def)
    then have other': "tls s u = Tls_alive (Inr st) \<Longrightarrow> unat i \<noteq> shared_info st" for u st by metis
    have al: "alive_entry st ?s = alive_entry st s" for st by (simp add: alive_entry_def)
    have "alive_entry ?st s" using N(4,5) pc(4) Inr by (simp add: alive_entry_def)
    then have "thread_ok ?s u" for u
      using runtime_okD(1) [OF D(1), of u] al
      by (cases "u = t") (auto simp: thread_ok_def split: tls_slot.splits sum.splits)
    moreover have "table_ok ?s" using runtime_okD(2) [OF D(1)] by (simp add: table_ok_def)
    moreover have "entries_distinct ?s"
      using runtime_okD(3) [OF D(1)] other other' unfolding entries_distinct_def by simp
    ultimately have "runtime_ok ?s" by (simp add: runtime_ok_def)
    moreover have "slots_ok ?s" using S pc(2) by (auto simp: slots_ok_def slot_of_def)
    moreover have "init_pc_ok q ?s t" by (simp add: init_pc_ok_def)
    ultimately have "registry_ok q ?s" by (rule registry_okI [OF ok]) auto
    then show thesis using that at pc(3,4) Inr f by (simp add: init_access_def)
  qed
qed

lemma store_keeps:
  assumes ok: "registry_ok q s" and at: "init_at s t = Store_exhausted i"
  shows "registry_ok q (goto_init t (Publish i (Inl ThreadIdOverflowError) False) (s\<lparr>ids_exhausted := True\<rparr>))"
    (is "registry_ok q ?s")
proof (rule registry_okI [OF ok, of _ t])
  note D = registry_okD [OF ok] and S = slots_okD [OF registry_okD(2) [OF ok]]
  show "runtime_ok ?s" using D(1) runtime_ok_same [of ?s s] by simp
  show "slots_ok ?s" using S by (auto simp: slots_ok_def)
  show "init_pc_ok q ?s t" using D(3) [of t] at by (simp add: init_pc_ok_def slot_of_def)
qed auto

lemma load_keeps:
  assumes ok: "registry_ok q s" and at: "init_at s t = Load_exhausted"
  shows "registry_ok q (if ids_exhausted s then leave_init t (Inl (InitIdOverflow ThreadIdOverflowError)) s
    else goto_init t Reserve_slot s)" (is "registry_ok q (if _ then ?s else ?s')")
proof -
  note D = registry_okD [OF ok] and S = slots_okD [OF registry_okD(2) [OF ok]]
  have un: "tls s t = Tls_uninit" using D(3) [of t] at by (simp add: init_pc_ok_def)
  have "runtime_ok ?s"
    using runtime_ok_init_error [OF D(1) un] runtime_ok_same [of ?s "s\<lparr>tls := tls ?s\<rparr>"] by simp
  moreover have "slots_ok ?s" using S by (auto simp: slots_ok_def)
  moreover have "init_pc_ok q ?s t" by (simp add: init_pc_ok_def)
  ultimately have one: "registry_ok q ?s" by (rule registry_okI [OF ok]) auto
  have "runtime_ok ?s'" using D(1) runtime_ok_same [of ?s' s] by simp
  moreover have "slots_ok ?s'" using S by (auto simp: slots_ok_def)
  moreover have "init_pc_ok q ?s' t" using un by (simp add: init_pc_ok_def)
  ultimately have "registry_ok q ?s'" by (rule registry_okI [OF ok]) auto
  then show ?thesis using one by simp
qed

lemma init_access_keeps:
  assumes ok: "registry_ok q s" and act: "init_access q t i s = Some r"
  obtains s' where "r = Inr s'" "registry_ok q s'"
proof (cases "init_at s t")
  case Outside
  then show thesis using act by (simp add: init_access_def)
next
  case Load_exhausted
  then have "r = Inr (if ids_exhausted s then leave_init t (Inl (InitIdOverflow ThreadIdOverflowError)) s
      else goto_init t Reserve_slot s)"
    using act by (simp add: init_access_def)
  then show thesis using that load_keeps [OF ok Load_exhausted] by blast
next
  case Reserve_slot
  then have free: "slots_taken s (unat i) = None" "unat i < 2 ^ 64 - 1"
    using act by (simp_all add: init_access_def split: if_splits)
  show thesis by (rule reserve_keeps [OF ok Reserve_slot free]) (use that act in simp)
next
  case (Store_exhausted j)
  show thesis
    by (rule that [OF _ store_keeps [OF ok Store_exhausted]]) (use act Store_exhausted in \<open>simp add: init_access_def\<close>)
next
  case (Publish j entry made)
  show thesis
    by (rule that [OF _ publish_keeps [OF ok Publish]]) (use act Publish in \<open>simp add: init_access_def\<close>)
next
  case (Read_back j made)
  show thesis by (rule read_back_keeps [OF ok Read_back, of i]) (use that act in simp)
qed

lemma enter_keeps:
  assumes ok: "registry_ok q s" and un: "init_at s t = Outside" "tls s t = Tls_uninit"
  obtains s' where "enter_init t s = Inr s'" "registry_ok q s'"
proof -
  note D = registry_okD [OF ok] and S = slots_okD [OF registry_okD(2) [OF ok]]
  let ?s = "goto_init t Load_exhausted s"
  have "status (fast s t) = Uninit"
    using runtime_okD(1) [OF D(1), of t] un by (simp add: thread_ok_def fast_init_def)
  then have e: "enter_init t s = Inr ?s" by (simp add: enter_init_def)
  have "runtime_ok ?s" using D(1) runtime_ok_same [of ?s s] by simp
  moreover have "slots_ok ?s" using S by (auto simp: slots_ok_def)
  moreover have "init_pc_ok q ?s t" using un by (simp add: init_pc_ok_def)
  ultimately have "registry_ok q ?s" by (rule registry_okI [OF ok]) auto
  then show thesis using that e by blast
qed

lemma end_keeps:
  assumes ok: "registry_ok q s" and out: "init_at s t = Outside"
  obtains s' where "end_thread t s = Inr s'" "registry_ok q s'"
proof (cases "\<exists>st. tls s t = Tls_alive (Inr st)")
  case True
  then obtain st where st: "tls s t = Tls_alive (Inr st)" ..
  note D = registry_okD [OF ok] and S = slots_okD [OF registry_okD(2) [OF ok]]
  note T = thread_ok_alive [OF runtime_okD(1) [OF D(1)] st]
  obtain info where e: "threads s (shared_info st) = Some (Inr info)" "is_live (state_flag info)"
    using T by (auto simp: alive_entry_def)
  let ?s = "s\<lparr>tls := (tls s)(t := Tls_destroyed),
    fast := (fast s)(t := \<lparr>status = DeadOrDying, fast_short_id = None, shared_state_flag = None\<rparr>),
    threads := (threads s)(shared_info st \<mapsto> Inr (info\<lparr>state_flag := Dead, queue_strong := queue_strong info - 1\<rparr>))\<rparr>"
  have "alive_entry st' ?s" if "tls s u = Tls_alive (Inr st')" "u \<noteq> t" "alive_entry st' s" for u st'
    using that runtime_okD(3) [OF D(1)] st by (auto simp: alive_entry_def entries_distinct_def)
  then have "thread_ok ?s u" for u
    using runtime_okD(1) [OF D(1), of u]
    by (cases "u = t") (auto simp: thread_ok_def split: tls_slot.splits sum.splits)
  moreover have "table_ok ?s" using runtime_okD(2) [OF D(1)] e by (auto simp: table_ok_def)
  moreover have "entries_distinct ?s" using runtime_okD(3) [OF D(1)] by (auto simp: entries_distinct_def)
  ultimately have "runtime_ok ?s" by (simp add: runtime_ok_def)
  moreover have "slots_ok ?s" using S S(2) [OF st] by (auto simp: slots_ok_def)
  moreover have "init_pc_ok q ?s t" using out by (simp add: init_pc_ok_def)
  ultimately have "registry_ok q ?s" by (rule registry_okI [OF ok]) (use S(2) [OF st] in auto)
  then show thesis using that st e T by (simp add: end_thread_def)
next
  case False
  note D = registry_okD [OF ok] and S = slots_okD [OF registry_okD(2) [OF ok]]
  let ?s = "s\<lparr>tls := (tls s)(t := Tls_destroyed)\<rparr>"
  have "thread_ok ?s u" for u
    using runtime_okD(1) [OF D(1), of u] False
    by (cases "u = t") (auto simp: thread_ok_def fast_init_def split: tls_slot.splits sum.splits)
  then have "runtime_ok ?s"
    using D(1) by (auto simp: runtime_ok_def table_ok_def entries_distinct_def)
  moreover have "slots_ok ?s" using S by (auto simp: slots_ok_def)
  moreover have "init_pc_ok q ?s t" using out by (simp add: init_pc_ok_def)
  ultimately have "registry_ok q ?s" by (rule registry_okI [OF ok]) auto
  moreover have "end_thread t s = Inr ?s"
    using False by (auto simp: end_thread_def split: tls_slot.splits sum.splits)
  ultimately show thesis using that by blast
qed

lemma reg_act_keeps:
  assumes "registry_ok q s" "reg_act q a s = Some r"
  obtains s' where "r = Inr s'" "registry_ok q s'"
proof (cases a)
  case (Enter t)
  then have "init_at s t = Outside" "tls s t = Tls_uninit" "r = enter_init t s" using assms(2) by (simp_all split: if_splits)
  then show thesis using that enter_keeps [OF assms(1)] by metis
next
  case (Proceed t i)
  then show thesis using that init_access_keeps [OF assms(1), of t i r] assms(2) by auto
next
  case (End_thread t)
  then have "init_at s t = Outside" "r = end_thread t s" using assms(2) by (simp_all split: if_splits)
  then show thesis using that end_keeps [OF assms(1)] by metis
qed

lemma registry_init_ok: "registry_ok q registry_init"
proof -
  have "runtime_ok registry_init"
    by (simp add: registry_init_def runtime_init_def runtime.extend_def runtime_ok_def thread_ok_def table_ok_def
        entries_distinct_def)
  then show ?thesis
    by (simp add: registry_ok_def registry_init_def runtime_init_def runtime.extend_def slots_ok_def init_pc_ok_def)
qed

lemma reg_reachable_ok: "reg_reachable q s \<Longrightarrow> registry_ok q s"
proof (induction rule: reg_reachable.induct)
  case reg_begin
  then show ?case by (rule registry_init_ok)
next
  case (reg_step s a s')
  show ?case by (rule reg_act_keeps [OF reg_step.IH reg_step.hyps(2)]) simp
qed

section \<open>Slots are kept for ever\<close>

lemma access_keeps_slots:
  "init_access q t i s = Some (Inr s') \<Longrightarrow> slots_taken s j = Some u \<Longrightarrow> slots_taken s' j = Some u"
  by (cases "init_at s t"; cases "new_thread_entry q i")
    (auto simp: init_access_def split: if_splits option.splits sum.splits)

lemma act_keeps_slots:
  assumes "reg_act q a s = Some (Inr s')" "slots_taken s j = Some u"
  shows "slots_taken s' j = Some u"
proof (cases a)
  case (Enter t)
  then show ?thesis using assms by (auto simp: enter_init_def split: if_splits LocalThreadStatus.splits)
next
  case (Proceed t i)
  then show ?thesis using assms access_keeps_slots by auto
next
  case (End_thread t)
  then show ?thesis
    using assms by (auto simp: end_thread_def split: if_splits tls_slot.splits sum.splits option.splits)
qed

lemma run_keeps_slots:
  "reg_run q as s = Some s' \<Longrightarrow> slots_taken s j = Some u \<Longrightarrow> slots_taken s' j = Some u"
proof (induction as arbitrary: s)
  case (Cons a as)
  obtain s1 where "reg_act q a s = Some (Inr s1)" "reg_run q as s1 = Some s'"
    using Cons.prems(1) by (auto split: option.splits sum.splits)
  then show ?case using Cons.IH [OF _ act_keeps_slots [OF _ Cons.prems(2)]] by simp
qed simp

lemma run_reg_reachable: "reg_reachable q s \<Longrightarrow> reg_run q as s = Some s' \<Longrightarrow> reg_reachable q s'"
proof (induction as arbitrary: s)
  case (Cons a as)
  then show ?case by (auto split: option.splits sum.splits intro: reg_step)
qed simp

lemma id_has_slot:
  assumes ok: "registry_ok q s" and id: "existing_short_id t s = Inr (Inr k)"
  shows "short_id_ok k" "slots_taken s (short_id_nat k - 1) = Some t"
proof -
  note D = registry_okD [OF ok]
  obtain st where st: "tls s t = Tls_alive (Inr st)" "local_short_id st = k"
    using id existing_short_id_Inr [OF runtime_okD(1) [OF D(1)]] by blast
  have "alive_entry st s" using thread_ok_alive [OF runtime_okD(1) [OF D(1)] st(1)] by blast
  from alive_entry_index [OF runtime_okD(2) [OF D(1)] this]
  show "short_id_ok k" "slots_taken s (short_id_nat k - 1) = Some t"
    using slots_okD(2) [OF D(2) st(1)] st(2) by simp_all
qed

section \<open>Properties\<close>

text \<open>
  C32. However the threads interleave, registering never stops the process: the assertion on the fast
  thread-local variable holds, the entry that \<open>push_with\<close> has published is there, and a thread that
  finds an entry has set up its queue.
\<close>

theorem registration_never_fails:
  assumes "reg_reachable q s" "reg_act q a s = Some r"
  shows "\<exists>s'. r = Inr s'"
  by (rule reg_act_keeps [OF reg_reachable_ok [OF assms(1)] assms(2)]) blast

text \<open>
  C31. A short id is given once: when a thread has an id in some state, no other thread has it, in that
  state or in any later one, even after the first thread has ended.
\<close>

theorem ids_given_once:
  assumes "reg_reachable q s" "reg_run q as s = Some s'"
    and "existing_short_id t s = Inr (Inr k)" "t' \<noteq> t"
  shows "existing_short_id t' s' \<noteq> Inr (Inr k)"
proof
  assume id: "existing_short_id t' s' = Inr (Inr k)"
  have "slots_taken s (short_id_nat k - 1) = Some t"
    by (rule id_has_slot [OF reg_reachable_ok [OF assms(1)] assms(3)])
  then have "slots_taken s' (short_id_nat k - 1) = Some t" by (rule run_keeps_slots [OF assms(2)])
  moreover have "slots_taken s' (short_id_nat k - 1) = Some t'"
    by (rule id_has_slot [OF reg_reachable_ok [OF run_reg_reachable [OF assms(1,2)]] id])
  ultimately show False using assms(4) by simp
qed

text \<open>
  Without interference the accesses of \<open>init_thread\<close> compute what the sequential \<open>init_thread\<close> of
  \<open>Thread_State\<close> computes, so that the two models of the function agree.
\<close>

lemma registration_is_init_thread:
  assumes "reg_reachable q s" "init_at s t = Outside" "tls s t = Tls_uninit"
    and "slots_taken s (unat i) = None" "unat i < 2 ^ 64 - 1"
  shows "\<exists>n s' v rt. n \<le> 5 \<and> reg_run q (Enter t # replicate n (Proceed t i)) s = Some s'
    \<and> init_thread q i t s = Inr (v, rt) \<and> init_at s' t = Outside
    \<and> threads s' = threads rt \<and> ids_exhausted s' = ids_exhausted rt \<and> fast s' = fast rt
    \<and> tls s' = (tls rt)(t := Tls_alive v)"
proof -
  note D = registry_okD [OF reg_reachable_ok [OF assms(1)]]
  have f: "fast s t = fast_init" using runtime_okD(1) [OF D(1), of t] assms(3) by (simp add: thread_ok_def)
  have u: "status fast_init = Uninit" by (simp add: fast_init_def)
  have rep: "replicate 4 x = [x, x, x, x]" "replicate 5 x = [x, x, x, x, x]" for x :: reg_action
    by (simp_all add: eval_nat_numeral)
  note run = init_access_def enter_init_def init_thread_def u f rep
  show ?thesis
  proof (cases "ids_exhausted s")
    case True
    then show ?thesis
      using assms(2,3) by (intro exI [of _ 1]) (simp add: run)
  next
    case False
    from assms(5) show ?thesis
    proof (cases rule: new_thread_entry_cases [where q = q])
      case 1
      then show ?thesis
        using assms(2-5) False by (intro exI [of _ 5]) (simp add: run Let_def)
    next
      case (2 info)
      then show ?thesis
        using assms(2-5) False by (intro exI [of _ 4]) (simp add: run Let_def)
    qed
  qed
qed

text \<open>
  C33. A registration that no other thread disturbs ends within five accesses, with one of two outcomes.
  If the ids are exhausted, or \<open>push_with\<close> gives an index that is too large for a short id, the
  thread gets the overflow error, stays without an id, and the ids count as exhausted from then on; the
  table is not touched when they were exhausted before. Otherwise the table has a new live entry at the
  index, with an empty queue held by one \<open>Arc\<close> and the short id one above the index; the thread
  has this id, its two thread-local variables point to the entry, it has nothing to collect, and the ids do
  not count as exhausted. The other threads are not affected.
\<close>

theorem registration_gives_id:
  assumes "reg_reachable q s" "init_at s t = Outside" "tls s t = Tls_uninit"
    and "slots_taken s (unat i) = None" "unat i < 2 ^ 64 - 1"
  shows "\<exists>n s'. n \<le> 5 \<and> reg_run q (Enter t # replicate n (Proceed t i)) s = Some s' \<and> init_at s' t = Outside
    \<and> (if ids_exhausted s \<or> 4095 \<le> unat i
       then tls s' t = Tls_alive (Inl (InitIdOverflow ThreadIdOverflowError))
         \<and> existing_short_id t s' = Inr (Inl Uninitialized) \<and> ids_exhausted s'
         \<and> threads s' = (if ids_exhausted s then threads s else (threads s)(unat i \<mapsto> Inl ThreadIdOverflowError))
       else \<exists>info. threads s' = (threads s)(unat i \<mapsto> Inr info)
         \<and> state_flag info = Live \<and> queue_strong info = 1 \<and> queue_inner info = q
         \<and> short_id_ok (info_short_id info) \<and> short_id_nat (info_short_id info) = unat i + 1
         \<and> queue_short_id info = info_short_id info
         \<and> tls s' t = Tls_alive (Inr \<lparr>shared_info = unat i, local_short_id = info_short_id info\<rparr>)
         \<and> existing_short_id t s' = Inr (Inr (info_short_id info))
         \<and> shared_state_flag (fast s' t) = Some (unat i) \<and> \<not> currently_needs_collect t s'
         \<and> \<not> ids_exhausted s')
    \<and> (\<forall>u. u \<noteq> t \<longrightarrow> tls s' u = tls s u \<and> fast s' u = fast s u \<and> init_at s' u = init_at s u)"
proof -
  note D = registry_okD [OF reg_reachable_ok [OF assms(1)]]
  have f: "fast s t = fast_init" using runtime_okD(1) [OF D(1), of t] assms(3) by (simp add: thread_ok_def)
  have u: "status fast_init = Uninit" "fast_short_id fast_init = None" by (simp_all add: fast_init_def)
  have rep: "replicate 4 x = [x, x, x, x]" "replicate 5 x = [x, x, x, x, x]" for x :: reg_action
    by (simp_all add: eval_nat_numeral)
  note run = init_access_def enter_init_def u f rep existing_short_id_def currently_needs_collect_def flag_at_def
  show ?thesis
  proof (cases "ids_exhausted s")
    case True
    then show ?thesis using assms(2,3) by (intro exI [of _ 1]) (simp add: run)
  next
    case False
    from assms(5) show ?thesis
    proof (cases rule: new_thread_entry_cases [where q = q])
      case 1
      then show ?thesis using assms(2-5) False by (intro exI [of _ 5]) (simp add: run)
    next
      case (2 info)
      then show ?thesis
        using assms(2-5) False by (intro exI [of _ 4]) (simp add: run, rule exI [of _ info], simp)
    qed
  qed
qed

section \<open>A concrete run\<close>

text \<open>
  Threads \<open>0\<close> and \<open>1\<close> register at the same time, and \<open>1\<close> gets the first index. Then \<open>1\<close> ends and
  thread \<open>2\<close> registers.
\<close>

definition two_register :: "reg_action list" where
  "two_register = [Enter 0, Enter 1, Proceed 0 0, Proceed 1 0, Proceed 1 0, Proceed 0 1, Proceed 0 1,
     Proceed 1 0, Proceed 1 0, Proceed 0 1]"

definition one_replaced :: "reg_action list" where
  "one_replaced = [End_thread 1, Enter 2, Proceed 2 2, Proceed 2 2, Proceed 2 2, Proceed 2 2]"

lemma demo_entries:
  "new_thread_entry q 0 = Inr (Inr \<lparr>info_id = UniqueThreadId 1, info_short_id = ShortThreadId 1, state_flag = Live,
     queue_strong = 1, queue_short_id = ShortThreadId 1, queue_inner = q\<rparr>)"
  "new_thread_entry q 1 = Inr (Inr \<lparr>info_id = UniqueThreadId 2, info_short_id = ShortThreadId 2, state_flag = Live,
     queue_strong = 1, queue_short_id = ShortThreadId 2, queue_inner = q\<rparr>)"
  "new_thread_entry q 2 = Inr (Inr \<lparr>info_id = UniqueThreadId 3, info_short_id = ShortThreadId 3, state_flag = Live,
     queue_strong = 1, queue_short_id = ShortThreadId 3, queue_inner = q\<rparr>)"
  by (simp_all add: new_thread_entry_def UniqueThreadId_from_index_def ShortThreadId_try_from_def
      UniqueThreadId_MIN_def ShortThreadId_MAX_def Let_def)

lemma registry_init_fields [simp]:
  "threads registry_init = (\<lambda>_. None)" "tls registry_init = (\<lambda>_. Tls_uninit)" "fast registry_init = (\<lambda>_. fast_init)"
  "ids_exhausted registry_init = False" "slots_taken registry_init = (\<lambda>_. None)" "init_at registry_init = (\<lambda>_. Outside)"
  by (simp_all add: registry_init_def runtime_init_def runtime.extend_def)

lemma demo_registration:
  obtains s s' where "reg_run () two_register registry_init = Some s" "reg_run () one_replaced s = Some s'"
    "existing_short_id 1 s = Inr (Inr (ShortThreadId 1))" "existing_short_id 2 s' = Inr (Inr (ShortThreadId 3))"
proof -
  have u: "status fast_init = Uninit" by (simp add: fast_init_def)
  define s where "s = the (reg_run () two_register registry_init)"
  have s: "reg_run () two_register registry_init = Some s" "existing_short_id 1 s = Inr (Inr (ShortThreadId 1))"
    "init_at s 1 = Outside" "init_at s 2 = Outside" "tls s 2 = Tls_uninit" "fast s 2 = fast_init"
    "\<not> ids_exhausted s" "slots_taken s 2 = None"
    "tls s 1 = Tls_alive (Inr \<lparr>shared_info = 0, local_short_id = ShortThreadId 1\<rparr>)"
    "\<exists>info. threads s 0 = Some (Inr info) \<and> is_live (state_flag info)"
    "status (fast s 1) = Active" "fast_short_id (fast s 1) = Some (ShortThreadId 1)"
    by (simp_all add: s_def two_register_def init_access_def enter_init_def u demo_entries existing_short_id_def)
  define s' where "s' = the (reg_run () one_replaced s)"
  have "reg_run () one_replaced s = Some s'" "existing_short_id 2 s' = Inr (Inr (ShortThreadId 3))"
    using s(3-)
    by (auto simp: s'_def one_replaced_def init_access_def enter_init_def end_thread_def u demo_entries
        existing_short_id_def)
  then show thesis using that s(1,2) by blast
qed

theorem ids_given_once_witness:
  "\<exists>s s'. reg_run () two_register registry_init = Some s \<and> reg_run () one_replaced s = Some s'
     \<and> existing_short_id 1 s = Inr (Inr (ShortThreadId 1)) \<and> existing_short_id 2 s' \<noteq> Inr (Inr (ShortThreadId 1))"
proof -
  obtain s s' where s: "reg_run () two_register registry_init = Some s" "reg_run () one_replaced s = Some s'"
    "existing_short_id 1 s = Inr (Inr (ShortThreadId 1))"
    by (rule demo_registration)
  have "existing_short_id 2 s' \<noteq> Inr (Inr (ShortThreadId 1))"
    by (rule ids_given_once [OF run_reg_reachable [OF reg_begin s(1)] s(2,3)]) simp
  then show ?thesis using s by blast
qed

theorem registration_never_fails_witness:
  "\<exists>s s'. reg_run () two_register registry_init = Some s \<and> reg_act () (End_thread 1) s = Some (Inr s')"
proof -
  obtain s s2 where s: "reg_run () two_register registry_init = Some s" "reg_run () one_replaced s = Some s2"
    by (rule demo_registration)
  obtain r where r: "reg_act () (End_thread 1) s = Some r"
    using s(2) by (auto simp: one_replaced_def split: option.splits)
  then show ?thesis
    using registration_never_fails [OF run_reg_reachable [OF reg_begin s(1)] r] s(1) by auto
qed

theorem registration_gives_id_witness:
  "\<exists>n s info. n \<le> 5 \<and> reg_run () (Enter 0 # replicate n (Proceed 0 7)) registry_init = Some s
     \<and> threads s 7 = Some (Inr info) \<and> short_id_nat (info_short_id info) = 8
     \<and> existing_short_id 0 s = Inr (Inr (info_short_id info))"
proof -
  have u: "unat (7 :: 64 word) = 7" by simp
  note R = registration_gives_id [OF reg_begin, of 0 7 "()", unfolded u registry_init_fields]
  from R obtain n s info where "n \<le> 5" "reg_run () (Enter 0 # replicate n (Proceed 0 7)) registry_init = Some s"
    "threads s = [7 \<mapsto> Inr info]" "short_id_nat (info_short_id info) = 8"
    "existing_short_id 0 s = Inr (Inr (info_short_id info))"
    by auto
  then show ?thesis by (intro exI [of _ n] exI [of _ s] exI [of _ info]) simp
qed

end
