(* ===== verification/Header.thy ===== *)
theory Header
  imports Counter_Words Thread_State
begin

text \<open>
  The object header \<open>RawBrcHeader\<close> and its operations (\<open>runtime.rs\<close>). Each operation is a function
  of the two raw words, of the answer of \<open>LocalThreadState::existing_short_id()\<close> on the calling
  thread, and of \<open>dbg\<close>, which says whether the build has debug assertions. Where an operation
  retries a compare-and-exchange, \<open>seen\<close> lists what the failing exchanges returned. What happens
  between two atomic accesses is a function of its own (\<open>decrement_shared_next\<close>,
  \<open>explicit_merge_next\<close>, \<open>unless_zero_update\<close>), which the interleaved model uses too.
\<close>

record RawBrcHeader =
  shared_word :: "64 word"
  biased_word :: "32 word"

type_synonym access = "LocalThreadAccessError + ShortThreadId"

text \<open>\<open>Result::ok\<close>.\<close>

fun result_ok :: "'e + 'a \<Rightarrow> 'a option" where
  "result_ok (Inl _) = None"
| "result_ok (Inr x) = Some x"

section \<open>Construction\<close>

text \<open>The two headers that \<open>init\<close> can build, once it knows the thread's short id (if any).\<close>

definition init_for :: "ShortThreadId option \<Rightarrow> RawBrcHeader" where
  "init_for this_id =
     (case this_id of
        None \<Rightarrow>
          \<lparr>shared_word = SharedWord_to_raw \<lparr>shared_count = 1, merged = True, queued = False\<rparr>,
           biased_word = BiasedWord_to_raw BiasedWord_UNOWNED\<rparr>
      | Some this_id \<Rightarrow>
          \<lparr>shared_word = SharedWord_to_raw \<lparr>shared_count = 0, merged = False, queued = False\<rparr>,
           biased_word = BiasedWord_to_raw \<lparr>owner_id = Some this_id, biased_count = 1\<rparr>\<rparr>)"

text \<open>\<open>RawBrcHeader::init\<close>: asks for the short id and initialises the thread when needed.\<close>

definition init ::
  "'q \<Rightarrow> 64 word \<Rightarrow> thread \<Rightarrow> ('q, 'z) runtime_scheme
    \<Rightarrow> (RawBrcHeader \<times> ('q, 'z) runtime_scheme) checked" where
  "init empty_queue index t rt =
     bind_checked (existing_short_id t rt) (\<lambda>r.
       bind_checked
         (case r of
            Inr short_id \<Rightarrow> Inr (Some short_id, rt)
          | Inl AccessDead \<Rightarrow> Inr (None, rt)
          | Inl (AccessIdOverflow _) \<Rightarrow> Inr (None, rt)
          | Inl Uninitialized \<Rightarrow> init_tid empty_queue index t rt)
         (\<lambda>(this_id, rt). Inr (init_for this_id, rt)))"

section \<open>Reading the counts\<close>

datatype ImpreciseRefCountError = ImpreciseRefCountError "64 word"
datatype BiasedCountError = WrongThread | NotBiased
datatype ZeroReferenceCountError = ZeroReferenceCountError

text \<open>\<open>usize::checked_add_signed\<close>.\<close>

definition usize_checked_add_signed :: "64 word \<Rightarrow> int \<Rightarrow> 64 word option" where
  "usize_checked_add_signed a b =
     (if 0 \<le> uint a + b \<and> uint a + b < 2 ^ 64 then Some (word_of_int (uint a + b)) else None)"

text \<open>
  \<open>strong_count\<close> from the two words it loads, one after the other.
\<close>

definition strong_count_of ::
  "bool \<Rightarrow> access \<Rightarrow> 64 word \<Rightarrow> 32 word \<Rightarrow> (ImpreciseRefCountError + 64 word) checked" where
  "strong_count_of dbg me shared_raw biased_raw =
     (let this_thread_id = result_ok me;
          shared = SharedWord_from_raw shared_raw;
          biased = BiasedWord_from_raw biased_raw in
      if merged shared then
        (let res = SharedCount_value (shared_count shared) in
         if res < 0 then Inl (if dbg then Undefined Negative_refcnt_merge else Unchecked_violation)
         else Inr (Inr (word_of_int res)))
      else if owner_id biased = this_thread_id then
        (let count = ucast (biased_count biased); shared_n = SharedCount_value (shared_count shared) in
         if dbg
         then bind_checked
                (or_fault (Undefined Strong_count_arith_overflow) (usize_checked_add_signed count shared_n))
                (\<lambda>sum. Inr (Inr sum))
         else Inr (Inr (count + word_of_int shared_n)))
      else Inr (Inl (ImpreciseRefCountError (word_of_int (max (SharedCount_value (shared_count shared)) 0)))))"

definition strong_count :: "bool \<Rightarrow> access \<Rightarrow> RawBrcHeader \<Rightarrow> (ImpreciseRefCountError + 64 word) checked" where
  "strong_count dbg me h = strong_count_of dbg me (shared_word h) (biased_word h)"

definition is_definitely_not_unique :: "access \<Rightarrow> 32 word \<Rightarrow> bool" where
  "is_definitely_not_unique me biased_raw =
     (let biased = BiasedWord_from_raw biased_raw in
      owner_id biased \<noteq> None \<and> owner_id biased \<noteq> result_ok me)"

definition is_unique_of :: "bool \<Rightarrow> access \<Rightarrow> 64 word \<Rightarrow> 32 word \<Rightarrow> bool checked" where
  "is_unique_of dbg me shared_raw biased_raw =
     bind_checked (strong_count_of dbg me shared_raw biased_raw)
       (\<lambda>r. Inr (case r of Inr count \<Rightarrow> count = 1 | Inl (ImpreciseRefCountError _) \<Rightarrow> False))"

definition is_unique :: "bool \<Rightarrow> access \<Rightarrow> RawBrcHeader \<Rightarrow> bool checked" where
  "is_unique dbg me h = is_unique_of dbg me (shared_word h) (biased_word h)"

definition biased_count_result :: "access \<Rightarrow> RawBrcHeader \<Rightarrow> BiasedCountError + 64 word" where
  "biased_count_result me h =
     (let biased = BiasedWord_from_raw (biased_word h) in
      if owner_id biased = None then Inl NotBiased
      else if result_ok me = owner_id biased then Inr (ucast (biased_count biased))
      else Inl WrongThread)"

definition shared_count_result :: "RawBrcHeader \<Rightarrow> int" where
  "shared_count_result h = SharedCount_value (shared_count (SharedWord_from_raw (shared_word h)))"

section \<open>Incrementing\<close>

text \<open>
  \<open>attempt_biased_increment\<close>: the word to store, or \<open>None\<close> for \<open>FastIncrementFailure\<close>.
\<close>

definition attempt_biased_increment :: "bool \<Rightarrow> access \<Rightarrow> 32 word \<Rightarrow> 32 word option checked" where
  "attempt_biased_increment dbg me raw =
     (let biased = BiasedWord_from_raw raw in
      case u20_checked_add (biased_count biased) 1 of
        None \<Rightarrow> Inr None
      | Some incremented_counter \<Rightarrow>
          (case me of
             Inl _ \<Rightarrow> Inr None
           | Inr this_id \<Rightarrow>
               if owner_id biased = Some this_id then
                 (if dbg \<and> biased_count biased = 0 then Inl (Undefined Biased_count_zero_and_owned)
                  else Inr (Some (BiasedWord_to_raw (biased\<lparr>biased_count := incremented_counter\<rparr>))))
               else Inr None))"

text \<open>\<open>increment_strong_shared\<close>: a \<open>fetch_add(1)\<close> of the raw word, then the overflow check.\<close>

definition increment_strong_shared :: "64 word \<Rightarrow> 64 word checked" where
  "increment_strong_shared raw =
     (let new_word = SharedWord_from_raw raw in
      if SharedCount_value (shared_count new_word) > SharedCount_value OVERFLOW_THRESHOLD
      then Inl (Fatal Shared_refcnt_overflow)
      else Inr (raw + 1))"

definition increment_strong :: "bool \<Rightarrow> access \<Rightarrow> RawBrcHeader \<Rightarrow> RawBrcHeader checked" where
  "increment_strong dbg me h =
     bind_checked (attempt_biased_increment dbg me (biased_word h)) (\<lambda>r.
       case r of
         Some raw \<Rightarrow> Inr (h\<lparr>biased_word := raw\<rparr>)
       | None \<Rightarrow> bind_checked (increment_strong_shared (shared_word h)) (\<lambda>raw. Inr (h\<lparr>shared_word := raw\<rparr>)))"

text \<open>The closure of the \<open>fetch_update\<close> in \<open>increment_strong_unless_zero\<close>.\<close>

definition unless_zero_update :: "bool \<Rightarrow> 64 word \<Rightarrow> 64 word option checked" where
  "unless_zero_update dbg raw =
     (let old_shared = SharedWord_from_raw raw;
          is_dead = (merged old_shared \<and> SharedCount_value (shared_count old_shared) = 0) in
      if dbg \<and> merged old_shared \<and> SharedCount_value (shared_count old_shared) < 0
      then Inl (Undefined Negative_refcnt_merge)
      else if is_dead then Inr None
      else bind_checked
             (or_fault (Fatal Shared_refcnt_overflow) (SharedCount_checked_add (shared_count old_shared) 1))
             (\<lambda>n. Inr (Some (SharedWord_to_raw (old_shared\<lparr>shared_count := n\<rparr>)))))"

definition increment_strong_unless_zero ::
  "bool \<Rightarrow> access \<Rightarrow> 64 word list \<Rightarrow> RawBrcHeader \<Rightarrow> (ZeroReferenceCountError + RawBrcHeader) checked" where
  "increment_strong_unless_zero dbg me seen h =
     bind_checked (attempt_biased_increment dbg me (biased_word h)) (\<lambda>r.
       case r of
         Some raw \<Rightarrow> Inr (Inr (h\<lparr>biased_word := raw\<rparr>))
       | None \<Rightarrow>
           bind_checked (fetch_update (unless_zero_update dbg) seen (shared_word h)) (\<lambda>r.
             Inr (case r of
                    Inr (_, new) \<Rightarrow> Inr (h\<lparr>shared_word := new\<rparr>)
                  | Inl _ \<Rightarrow> Inl ZeroReferenceCountError)))"

section \<open>Decrementing\<close>

text \<open>
  The part of \<open>decrement_biased\<close> before its store: \<open>None\<close> is \<open>FastDecrementFailure\<close>; otherwise the
  new biased word, or \<open>Slow\<close> when the biased count reaches zero.
\<close>

datatype biased_decrement = Biased_store "32 word" | Biased_slow

definition decrement_biased_next :: "bool \<Rightarrow> access \<Rightarrow> 32 word \<Rightarrow> biased_decrement option checked" where
  "decrement_biased_next dbg me raw =
     (let biased = BiasedWord_from_raw raw in
      case owner_id biased of
        None \<Rightarrow> Inr None
      | Some owner \<Rightarrow>
          (case me of
             Inl _ \<Rightarrow> Inr None
           | Inr this_id \<Rightarrow>
               if this_id = owner then
                 bind_checked (debug_assert dbg (biased_count biased \<noteq> 0)) (\<lambda>_.
                   if biased_count biased = 0 then Inl Unchecked_violation
                   else
                     (let new_biased_count = biased_count biased - 1 in
                      if new_biased_count > 0
                      then Inr (Some (Biased_store (BiasedWord_to_raw (biased\<lparr>biased_count := new_biased_count\<rparr>))))
                      else Inr (Some Biased_slow)))
               else Inr None))"

text \<open>
  What \<open>decrement_biased_slow\<close> computes from the word that its \<open>fetch_or(MERGED_BIT)\<close> returned:
  whether to drop the value.
\<close>

definition decrement_biased_slow_result :: "bool \<Rightarrow> 64 word \<Rightarrow> bool checked" where
  "decrement_biased_slow_result dbg old_raw =
     (let old_shared = SharedWord_from_raw old_raw; new_shared = old_shared\<lparr>merged := True\<rparr> in
      bind_checked (debug_assert dbg (\<not> merged old_shared)) (\<lambda>_.
      bind_checked (debug_assert dbg (SharedCount_value (shared_count new_shared) \<ge> 0)) (\<lambda>_.
      Inr (SharedCount_value (shared_count new_shared) = 0))))"

definition decrement_biased_slow :: "bool \<Rightarrow> RawBrcHeader \<Rightarrow> (bool \<times> RawBrcHeader) checked" where
  "decrement_biased_slow dbg h =
     bind_checked (decrement_biased_slow_result dbg (shared_word h)) (\<lambda>should_drop.
       Inr (should_drop, h\<lparr>shared_word := shared_word h OR MERGED_BIT,
                           biased_word := BiasedWord_to_raw BiasedWord_UNOWNED\<rparr>))"

definition decrement_biased :: "bool \<Rightarrow> access \<Rightarrow> RawBrcHeader \<Rightarrow> (bool \<times> RawBrcHeader) option checked" where
  "decrement_biased dbg me h =
     bind_checked (decrement_biased_next dbg me (biased_word h)) (\<lambda>r.
       case r of
         None \<Rightarrow> Inr None
       | Some (Biased_store raw) \<Rightarrow> Inr (Some (False, h\<lparr>biased_word := raw\<rparr>))
       | Some Biased_slow \<Rightarrow> bind_checked (decrement_biased_slow dbg h) (\<lambda>r. Inr (Some r)))"

text \<open>The body of the loop of \<open>decrement_shared\<close>.\<close>

definition decrement_shared_next :: "64 word \<Rightarrow> 64 word checked" where
  "decrement_shared_next raw =
     (let old = SharedWord_from_raw raw in
      bind_checked
        (or_fault (Fatal Shared_refcnt_underflow) (SharedCount_checked_sub (shared_count old) 1))
        (\<lambda>n. let new = old\<lparr>shared_count := n\<rparr> in
             Inr (SharedWord_to_raw (if SharedCount_value n < 0 then new\<lparr>queued := True\<rparr> else new))))"

text \<open>
  What follows a successful exchange: hand the object to the queue (which then takes care of the
  drop), or report whether the value must be dropped.
\<close>

datatype shared_decrement = Do_queue | Shared_done bool

definition decrement_shared_result :: "bool \<Rightarrow> 64 word \<Rightarrow> 64 word \<Rightarrow> shared_decrement checked" where
  "decrement_shared_result dbg old_raw new_raw =
     (let old = SharedWord_from_raw old_raw; new = SharedWord_from_raw new_raw in
      bind_checked (debug_assert dbg (\<not> merged new \<or> SharedCount_value (shared_count new) \<ge> 0)) (\<lambda>_.
      Inr (if queued old \<noteq> queued new then Do_queue
           else Shared_done (merged new \<and> SharedCount_value (shared_count new) = 0))))"

definition decrement_shared ::
  "bool \<Rightarrow> 64 word list \<Rightarrow> RawBrcHeader \<Rightarrow> (shared_decrement \<times> RawBrcHeader) checked" where
  "decrement_shared dbg seen h =
     bind_checked (cas_loop decrement_shared_next seen (shared_word h)) (\<lambda>(old, new).
     bind_checked (decrement_shared_result dbg old new) (\<lambda>r.
     Inr (r, h\<lparr>shared_word := new\<rparr>)))"

text \<open>\<open>decrement_strong\<close>, up to the queueing that \<open>decrement_shared\<close> may ask for.\<close>

definition decrement_strong ::
  "bool \<Rightarrow> access \<Rightarrow> 64 word list \<Rightarrow> RawBrcHeader \<Rightarrow> (shared_decrement \<times> RawBrcHeader) checked" where
  "decrement_strong dbg me seen h =
     bind_checked (decrement_biased dbg me h) (\<lambda>r.
       case r of
         Some (should_drop, h) \<Rightarrow> Inr (Shared_done should_drop, h)
       | None \<Rightarrow> decrement_shared dbg seen h)"

section \<open>Merging\<close>

text \<open>The body of the loop of \<open>explicit_merge\<close>, given the biased word read before it.\<close>

definition explicit_merge_next :: "32 word \<Rightarrow> 64 word \<Rightarrow> 64 word checked" where
  "explicit_merge_next biased_raw raw =
     (let biased = BiasedWord_from_raw biased_raw; old_word = SharedWord_from_raw raw in
      if merged old_word then Inl Assertion_failed
      else
        bind_checked (SharedCount_new_unchecked (uint (biased_count biased))) (\<lambda>count.
        bind_checked (or_fault (Fatal Merged_refcnt_overflow) (SharedCount_checked_add (shared_count old_word) count))
          (\<lambda>n. Inr (SharedWord_to_raw (old_word\<lparr>shared_count := n, merged := True\<rparr>)))))"

text \<open>The comparison with zero at the end: \<open>True\<close> when the object must be deallocated.\<close>

definition explicit_merge_result :: "64 word \<Rightarrow> bool checked" where
  "explicit_merge_result new_raw =
     (let n = SharedCount_value (shared_count (SharedWord_from_raw new_raw)) in
      if n < 0 then Inl (Undefined Negative_refcnt_merge) else Inr (n = 0))"

definition explicit_merge_header ::
  "ShortThreadId \<Rightarrow> 64 word list \<Rightarrow> RawBrcHeader \<Rightarrow> (bool \<times> RawBrcHeader) checked" where
  "explicit_merge_header biased_tid seen h =
     (if owner_id (BiasedWord_from_raw (biased_word h)) \<noteq> Some biased_tid
      then Inl (Undefined Explicit_merge_bad_id)
      else
        bind_checked (cas_loop (explicit_merge_next (biased_word h)) seen (shared_word h)) (\<lambda>(old, new).
        bind_checked (explicit_merge_result new) (\<lambda>zero.
        Inr (zero, h\<lparr>shared_word := new, biased_word := BiasedWord_to_raw BiasedWord_UNOWNED\<rparr>))))"

section \<open>The weak count\<close>

text \<open>The constants of \<open>layout.rs\<close> for the weak count that follows the raw header.\<close>

definition WEAK_LOCKED_COUNT :: "32 word" where
  "WEAK_LOCKED_COUNT = - 1"

definition WEAK_OVERFLOW_THRESHOLD :: "32 word" where
  "WEAK_OVERFLOW_THRESHOLD = WEAK_LOCKED_COUNT div 2"

lemmas header_kernels [kernels] =
  attempt_biased_increment_def increment_strong_shared_def unless_zero_update_def
  decrement_biased_next_def decrement_biased_slow_result_def decrement_shared_next_def
  decrement_shared_result_def explicit_merge_next_def explicit_merge_result_def

end
