(* ===== verification/Header_Counts.thy ===== *)
theory Header_Counts
  imports Header
begin

text \<open>
  What the header operations do to the number of strong references. \<open>logical_count\<close> is the number
  the two words stand for: the biased count plus the shared count until they are merged, the
  shared count alone afterwards. \<open>header_ok\<close> is the invariant between operations. Every operation
  is shown to keep the invariant and to change the logical count by exactly one (or not at all, for
  a merge), with the results that callers act on: whether to drop the value, whether to queue the
  object. The one exception is \<open>increment_strong_shared\<close> at a shared count of \<open>-1\<close>, where the raw
  addition carries into the flags.
\<close>

section \<open>The logical count\<close>

abbreviation shared_of :: "RawBrcHeader \<Rightarrow> SharedWord" where
  "shared_of h \<equiv> SharedWord_from_raw (shared_word h)"

abbreviation biased_of :: "RawBrcHeader \<Rightarrow> BiasedWord" where
  "biased_of h \<equiv> BiasedWord_from_raw (biased_word h)"

abbreviation shared_value :: "RawBrcHeader \<Rightarrow> int" where
  "shared_value h \<equiv> SharedCount_value (shared_count (shared_of h))"

abbreviation biased_value :: "RawBrcHeader \<Rightarrow> int" where
  "biased_value h \<equiv> uint (biased_count (biased_of h))"

definition logical_count :: "RawBrcHeader \<Rightarrow> int" where
  "logical_count h = (if merged (shared_of h) then 0 else biased_value h) + shared_value h"

definition header_ok :: "RawBrcHeader \<Rightarrow> bool" where
  "header_ok h \<longleftrightarrow>
     (if merged (shared_of h)
      then biased_of h = BiasedWord_UNOWNED \<and> 0 \<le> shared_value h
      else owner_id (biased_of h) \<noteq> None \<and> 0 < biased_value h \<and> 0 \<le> logical_count h
           \<and> (shared_value h < 0 \<longrightarrow> queued (shared_of h)))"

lemma biased_value_range: "0 \<le> biased_value h" "biased_value h < 2 ^ 20"
  using unsigned_less [of "biased_count (biased_of h)", where 'a = int] by simp_all

lemma shared_value_range: "- (2 ^ 61) \<le> shared_value h" "shared_value h < 2 ^ 61"
  by (rule SharedCount_value_range)+

text \<open>The shared count never falls below minus the largest biased count.\<close>

lemma header_ok_shared_low: "header_ok h \<Longrightarrow> - (2 ^ 20) < shared_value h"
  using biased_value_range [of h] by (auto simp: header_ok_def logical_count_def split: if_splits)

lemma SharedWord_from_to' [simp]: "SharedWord_from_raw (SharedWord_to_raw w) = w"
  by (rule SharedWord_from_to)

lemma BiasedWord_from_to_count [simp]:
  "BiasedWord_from_raw (BiasedWord_to_raw ((BiasedWord_from_raw r)\<lparr>biased_count := c\<rparr>))
     = (BiasedWord_from_raw r)\<lparr>biased_count := c\<rparr>"
  using biased_word_ok_from_raw [of r] by (intro BiasedWord_from_to) (simp add: biased_word_ok_def)

lemma BiasedWord_from_to_UNOWNED [simp]:
  "BiasedWord_from_raw (BiasedWord_to_raw BiasedWord_UNOWNED) = BiasedWord_UNOWNED"
  by (rule BiasedWord_from_to) simp

lemma BiasedWord_UNOWNED_fields [simp]:
  "owner_id BiasedWord_UNOWNED = None" "biased_count BiasedWord_UNOWNED = 0"
  by (simp_all add: BiasedWord_UNOWNED_def)

lemma uint_pos_iff: "0 < uint (a :: 20 word) \<longleftrightarrow> a \<noteq> 0"
  by (metis less_le uint_0_iff unsigned_greater_eq)

lemma SharedCount_minus_one_iff: "c = - 1 \<longleftrightarrow> SharedCount_value c = - 1"
proof -
  have "SharedCount_value (- 1) = - 1" by (simp add: SharedCount_value_def)
  then show ?thesis using SharedCount_value_inject [of c "- 1"] by metis
qed

lemma OVERFLOW_THRESHOLD_value: "SharedCount_value OVERFLOW_THRESHOLD = 2 ^ 60 - 1"
  by (simp add: OVERFLOW_THRESHOLD_def SharedCount_MAX_def SharedCount_value_def)

section \<open>Incrementing\<close>

lemma attempt_biased_increment_Some:
  assumes "attempt_biased_increment dbg me raw = Inr (Some raw')"
  shows "\<exists>s. me = Inr s \<and> owner_id (BiasedWord_from_raw raw) = Some s
     \<and> BiasedWord_from_raw raw' =
         (BiasedWord_from_raw raw)\<lparr>biased_count := biased_count (BiasedWord_from_raw raw) + 1\<rparr>
     \<and> uint (biased_count (BiasedWord_from_raw raw) + 1) = uint (biased_count (BiasedWord_from_raw raw)) + 1"
  using assms uint20_plus_one [of "biased_count (BiasedWord_from_raw raw)"]
  by (auto simp: attempt_biased_increment_def u20_checked_add_def Let_def
      split: if_splits sum.splits)

lemma attempt_biased_increment_error:
  "attempt_biased_increment dbg me raw = Inl e \<Longrightarrow> biased_count (BiasedWord_from_raw raw) = 0"
  by (auto simp: attempt_biased_increment_def Let_def split: if_splits sum.splits option.splits)

lemma increment_strong_shared_Inr:
  "increment_strong_shared raw = Inr raw' \<longleftrightarrow>
     raw' = raw + 1 \<and> SharedCount_value (shared_count (SharedWord_from_raw raw)) \<le> 2 ^ 60 - 1"
  by (auto simp: increment_strong_shared_def Let_def OVERFLOW_THRESHOLD_value)

lemma increment_strong_shared_Inl:
  "increment_strong_shared raw = Inl e \<longleftrightarrow>
     e = Fatal Shared_refcnt_overflow \<and> 2 ^ 60 - 1 < SharedCount_value (shared_count (SharedWord_from_raw raw))"
  by (auto simp: increment_strong_shared_def Let_def OVERFLOW_THRESHOLD_value)

lemma SharedCount_value_plus_one:
  "SharedCount_value c < 2 ^ 61 - 1 \<Longrightarrow> SharedCount_value (c + 1) = SharedCount_value c + 1"
  using SharedCount_value_range(1) [of c] sint_add_62 [of c 1] by (simp add: SharedCount_value_def)

text \<open>The raw addition, seen through the unpacked word.\<close>

lemma shared_after_fetch_add:
  assumes "SharedCount_value (shared_count (SharedWord_from_raw raw)) \<noteq> - 1"
    and "SharedCount_value (shared_count (SharedWord_from_raw raw)) < 2 ^ 61 - 1"
  shows "\<exists>c. SharedWord_from_raw (raw + 1) = (SharedWord_from_raw raw)\<lparr>shared_count := c\<rparr>
     \<and> SharedCount_value c = SharedCount_value (shared_count (SharedWord_from_raw raw)) + 1"
  using SharedWord_fetch_add [of raw] SharedCount_value_plus_one [OF assms(2)] assms(1)
  by (intro exI [of _ "shared_count (SharedWord_from_raw raw) + 1"]) (simp add: SharedCount_minus_one_iff)

lemma header_ok_shared_bump:
  assumes ok: "header_ok h"
    and "SharedWord_from_raw raw = (shared_of h)\<lparr>shared_count := c\<rparr>"
    and "SharedCount_value c = shared_value h + 1"
  shows "header_ok (h\<lparr>shared_word := raw\<rparr>) \<and> logical_count (h\<lparr>shared_word := raw\<rparr>) = logical_count h + 1"
  using assms by (auto simp: header_ok_def logical_count_def)

lemma header_ok_biased_bump:
  assumes ok: "header_ok h" and o': "owner_id (biased_of h) = Some s"
    and "BiasedWord_from_raw raw = (biased_of h)\<lparr>biased_count := c\<rparr>"
    and "uint c = biased_value h + 1"
  shows "header_ok (h\<lparr>biased_word := raw\<rparr>) \<and> logical_count (h\<lparr>biased_word := raw\<rparr>) = logical_count h + 1"
  using assms by (auto simp: header_ok_def logical_count_def BiasedWord_UNOWNED_def split: if_splits)

text \<open>
  The condition under which the shared path of an increment cannot carry into the flags.
\<close>

definition carry_free :: "RawBrcHeader \<Rightarrow> bool" where
  "carry_free h \<longleftrightarrow> shared_value h \<noteq> - 1"

lemma increment_strong_ok:
  assumes ok: "header_ok h" and nc: "carry_free h" and inc: "increment_strong dbg me h = Inr h'"
  shows "header_ok h' \<and> logical_count h' = logical_count h + 1"
proof (cases "attempt_biased_increment dbg me (biased_word h)")
  case (Inl e)
  then show ?thesis using inc by (simp add: increment_strong_def)
next
  case (Inr r)
  show ?thesis
  proof (cases r)
    case None
    then have h': "h' = h\<lparr>shared_word := shared_word h + 1\<rparr>" "shared_value h \<le> 2 ^ 60 - 1"
      using inc Inr by (auto simp: increment_strong_def checked_simps increment_strong_shared_Inr)
    then obtain c where "SharedWord_from_raw (shared_word h + 1) = (shared_of h)\<lparr>shared_count := c\<rparr>"
      "SharedCount_value c = shared_value h + 1"
      using shared_after_fetch_add [of "shared_word h"] nc by (auto simp: carry_free_def)
    then show ?thesis
      unfolding h'(1) by (rule header_ok_shared_bump [OF ok])
  next
    case (Some raw)
    then have h': "h' = h\<lparr>biased_word := raw\<rparr>"
      using inc Inr by (simp add: increment_strong_def)
    show ?thesis
      using attempt_biased_increment_Some [of dbg me "biased_word h" raw] Inr Some
        header_ok_biased_bump [OF ok] unfolding h' by blast
  qed
qed

lemma increment_strong_error:
  assumes ok: "header_ok h" and inc: "increment_strong dbg me h = Inl e"
  shows "e = Fatal Shared_refcnt_overflow \<and> 2 ^ 60 - 1 < shared_value h"
proof (cases "attempt_biased_increment dbg me (biased_word h)")
  case (Inl e')
  have False if "header_ok h" "owner_id (biased_of h) = Some s" "biased_count (biased_of h) = 0" for s
    using that by (auto simp: header_ok_def split: if_splits)
  then show ?thesis
    using ok Inl by (auto simp: attempt_biased_increment_def Let_def split: if_splits sum.splits option.splits)
next
  case (Inr r)
  then show ?thesis
    using inc by (auto simp: increment_strong_def checked_simps increment_strong_shared_Inl split: option.splits)
qed

section \<open>Incrementing unless the count is zero\<close>

lemma unless_zero_update_Some:
  assumes "unless_zero_update dbg raw = Inr (Some raw')"
  shows "\<exists>c. SharedWord_from_raw raw' = (SharedWord_from_raw raw)\<lparr>shared_count := c\<rparr>
     \<and> SharedCount_value c = SharedCount_value (shared_count (SharedWord_from_raw raw)) + 1
     \<and> \<not> (merged (SharedWord_from_raw raw) \<and> SharedCount_value (shared_count (SharedWord_from_raw raw)) = 0)"
  using assms
  by (auto simp: unless_zero_update_def Let_def checked_simps SharedCount_checked_add_Some split: if_splits)

lemma unless_zero_update_None:
  "unless_zero_update dbg raw = Inr None \<longleftrightarrow>
     merged (SharedWord_from_raw raw) \<and> SharedCount_value (shared_count (SharedWord_from_raw raw)) = 0"
  by (auto simp: unless_zero_update_def Let_def checked_simps split: if_splits)

lemma unless_zero_update_Inl:
  "unless_zero_update dbg raw = Inl e \<Longrightarrow>
     e = Fatal Shared_refcnt_overflow \<or>
     e = Undefined Negative_refcnt_merge \<and> merged (SharedWord_from_raw raw)
       \<and> SharedCount_value (shared_count (SharedWord_from_raw raw)) < 0"
  by (auto simp: unless_zero_update_def Let_def checked_simps split: if_splits)

text \<open>A dead header: the counts are merged and zero.\<close>

definition is_dead :: "RawBrcHeader \<Rightarrow> bool" where
  "is_dead h \<longleftrightarrow> merged (shared_of h) \<and> shared_value h = 0"

lemma header_ok_dead: "header_ok h \<Longrightarrow> is_dead h \<Longrightarrow> logical_count h = 0"
  by (simp add: is_dead_def logical_count_def)

lemma increment_strong_unless_zero_ok:
  assumes ok: "header_ok h" and inc: "increment_strong_unless_zero dbg me [] h = Inr r"
  shows "case r of
      Inl _ \<Rightarrow> is_dead h
    | Inr h' \<Rightarrow> \<not> is_dead h \<and> header_ok h' \<and> logical_count h' = logical_count h + 1"
proof (cases "attempt_biased_increment dbg me (biased_word h)")
  case (Inl e)
  then show ?thesis using inc by (simp add: increment_strong_unless_zero_def)
next
  case (Inr b)
  show ?thesis
  proof (cases b)
    case (Some raw)
    then have r: "r = Inr (h\<lparr>biased_word := raw\<rparr>)"
      using inc Inr by (simp add: increment_strong_unless_zero_def)
    obtain s where s: "owner_id (biased_of h) = Some s"
      "BiasedWord_from_raw raw = (biased_of h)\<lparr>biased_count := biased_count (biased_of h) + 1\<rparr>"
      "uint (biased_count (biased_of h) + 1) = biased_value h + 1"
      using attempt_biased_increment_Some [of dbg me "biased_word h" raw] Inr Some by blast
    then have "\<not> is_dead h"
      using ok by (auto simp: is_dead_def header_ok_def)
    then show ?thesis
      using header_ok_biased_bump [OF ok s] by (simp add: r)
  next
    case None
    show ?thesis
    proof (cases "unless_zero_update dbg (shared_word h)")
      case (Inl e)
      then show ?thesis using inc Inr None by (simp add: increment_strong_unless_zero_def)
    next
      case u: (Inr w)
      then have r: "r = (case w of None \<Rightarrow> Inl ZeroReferenceCountError | Some new \<Rightarrow> Inr (h\<lparr>shared_word := new\<rparr>))"
        using inc Inr None by (auto simp: increment_strong_unless_zero_def split: option.splits)
      show ?thesis
      proof (cases w)
        case None
        then show ?thesis using u by (simp add: r unless_zero_update_None is_dead_def)
      next
        case (Some new)
        then show ?thesis
          using unless_zero_update_Some [of dbg "shared_word h" new] u header_ok_shared_bump [OF ok]
          by (auto simp: r is_dead_def)
      qed
    qed
  qed
qed

lemma SharedCount_checked_add_one:
  assumes "SharedCount_value c < 2 ^ 60"
  shows "\<exists>d. SharedCount_checked_add c 1 = Some d"
proof -
  have "- (2 ^ 61) \<le> sint c" by (rule sint_range62)
  moreover have "sint (1 :: 62 word) = 1" by simp
  ultimately show ?thesis
    using assms by (simp add: SharedCount_checked_add_def SharedCount_value_def)
qed

lemma increment_strong_unless_zero_no_error:
  assumes ok: "header_ok h" and small: "shared_value h < 2 ^ 60"
  shows "\<exists>r. increment_strong_unless_zero dbg me [] h = Inr r"
proof -
  have "unless_zero_update dbg (shared_word h) \<noteq> Inl e" for e
    using ok SharedCount_checked_add_one [OF small]
    by (auto simp: unless_zero_update_def Let_def header_ok_def split: if_splits)
  then obtain u where u: "unless_zero_update dbg (shared_word h) = Inr u"
    by (cases "unless_zero_update dbg (shared_word h)") auto
  have "attempt_biased_increment dbg me (biased_word h) \<noteq> Inl e" for e
    using ok
    by (auto simp: attempt_biased_increment_def header_ok_def Let_def split: if_splits option.splits sum.splits)
  then obtain b where "attempt_biased_increment dbg me (biased_word h) = Inr b"
    by (cases "attempt_biased_increment dbg me (biased_word h)") auto
  then show ?thesis
    using u by (cases b; cases u) (simp_all add: increment_strong_unless_zero_def)
qed

section \<open>Decrementing\<close>

text \<open>The branches of \<open>decrement_biased\<close>.\<close>

lemma decrement_biased_next_store:
  assumes "decrement_biased_next dbg me raw = Inr (Some (Biased_store raw'))"
  shows "\<exists>s c. me = Inr s \<and> owner_id (BiasedWord_from_raw raw) = Some s
     \<and> BiasedWord_from_raw raw' = (BiasedWord_from_raw raw)\<lparr>biased_count := c\<rparr>
     \<and> uint c = uint (biased_count (BiasedWord_from_raw raw)) - 1 \<and> 0 < uint c"
  using assms uint_minus_one [of "biased_count (BiasedWord_from_raw raw)"]
  by (auto simp: decrement_biased_next_def Let_def checked_simps uint_pos_iff word_gt_0
      split: if_splits sum.splits option.splits
      intro!: exI [of _ "biased_count (BiasedWord_from_raw raw) - 1"])

lemma decrement_biased_next_slow:
  assumes "decrement_biased_next dbg me raw = Inr (Some Biased_slow)"
  shows "\<exists>s. me = Inr s \<and> owner_id (BiasedWord_from_raw raw) = Some s
     \<and> uint (biased_count (BiasedWord_from_raw raw)) = 1"
  using assms uint_minus_one [of "biased_count (BiasedWord_from_raw raw)"]
  by (auto simp: decrement_biased_next_def Let_def checked_simps word_gt_0
      split: if_splits sum.splits option.splits)

lemma decrement_biased_next_None:
  assumes "decrement_biased_next dbg me raw = Inr None"
  shows "\<forall>s. me = Inr s \<longrightarrow> owner_id (BiasedWord_from_raw raw) \<noteq> Some s"
  using assms
  by (auto simp: decrement_biased_next_def Let_def checked_simps split: if_splits sum.splits option.splits)

lemma decrement_biased_next_Inl:
  assumes "decrement_biased_next dbg me raw = Inl e"
  shows "owner_id (BiasedWord_from_raw raw) \<noteq> None \<and> biased_count (BiasedWord_from_raw raw) = 0"
  using assms
  by (auto simp: decrement_biased_next_def Let_def checked_simps split: if_splits sum.splits option.splits)

lemma decrement_shared_next_Inr:
  assumes "decrement_shared_next raw = Inr raw'"
  shows "\<exists>c. SharedCount_value c = SharedCount_value (shared_count (SharedWord_from_raw raw)) - 1
     \<and> SharedWord_from_raw raw' = (SharedWord_from_raw raw)\<lparr>shared_count := c,
          queued := (queued (SharedWord_from_raw raw) \<or> SharedCount_value c < 0)\<rparr>"
proof -
  let ?old = "SharedWord_from_raw raw"
  obtain c where c: "SharedCount_checked_sub (shared_count ?old) 1 = Some c"
    and raw': "raw' = SharedWord_to_raw (if SharedCount_value c < 0
        then ?old\<lparr>shared_count := c, queued := True\<rparr> else ?old\<lparr>shared_count := c\<rparr>)"
    using assms by (auto simp: decrement_shared_next_def Let_def checked_simps)
  have "SharedCount_value c = SharedCount_value (shared_count ?old) - 1"
    using SharedCount_checked_sub_Some [OF c] by simp
  then show ?thesis
    using raw' by (intro exI [of _ c]) simp
qed

lemma decrement_shared_next_Inl:
  assumes "decrement_shared_next raw = Inl e"
  shows "e = Fatal Shared_refcnt_underflow
     \<and> SharedCount_value (shared_count (SharedWord_from_raw raw)) = - (2 ^ 61)"
  using assms SharedCount_value_range [of "shared_count (SharedWord_from_raw raw)"]
  by (auto simp: decrement_shared_next_def Let_def checked_simps SharedCount_checked_sub_def
      SharedCount_value_def split: if_splits)

lemma decrement_shared_result_Inr:
  "decrement_shared_result dbg old new = Inr Do_queue \<longleftrightarrow>
     queued (SharedWord_from_raw old) \<noteq> queued (SharedWord_from_raw new)
     \<and> (dbg \<longrightarrow> \<not> merged (SharedWord_from_raw new) \<or> 0 \<le> SharedCount_value (shared_count (SharedWord_from_raw new)))"
  "decrement_shared_result dbg old new = Inr (Shared_done d) \<longleftrightarrow>
     queued (SharedWord_from_raw old) = queued (SharedWord_from_raw new)
     \<and> (dbg \<longrightarrow> \<not> merged (SharedWord_from_raw new) \<or> 0 \<le> SharedCount_value (shared_count (SharedWord_from_raw new)))
     \<and> d = (merged (SharedWord_from_raw new) \<and> SharedCount_value (shared_count (SharedWord_from_raw new)) = 0)"
  by (auto simp: decrement_shared_result_def Let_def checked_simps split: if_splits)

lemma decrement_biased_slow_result_Inr:
  "decrement_biased_slow_result dbg old = Inr d \<longleftrightarrow>
     d = (SharedCount_value (shared_count (SharedWord_from_raw old)) = 0)
     \<and> (dbg \<longrightarrow> \<not> merged (SharedWord_from_raw old) \<and> 0 \<le> SharedCount_value (shared_count (SharedWord_from_raw old)))"
  by (auto simp: decrement_biased_slow_result_def Let_def checked_simps)

text \<open>What a decrement leaves behind, branch by branch.\<close>

definition decrement_post :: "RawBrcHeader \<Rightarrow> shared_decrement \<Rightarrow> RawBrcHeader \<Rightarrow> bool" where
  "decrement_post h r h' \<longleftrightarrow>
     header_ok h' \<and> logical_count h' = logical_count h - 1 \<and>
     (case r of
        Shared_done d \<Rightarrow> queued (shared_of h') = queued (shared_of h) \<and> (d \<longleftrightarrow> is_dead h')
      | Do_queue \<Rightarrow> \<not> queued (shared_of h) \<and> queued (shared_of h') \<and> \<not> merged (shared_of h')
                    \<and> shared_value h' = - 1)"

lemma decrement_biased_slow_ok:
  assumes ok: "header_ok h" and one: "biased_value h = 1" and um: "\<not> merged (shared_of h)"
    and pos: "0 < logical_count h"
  shows "\<exists>d h'. decrement_biased_slow dbg h = Inr (d, h') \<and> decrement_post h (Shared_done d) h'"
proof -
  have nonneg: "0 \<le> shared_value h" and eq: "logical_count h = 1 + shared_value h"
    using one um pos by (auto simp: logical_count_def)
  have res: "decrement_biased_slow_result dbg (shared_word h) = Inr (shared_value h = 0)"
    using nonneg um by (simp add: decrement_biased_slow_result_Inr)
  let ?h = "h\<lparr>shared_word := shared_word h OR MERGED_BIT, biased_word := BiasedWord_to_raw BiasedWord_UNOWNED\<rparr>"
  have "header_ok ?h" "logical_count ?h = logical_count h - 1"
    using nonneg eq by (simp_all add: header_ok_def logical_count_def SharedWord_fetch_or)
  then show ?thesis
    using res by (simp add: decrement_biased_slow_def decrement_post_def is_dead_def SharedWord_fetch_or)
qed

lemma decrement_shared_ok:
  assumes ok: "header_ok h" and pos: "0 < logical_count h"
  shows "\<exists>r h'. decrement_shared dbg [] h = Inr (r, h') \<and> decrement_post h r h'"
proof -
  obtain raw where raw: "decrement_shared_next (shared_word h) = Inr raw"
    using header_ok_shared_low [OF ok] decrement_shared_next_Inl [of "shared_word h"]
    by (cases "decrement_shared_next (shared_word h)") auto
  obtain c where c: "SharedCount_value c = shared_value h - 1"
    "SharedWord_from_raw raw = (shared_of h)\<lparr>shared_count := c,
       queued := (queued (shared_of h) \<or> SharedCount_value c < 0)\<rparr>"
    using decrement_shared_next_Inr [OF raw] by blast
  let ?h = "h\<lparr>shared_word := raw\<rparr>"
  have ok': "header_ok ?h" "logical_count ?h = logical_count h - 1"
    using ok pos c by (auto simp: header_ok_def logical_count_def split: if_splits)
  have nonneg: "\<not> merged (SharedWord_from_raw raw) \<or> 0 \<le> SharedCount_value (shared_count (SharedWord_from_raw raw))"
    using ok'(1) by (auto simp: header_ok_def split: if_splits)
  show ?thesis
  proof (cases "queued (shared_of h) = queued (SharedWord_from_raw raw)")
    case True
    then have "decrement_shared dbg [] h = Inr (Shared_done (is_dead ?h), ?h)"
      using nonneg raw by (simp add: decrement_shared_def decrement_shared_result_def Let_def is_dead_def debug_assert_def)
    then show ?thesis using ok' True by (auto simp: decrement_post_def)
  next
    case False
    then have "decrement_shared dbg [] h = Inr (Do_queue, ?h)"
      using nonneg raw by (simp add: decrement_shared_def decrement_shared_result_def Let_def debug_assert_def)
    moreover have "decrement_post h Do_queue ?h"
      using ok ok' c False pos by (auto simp: decrement_post_def header_ok_def logical_count_def split: if_splits)
    ultimately show ?thesis by blast
  qed
qed

lemma decrement_strong_ok:
  assumes ok: "header_ok h" and pos: "0 < logical_count h"
  shows "\<exists>r h'. decrement_strong dbg me [] h = Inr (r, h') \<and> decrement_post h r h'"
proof (cases "decrement_biased_next dbg me (biased_word h)")
  case (Inl e)
  then show ?thesis
    using decrement_biased_next_Inl [OF Inl] ok by (auto simp: header_ok_def split: if_splits)
next
  case b: (Inr b)
  show ?thesis
  proof (cases b)
    case None
    then show ?thesis
      using b decrement_shared_ok [OF ok pos] by (simp add: decrement_strong_def decrement_biased_def)
  next
    case (Some bd)
    show ?thesis
    proof (cases bd)
      case (Biased_store raw)
      obtain s c where o': "owner_id (biased_of h) = Some s"
        and c: "BiasedWord_from_raw raw = (biased_of h)\<lparr>biased_count := c\<rparr>" "uint c = biased_value h - 1" "0 < uint c"
        using decrement_biased_next_store b Some Biased_store by blast
      let ?h = "h\<lparr>biased_word := raw\<rparr>"
      have um: "\<not> merged (shared_of h)"
        using ok o' by (auto simp: header_ok_def)
      then have "decrement_post h (Shared_done False) ?h"
        using ok pos o' c by (auto simp: decrement_post_def header_ok_def logical_count_def is_dead_def)
      then show ?thesis
        using b Some Biased_store by (auto simp: decrement_strong_def decrement_biased_def)
    next
      case Biased_slow
      obtain s where "owner_id (biased_of h) = Some s" "biased_value h = 1"
        using decrement_biased_next_slow b Some Biased_slow by blast
      then have "biased_value h = 1" "\<not> merged (shared_of h)"
        using ok by (auto simp: header_ok_def)
      then show ?thesis
        using decrement_biased_slow_ok [OF ok _ _ pos, of dbg] b Some Biased_slow
        by (auto simp: decrement_strong_def decrement_biased_def)
    qed
  qed
qed

section \<open>Merging\<close>

lemma uint_20_range: "- (2 ^ 61) \<le> uint (b :: 20 word)" "uint (b :: 20 word) < 2 ^ 20"
  using unsigned_less [of b, where 'a = int] by (auto intro: order_trans [of _ 0])

lemma SharedCount_checked_add_None:
  "SharedCount_checked_add a b = None \<Longrightarrow> 0 \<le> SharedCount_value b \<Longrightarrow> SharedCount_value b < 2 ^ 20
    \<Longrightarrow> 2 ^ 61 - 2 ^ 20 \<le> SharedCount_value a"
  using SharedCount_value_range [of a]
  by (auto simp: SharedCount_checked_add_def simp flip: SharedCount_value_def split: if_splits)

text \<open>A biased count always fits in a shared count.\<close>

lemma SharedCount_of_biased:
  "\<exists>c. SharedCount_new_unchecked (uint (b :: 20 word)) = Inr c \<and> SharedCount_value c = uint b"
proof -
  have "uint b < 2 ^ 61" using uint_20_range(2) [of b] by simp
  then have "SharedCount_new_unchecked (uint b) = Inr (word_of_int (uint b))"
    using uint_20_range(1) [of b] unfolding SharedCount_new_unchecked_def by simp
  moreover have "SharedCount_value (word_of_int (uint b)) = uint b"
    unfolding SharedCount_value_def
    by (rule sint_word_of_int_62) (use uint_20_range [of b] in simp_all)
  ultimately show ?thesis by blast
qed

lemma explicit_merge_next_Inr:
  assumes "explicit_merge_next biased_raw raw = Inr raw'"
  shows "\<not> merged (SharedWord_from_raw raw) \<and> (\<exists>c. SharedWord_from_raw raw' =
        (SharedWord_from_raw raw)\<lparr>shared_count := c, merged := True\<rparr>
     \<and> SharedCount_value c = SharedCount_value (shared_count (SharedWord_from_raw raw))
         + uint (biased_count (BiasedWord_from_raw biased_raw)))"
proof -
  obtain c where "SharedCount_new_unchecked (uint (biased_count (BiasedWord_from_raw biased_raw))) = Inr c"
    "SharedCount_value c = uint (biased_count (BiasedWord_from_raw biased_raw))"
    using SharedCount_of_biased by blast
  then show ?thesis
    using assms
    by (auto simp: explicit_merge_next_def Let_def checked_simps dest!: SharedCount_checked_add_Some
        split: if_splits)
qed

lemma explicit_merge_next_Inl:
  assumes "explicit_merge_next biased_raw raw = Inl e"
  shows "e = Assertion_failed \<and> merged (SharedWord_from_raw raw) \<or> e = Fatal Merged_refcnt_overflow
    \<and> 2 ^ 61 - 2 ^ 20 \<le> SharedCount_value (shared_count (SharedWord_from_raw raw))"
proof -
  obtain c where "SharedCount_new_unchecked (uint (biased_count (BiasedWord_from_raw biased_raw))) = Inr c"
    and c: "SharedCount_value c = uint (biased_count (BiasedWord_from_raw biased_raw))"
    using SharedCount_of_biased by blast
  moreover have "0 \<le> SharedCount_value c" "SharedCount_value c < 2 ^ 20"
    using c uint_20_range(2) by simp_all
  ultimately show ?thesis
    using assms SharedCount_checked_add_None [of "shared_count (SharedWord_from_raw raw)" c]
    by (auto simp: explicit_merge_next_def Let_def checked_simps split: if_splits)
qed

lemma explicit_merge_header_ok:
  assumes ok: "header_ok h" and tid: "owner_id (biased_of h) = Some tid"
    and merge: "explicit_merge_header tid [] h = Inr (zero, h')"
  shows "header_ok h' \<and> merged (shared_of h') \<and> queued (shared_of h') = queued (shared_of h)
    \<and> logical_count h' = logical_count h \<and> (zero \<longleftrightarrow> is_dead h')"
proof -
  obtain raw where raw: "explicit_merge_next (biased_word h) (shared_word h) = Inr raw"
    and res: "explicit_merge_result raw = Inr zero"
    and h': "h' = h\<lparr>shared_word := raw, biased_word := BiasedWord_to_raw BiasedWord_UNOWNED\<rparr>"
    using merge tid by (auto simp: explicit_merge_header_def checked_simps)
  obtain c where "\<not> merged (shared_of h)" "SharedCount_value c = shared_value h + biased_value h"
    "SharedWord_from_raw raw = (shared_of h)\<lparr>shared_count := c, merged := True\<rparr>"
    using explicit_merge_next_Inr [OF raw] by blast
  then show ?thesis
    using res by (auto simp: h' header_ok_def logical_count_def is_dead_def explicit_merge_result_def Let_def
        split: if_splits)
qed

lemma explicit_merge_header_error:
  assumes ok: "header_ok h" and tid: "owner_id (biased_of h) = Some tid"
    and merge: "explicit_merge_header tid [] h = Inl e"
  shows "e = Fatal Merged_refcnt_overflow \<and> 2 ^ 61 - 2 ^ 20 \<le> shared_value h"
proof -
  have um: "\<not> merged (shared_of h)" using ok tid by (auto simp: header_ok_def)
  show ?thesis
  proof (cases "explicit_merge_next (biased_word h) (shared_word h)")
    case (Inl e')
    then show ?thesis
      using explicit_merge_next_Inl [OF Inl] um merge tid by (simp add: explicit_merge_header_def)
  next
    case (Inr raw)
    have "0 \<le> logical_count h" using ok um by (simp add: header_ok_def)
    then show ?thesis
      using explicit_merge_next_Inr [OF Inr] um merge tid Inr
      by (auto simp: explicit_merge_header_def explicit_merge_result_def Let_def logical_count_def checked_simps
          split: if_splits)
  qed
qed

section \<open>Reading the count\<close>

lemma word64_of_int_eq_1: "0 \<le> v \<Longrightarrow> v < 2 ^ 64 \<Longrightarrow> (word_of_int v :: 64 word) = 1 \<longleftrightarrow> v = 1"
  by (auto simp: word_uint_eq_iff uint_word_of_int)

lemma strong_count_of_merged:
  assumes "merged (SharedWord_from_raw raw)" "0 \<le> SharedCount_value (shared_count (SharedWord_from_raw raw))"
  shows "strong_count_of dbg me raw b =
     Inr (Inr (word_of_int (SharedCount_value (shared_count (SharedWord_from_raw raw)))))"
  using assms by (simp add: strong_count_of_def Let_def)

lemma strong_count_of_owned:
  assumes um: "\<not> merged (SharedWord_from_raw raw)" and own: "owner_id (BiasedWord_from_raw b) = result_ok me"
    and pos: "0 \<le> uint (biased_count (BiasedWord_from_raw b)) + SharedCount_value (shared_count (SharedWord_from_raw raw))"
  shows "strong_count_of dbg me raw b =
     Inr (Inr (word_of_int (uint (biased_count (BiasedWord_from_raw b))
                            + SharedCount_value (shared_count (SharedWord_from_raw raw)))))"
proof -
  let ?b = "biased_count (BiasedWord_from_raw b)" and ?n = "SharedCount_value (shared_count (SharedWord_from_raw raw))"
  have u: "uint (ucast ?b :: 64 word) = uint ?b"
    by (rule uint_up_ucast) (simp add: is_up)
  have "uint ?b < 2 ^ 20" "?n < 2 ^ 61"
    using unsigned_less [of ?b, where 'a = int] SharedCount_value_range(2) by simp_all
  then have "uint ?b + ?n < 2 ^ 64" by simp
  then have chk: "usize_checked_add_signed (ucast ?b) ?n = Some (word_of_int (uint ?b + ?n))"
    using pos unfolding usize_checked_add_signed_def u by simp
  have wrap: "(ucast ?b :: 64 word) + word_of_int ?n = word_of_int (uint ?b + ?n)"
    by (metis of_int_add u word_of_int_uint)
  show ?thesis
    using um own by (simp add: strong_count_of_def Let_def chk wrap del: of_int_add)
qed

lemma is_unique_of_merged:
  assumes "merged (SharedWord_from_raw raw)" "0 \<le> SharedCount_value (shared_count (SharedWord_from_raw raw))"
  shows "is_unique_of dbg me raw b = Inr (SharedCount_value (shared_count (SharedWord_from_raw raw)) = 1)"
  using assms SharedCount_value_range(2) [of "shared_count (SharedWord_from_raw raw)"]
  by (simp add: is_unique_of_def strong_count_of_merged word64_of_int_eq_1)

lemma is_unique_of_owned:
  assumes um: "\<not> merged (SharedWord_from_raw raw)" and own: "owner_id (BiasedWord_from_raw b) = result_ok me"
    and pos: "0 \<le> uint (biased_count (BiasedWord_from_raw b)) + SharedCount_value (shared_count (SharedWord_from_raw raw))"
  shows "is_unique_of dbg me raw b =
     Inr (uint (biased_count (BiasedWord_from_raw b)) + SharedCount_value (shared_count (SharedWord_from_raw raw)) = 1)"
proof -
  let ?n = "uint (biased_count (BiasedWord_from_raw b)) + SharedCount_value (shared_count (SharedWord_from_raw raw))"
  have "uint (biased_count (BiasedWord_from_raw b)) < 2 ^ 20"
    using unsigned_less [of "biased_count (BiasedWord_from_raw b)", where 'a = int] by simp
  then have "?n < 2 ^ 64"
    using SharedCount_value_range(2) [of "shared_count (SharedWord_from_raw raw)"] by simp
  then have "(word_of_int ?n :: 64 word) = 1 \<longleftrightarrow> ?n = 1"
    by (rule word64_of_int_eq_1 [OF pos])
  then show ?thesis
    unfolding is_unique_of_def strong_count_of_owned [OF um own pos] bind_checked.simps sum.case
    by (rule arg_cong [of _ _ Inr])
qed

text \<open>\<open>strong_count\<close> on a header between operations: exact where it can be, a lower bound elsewhere.\<close>

lemma strong_count_cases:
  assumes ok: "header_ok h"
  shows "strong_count dbg me h =
    (if merged (shared_of h) \<or> owner_id (biased_of h) = result_ok me
     then Inr (Inr (word_of_int (logical_count h)))
     else Inr (Inl (ImpreciseRefCountError (word_of_int (max (shared_value h) 0)))))"
proof (cases "merged (shared_of h)")
  case True
  then show ?thesis
    using ok strong_count_of_merged [of "shared_word h" dbg me "biased_word h"]
    by (simp add: strong_count_def header_ok_def logical_count_def)
next
  case False
  show ?thesis
  proof (cases "owner_id (biased_of h) = result_ok me")
    case True
    then show ?thesis
      using ok False strong_count_of_owned [OF False True, of dbg]
      by (simp add: strong_count_def header_ok_def logical_count_def)
  next
    case other: False
    then show ?thesis
      using False by (simp add: strong_count_def strong_count_of_def Let_def)
  qed
qed

section \<open>The weak count\<close>

lemma uint_WEAK_LOCKED_COUNT: "uint WEAK_LOCKED_COUNT = 2 ^ 32 - 1"
  by (simp add: WEAK_LOCKED_COUNT_def unsigned_minus_1_eq_mask mask_eq_exp_minus_1)

lemma uint_WEAK_OVERFLOW_THRESHOLD: "uint WEAK_OVERFLOW_THRESHOLD = 2 ^ 31 - 1"
  by (simp add: WEAK_OVERFLOW_THRESHOLD_def uint_div_distrib uint_WEAK_LOCKED_COUNT)

section \<open>Construction\<close>

lemma init_for_words:
  "shared_of (init_for None) = \<lparr>shared_count = 1, merged = True, queued = False\<rparr>"
  "biased_of (init_for None) = BiasedWord_UNOWNED"
  "shared_of (init_for (Some sid)) = \<lparr>shared_count = 0, merged = False, queued = False\<rparr>"
  "short_id_ok sid \<Longrightarrow> biased_of (init_for (Some sid)) = \<lparr>owner_id = Some sid, biased_count = 1\<rparr>"
  by (simp_all add: init_for_def BiasedWord_from_to biased_word_ok_def)

lemma init_for_counts_one:
  assumes "\<And>s. this_id = Some s \<Longrightarrow> short_id_ok s"
  shows "header_ok (init_for this_id)" "logical_count (init_for this_id) = 1" "carry_free (init_for this_id)"
    "\<not> is_dead (init_for this_id)" "shared_value (init_for this_id) < 2 ^ 60"
  using assms
  by (cases this_id; simp add: header_ok_def logical_count_def carry_free_def is_dead_def init_for_words
      SharedCount_value_def)+

text \<open>
  \<open>init\<close> never fails: it initialises the thread if it has to, and the header counts one reference,
  biased to the thread unless the thread has no id.
\<close>

lemma init_ok:
  assumes ok: "runtime_ok rt" and fresh: "tls rt t = Tls_uninit \<Longrightarrow> fresh_index index rt"
  obtains this_id rt' where "init q index t rt = Inr (init_for this_id, rt')" and "runtime_ok rt'"
    and "\<And>s. this_id = Some s \<Longrightarrow> short_id_ok s \<and> existing_short_id t rt' = Inr (Inr s)"
    and "runtime.more rt' = runtime.more rt"
proof -
  obtain r where r: "existing_short_id t rt = Inr r"
    using existing_short_id_total [OF runtime_okD(1) [OF ok]] by blast
  show thesis
  proof (cases "r = Inl Uninitialized")
    case True
    obtain v rt' where v: "with_current q index t rt = Inr (v, rt')" "runtime_ok rt'"
      "\<And>st. v = Inr st \<longleftrightarrow> tls rt' t = Tls_alive (Inr st)"
      by (rule with_current_ok [OF ok, of t index q]) (use fresh in auto)
    note frame = with_current_frame [OF v(1)]
    show thesis
    proof (cases v)
      case (Inl e)
      then have "init q index t rt = Inr (init_for None, rt')"
        using r True v(1) by (simp add: init_def init_tid_def)
      then show thesis using that [of None, OF _ v(2)] frame by simp
    next
      case (Inr state)
      then have "init q index t rt = Inr (init_for (Some (local_short_id state)), rt')"
        using r True v(1) by (simp add: init_def init_tid_def)
      moreover have e: "existing_short_id t rt' = Inr (Inr (local_short_id state))"
        using existing_short_id_Inr [OF runtime_okD(1) [OF v(2)]] v(3) Inr by blast
      ultimately show thesis
        using that [of "Some (local_short_id state)", OF _ v(2)] frame existing_short_id_ok(1) [OF v(2) e] by simp
    qed
  next
    case False
    show thesis
    proof (cases r)
      case (Inl e)
      then have "init q index t rt = Inr (init_for None, rt)"
        using r False by (cases e) (simp_all add: init_def)
      then show thesis using that [of None, OF _ ok] by simp
    next
      case (Inr s)
      then have "init q index t rt = Inr (init_for (Some s), rt)"
        using r by (simp add: init_def)
      then show thesis using that [of "Some s", OF _ ok] r Inr existing_short_id_ok(1) [OF ok, of t s] by simp
    qed
  qed
qed

end
