(* ===== verification/Header_Refinement.thy ===== *)
theory Header_Refinement
  imports Header_Counts
begin

text \<open>
  What the two words of a header implement: one counter that can be raised, lowered, raised unless
  it is gone, and merged, and that reports its end exactly once. The interface is the locale
  \<open>reference_counter\<close>; the operations of \<open>RawBrcHeader\<close> provide it.
\<close>

section \<open>Operations and answers\<close>

datatype counter_op = Increment access | Decrement access | Upgrade access | Merge_by ShortThreadId

datatype counter_answer = Counted | Should_drop bool | To_queue | Upgraded bool | Merged_zero bool

text \<open>The answers on which the caller destroys the value.\<close>

fun destroys :: "counter_answer \<Rightarrow> bool" where
  "destroys (Should_drop d) = d"
| "destroys (Merged_zero z) = z"
| "destroys _ = False"

text \<open>What the number of references changes by.\<close>

fun change :: "counter_op \<Rightarrow> counter_answer \<Rightarrow> int" where
  "change (Increment _) _ = 1"
| "change (Decrement _) _ = - 1"
| "change (Upgrade _) a = (if a = Upgraded True then 1 else 0)"
| "change (Merge_by _) _ = 0"

text \<open>The counter: \<open>None\<close> once it has ended, and otherwise the number of references.\<close>

fun counter_spec :: "counter_op \<Rightarrow> int option \<Rightarrow> counter_answer \<Rightarrow> int option \<Rightarrow> bool" where
  "counter_spec (Increment _) (Some n) a c \<longleftrightarrow> a = Counted \<and> c = Some (n + 1)"
| "counter_spec (Decrement _) (Some n) a c \<longleftrightarrow>
     a = Should_drop True \<and> n = 1 \<and> c = None \<or> a \<in> {Should_drop False, To_queue} \<and> c = Some (n - 1)"
| "counter_spec (Upgrade _) None a c \<longleftrightarrow> a = Upgraded False \<and> c = None"
| "counter_spec (Upgrade _) (Some n) a c \<longleftrightarrow> a = Upgraded True \<and> c = Some (n + 1)"
| "counter_spec (Merge_by _) (Some n) a c \<longleftrightarrow>
     a = Merged_zero (n = 0) \<and> c = (if n = 0 then None else Some n)"
| "counter_spec _ None _ _ = False"

text \<open>A sequence of operations, each of them allowed when it starts; \<open>None\<close> if one is not, or fails.\<close>

fun run_ops ::
  "(counter_op \<Rightarrow> 'h \<Rightarrow> bool) \<Rightarrow> (counter_op \<Rightarrow> 'h \<Rightarrow> (counter_answer \<times> 'h) checked)
    \<Rightarrow> counter_op list \<Rightarrow> 'h \<Rightarrow> ((counter_op \<times> counter_answer) list \<times> 'h) option" where
  "run_ops enabled step [] h = Some ([], h)"
| "run_ops enabled step (x # xs) h =
     (if enabled x h then
        (case step x h of
           Inl _ \<Rightarrow> None
         | Inr (a, h') \<Rightarrow> map_option (\<lambda>(as, h''). ((x, a) # as, h'')) (run_ops enabled step xs h'))
      else None)"

section \<open>The interface\<close>

locale reference_counter =
  fixes good :: "'h \<Rightarrow> bool" and counted :: "'h \<Rightarrow> int option"
    and enabled :: "counter_op \<Rightarrow> 'h \<Rightarrow> bool"
    and step :: "counter_op \<Rightarrow> 'h \<Rightarrow> (counter_answer \<times> 'h) checked"
  assumes step_ok: "good h \<Longrightarrow> enabled x h \<Longrightarrow>
    \<exists>a h'. step x h = Inr (a, h') \<and> good h' \<and> counter_spec x (counted h) a (counted h')"
begin

lemma stepE:
  assumes "good h" "enabled x h"
  obtains a h' where "step x h = Inr (a, h')" "good h'" "counter_spec x (counted h) a (counted h')"
  using step_ok [OF assms] by blast

text \<open>What one operation does to the counter.\<close>

lemma spec_effect:
  assumes "counter_spec x c a c'"
  shows "(destroys a \<longleftrightarrow> c \<noteq> None \<and> c' = None) \<and> (c = None \<longrightarrow> c' = None)
    \<and> (\<forall>n n'. c = Some n \<longrightarrow> c' = Some n' \<longrightarrow> n' = n + change x a)
    \<and> (\<forall>n. c = Some n \<longrightarrow> c' = None \<longrightarrow> n + change x a = 0)"
  using assms by (cases x; cases c) (auto split: if_splits)

text \<open>The end is reported once, by the operation that brings it about.\<close>

lemma run_effect:
  assumes "good h" "run_ops enabled step xs h = Some (as, h')"
  shows "good h' \<and> (counted h = None \<longrightarrow> counted h' = None)
    \<and> length (filter destroys (map snd as)) = (if counted h \<noteq> None \<and> counted h' = None then 1 else 0)
    \<and> (\<forall>n n'. counted h = Some n \<longrightarrow> counted h' = Some n' \<longrightarrow> n' = n + (\<Sum>(x, a)\<leftarrow>as. change x a))"
  using assms
proof (induction xs arbitrary: h as)
  case Nil
  then show ?case by auto
next
  case (Cons x xs)
  then have en: "enabled x h" by (auto split: if_splits)
  obtain a h1 where s: "step x h = Inr (a, h1)" "good h1" "counter_spec x (counted h) a (counted h1)"
    using Cons.prems(1) en by (rule stepE)
  obtain bs where r: "run_ops enabled step xs h1 = Some (bs, h')" "as = (x, a) # bs"
    using Cons.prems(2) en s(1) by auto
  note e = spec_effect [OF s(3)] and ih = Cons.IH [OF s(2) r(1)]
  show ?case
  proof (cases "counted h1")
    case None
    then have "counted h' = None" using ih by blast
    then show ?thesis using e ih None r(2) by auto
  next
    case (Some n1)
    then have "counted h \<noteq> None" "\<not> destroys a" using e by auto
    then show ?thesis using e ih Some r(2) by (auto split: if_splits)
  qed
qed

text \<open>A run ends early only at an operation that is not allowed.\<close>

lemma run_fails:
  assumes "good h" "run_ops enabled step xs h = None"
  shows "\<exists>ys x zs bs h'. xs = ys @ x # zs \<and> run_ops enabled step ys h = Some (bs, h') \<and> \<not> enabled x h'"
  using assms
proof (induction xs arbitrary: h)
  case Nil
  then show ?case by simp
next
  case (Cons x xs)
  show ?case
  proof (cases "enabled x h")
    case False
    then have "x # xs = [] @ x # xs \<and> run_ops enabled step [] h = Some ([], h) \<and> \<not> enabled x h" by simp
    then show ?thesis by blast
  next
    case True
    obtain a h1 where s: "step x h = Inr (a, h1)" "good h1" "counter_spec x (counted h) a (counted h1)"
      using Cons.prems(1) True by (rule stepE)
    then have "run_ops enabled step xs h1 = None" using Cons.prems(2) True by simp
    from Cons.IH [OF s(2) this] obtain ys y zs bs h'
      where y: "xs = ys @ y # zs" "run_ops enabled step ys h1 = Some (bs, h')" "\<not> enabled y h'" by blast
    have "x # xs = (x # ys) @ y # zs" "run_ops enabled step (x # ys) h = Some ((x, a) # bs, h')"
      using y s(1) True by simp_all
    then show ?thesis using y(3) by blast
  qed
qed

end

section \<open>The header provides it\<close>

definition header_counted :: "RawBrcHeader \<Rightarrow> int option" where
  "header_counted h = (if is_dead h then None else Some (logical_count h))"

text \<open>
  What a caller guarantees: it holds a reference when it drops one, only the owner's id is merged,
  and a plain increment happens when the shared count is not \<open>-1\<close> and far from overflow.
\<close>

fun header_enabled :: "counter_op \<Rightarrow> RawBrcHeader \<Rightarrow> bool" where
  "header_enabled (Increment _) h \<longleftrightarrow> \<not> is_dead h \<and> carry_free h \<and> shared_value h < 2 ^ 60"
| "header_enabled (Decrement _) h \<longleftrightarrow> 0 < logical_count h"
| "header_enabled (Upgrade _) h \<longleftrightarrow> shared_value h < 2 ^ 60"
| "header_enabled (Merge_by sid) h \<longleftrightarrow> owner_id (biased_of h) = Some sid \<and> shared_value h < 2 ^ 60"

fun header_step :: "bool \<Rightarrow> counter_op \<Rightarrow> RawBrcHeader \<Rightarrow> (counter_answer \<times> RawBrcHeader) checked" where
  "header_step dbg (Increment me) h = bind_checked (increment_strong dbg me h) (\<lambda>h'. Inr (Counted, h'))"
| "header_step dbg (Decrement me) h = bind_checked (decrement_strong dbg me [] h) (\<lambda>(r, h').
     Inr (case r of Shared_done d \<Rightarrow> Should_drop d | Do_queue \<Rightarrow> To_queue, h'))"
| "header_step dbg (Upgrade me) h = bind_checked (increment_strong_unless_zero dbg me [] h) (\<lambda>r.
     Inr (case r of Inl _ \<Rightarrow> (Upgraded False, h) | Inr h' \<Rightarrow> (Upgraded True, h')))"
| "header_step dbg (Merge_by sid) h = bind_checked (explicit_merge_header sid [] h) (\<lambda>(z, h').
     Inr (Merged_zero z, h'))"

lemma dead_after_zero: "header_ok h \<Longrightarrow> is_dead h \<Longrightarrow> logical_count h = 0"
  by (rule header_ok_dead)

lemma not_dead_increment:
  assumes "increment_strong dbg me h = Inr h'" "header_ok h'" "logical_count h' = logical_count h + 1"
    "header_ok h" "\<not> is_dead h"
  shows "\<not> is_dead h'"
proof
  assume "is_dead h'"
  then have "logical_count h = - 1" using header_ok_dead [OF assms(2)] assms(3) by simp
  then show False using assms(4) by (auto simp: header_ok_def logical_count_def split: if_splits)
qed

lemma logical_count_nonneg: "header_ok h \<Longrightarrow> 0 \<le> logical_count h"
  by (auto simp: header_ok_def logical_count_def split: if_splits)

lemma header_step_ok:
  assumes ok: "header_ok h" and en: "header_enabled x h"
  shows "\<exists>a h'. header_step dbg x h = Inr (a, h') \<and> header_ok h'
    \<and> counter_spec x (header_counted h) a (header_counted h')"
proof (cases x)
  case (Increment me)
  then have e: "\<not> is_dead h" "carry_free h" "shared_value h < 2 ^ 60" using en by simp_all
  obtain h' where h': "increment_strong dbg me h = Inr h'"
    using increment_strong_error [OF ok, of dbg me] e(3) by (cases "increment_strong dbg me h") auto
  note i = increment_strong_ok [OF ok e(2) h']
  have "\<not> is_dead h'" using not_dead_increment [OF h' _ _ ok e(1)] i by blast
  then show ?thesis using Increment h' i e(1) by (simp add: header_counted_def)
next
  case (Decrement me)
  then have pos: "0 < logical_count h" using en by simp
  then have nd: "\<not> is_dead h" using header_ok_dead [OF ok] by auto
  obtain r h' where r: "decrement_strong dbg me [] h = Inr (r, h')" "decrement_post h r h'"
    using decrement_strong_ok [OF ok pos] by blast
  show ?thesis
    using Decrement r nd header_ok_dead [of h']
    by (cases r) (auto simp: header_counted_def decrement_post_def is_dead_def)
next
  case (Upgrade me)
  obtain r where r: "increment_strong_unless_zero dbg me [] h = Inr r"
    using increment_strong_unless_zero_no_error [OF ok] en Upgrade by auto
  show ?thesis
  proof (cases r)
    case (Inl z)
    then show ?thesis
      using increment_strong_unless_zero_ok [OF ok r] Upgrade r ok by (simp add: header_counted_def)
  next
    case (Inr h')
    then have i: "\<not> is_dead h" "header_ok h'" "logical_count h' = logical_count h + 1"
      using increment_strong_unless_zero_ok [OF ok r] by simp_all
    then have "\<not> is_dead h'"
      using header_ok_dead [of h'] logical_count_nonneg [OF ok] by auto
    then show ?thesis using Upgrade r Inr i by (simp add: header_counted_def)
  qed
next
  case (Merge_by sid)
  then have e: "owner_id (biased_of h) = Some sid" "shared_value h < 2 ^ 60" using en by simp_all
  obtain z h' where m: "explicit_merge_header sid [] h = Inr (z, h')"
    using explicit_merge_header_error [OF ok e(1)] e(2) by (cases "explicit_merge_header sid [] h") auto
  note k = explicit_merge_header_ok [OF ok e(1) m]
  have "\<not> is_dead h" using ok e(1) by (auto simp: is_dead_def header_ok_def)
  moreover have "z \<longleftrightarrow> logical_count h = 0"
    using k by (auto simp: is_dead_def logical_count_def)
  ultimately show ?thesis using Merge_by m k by (auto simp: header_counted_def)
qed

interpretation hc: reference_counter header_ok header_counted header_enabled "header_step dbg" for dbg
  by unfold_locales (rule header_step_ok)

text \<open>
  C19. Each operation on a header, allowed when it starts, returns and does what the counter does:
  an increment and a successful upgrade add one, a decrement takes one away, a merge keeps the
  number, an upgrade fails exactly when the counter has ended, and the counter ends when a decrement
  or a merge says so.
\<close>

theorem header_implements_counter:
  assumes "header_ok h" "header_enabled x h"
  shows "\<exists>a h'. header_step dbg x h = Inr (a, h') \<and> header_ok h'
    \<and> counter_spec x (header_counted h) a (header_counted h')"
  by (rule hc.step_ok [OF assms])

text \<open>
  C18. Over any sequence of operations on a new header, by any threads, the count is one plus the
  increments minus the decrements, and the value is reported for destruction once if the counter has
  ended and not at all otherwise.
\<close>

theorem destroyed_exactly_once:
  assumes "\<And>s. owner = Some s \<Longrightarrow> short_id_ok s"
    "run_ops header_enabled (header_step dbg) ops (init_for owner) = Some (as, h)"
  shows "length (filter destroys (map snd as)) = (if is_dead h then 1 else 0)
    \<and> (is_dead h \<or> logical_count h = 1 + (\<Sum>(x, a)\<leftarrow>as. change x a))"
proof -
  note i = init_for_counts_one [of owner, OF assms(1)]
  show ?thesis
    using hc.run_effect [OF i(1) assms(2)] i(2,4) by (auto simp: header_counted_def split: if_splits)
qed

theorem header_implements_counter_witness:
  "\<exists>a h'. header_step True (Decrement (Inl Uninitialized)) (init_for None) = Inr (a, h')
    \<and> header_ok h' \<and> counter_spec (Decrement (Inl Uninitialized)) (Some 1) a (header_counted h')"
proof -
  have i: "header_ok (init_for None)" "logical_count (init_for None) = 1" "\<not> is_dead (init_for None)"
    by (rule init_for_counts_one; simp)+
  then show ?thesis
    using header_implements_counter [OF i(1), of "Decrement (Inl Uninitialized)" True]
    by (simp add: header_counted_def)
qed

theorem destroyed_exactly_once_witness:
  "\<exists>as h. run_ops header_enabled (header_step True) [Decrement (Inl Uninitialized)] (init_for None) = Some (as, h)
    \<and> length (filter destroys (map snd as)) = (if is_dead h then 1 else 0)"
proof -
  have i: "header_ok (init_for None)" "logical_count (init_for None) = 1"
    by (rule init_for_counts_one; simp)+
  then obtain as h where
    r: "run_ops header_enabled (header_step True) [Decrement (Inl Uninitialized)] (init_for None) = Some (as, h)"
    using header_step_ok [OF i(1), of "Decrement (Inl Uninitialized)" True] by auto
  show ?thesis using destroyed_exactly_once [of None, OF _ r] r by blast
qed

end
