(* ===== verification/Protocol.thy ===== *)
theory Protocol
  imports Header_Counts "HOL-Library.Multiset"
begin

text \<open>
  The life of one object under any interleaving of the threads that use it, one atomic access at a
  time. A thread's position inside an operation is a program counter \<open>pc\<close> that names the next
  atomic access and carries the values read so far; \<open>advance\<close> performs that access, with the
  functions of \<open>Header\<close> for what is computed between two accesses. Operations modelled:
  \<open>increment_strong\<close>, \<open>increment_strong_shared\<close>, \<open>increment_strong_unless_zero\<close> (from
  \<open>Weak::upgrade\<close>), \<open>decrement_strong\<close> with its queueing, \<open>explicit_merge\<close>, \<open>erased_dealloc\<close> with
  \<open>drop_weak\<close>, \<open>Brc::is_unique\<close> as \<open>get_mut\<close> uses it, \<open>Brc::downgrade\<close>, and clone and drop of
  \<open>Weak\<close>. Accesses are sequentially consistent: the weaker orderings of the source are not
  modelled. A check that only looks at the value an access returned happens together with it. The
  one operation that is coarser than an access is \<open>queue_object\<close>: its accesses to the shared state
  of the owner are the single step of \<open>Dec_push\<close> here, and are split in \<open>Queue_Protocol\<close>, whose
  runs \<open>Queue_Refinement\<close> maps to the steps here.

  The references that exist are tokens: \<open>refs\<close> holds one token per strong reference and \<open>weaks\<close>
  one per weak reference, labelled with the thread that owns it. An operation that only borrows a
  reference names the lender, whose token cannot go away meanwhile; an operation that consumes a
  reference, or has it borrowed mutably, uses a token of its own thread exclusively. This is what
  Rust's ownership and borrowing rules enforce for callers.
\<close>

section \<open>Program counters\<close>

datatype pc =
    Idle
    \<comment> \<open>\<open>increment_strong\<close> through a reference of the given lender\<close>
  | Inc_load thread
  | Inc_store thread "32 word"
  | Inc_shared thread
    \<comment> \<open>\<open>increment_strong_unless_zero\<close> through a weak reference of the given lender\<close>
  | Up_load thread
  | Up_store thread "32 word"
  | Up_shared thread
  | Up_cas thread "64 word"
    \<comment> \<open>\<open>decrement_strong\<close>\<close>
  | Dec_load
  | Dec_store "32 word"
  | Dec_slow
  | Dec_unown bool
  | Dec_shared
  | Dec_cas "64 word"
  | Dec_owner
  | Dec_push ShortThreadId
    \<comment> \<open>\<open>explicit_merge\<close>\<close>
  | Merge_biased
  | Merge_shared "32 word"
  | Merge_cas "32 word" "64 word"
  | Merge_unown "64 word"
    \<comment> \<open>\<open>erased_dealloc\<close>\<close>
  | Drop_value
  | Drop_weak
    \<comment> \<open>\<open>Brc::is_unique\<close>, then the exclusive borrow that \<open>get_mut\<close> hands out\<close>
  | Uniq_load
  | Uniq_lock
  | Uniq_shared
  | Uniq_biased "64 word"
  | Uniq_unlock bool
  | Mut
    \<comment> \<open>\<open>Brc::downgrade\<close> through a reference of the given lender\<close>
  | Down_load thread
  | Down_cas thread "32 word"

text \<open>Whose strong or weak reference the operation borrows; whether it uses one of its own exclusively.\<close>

fun borrows :: "pc \<Rightarrow> thread option" where
  "borrows (Inc_load u) = Some u"
| "borrows (Inc_store u _) = Some u"
| "borrows (Inc_shared u) = Some u"
| "borrows (Down_load u) = Some u"
| "borrows (Down_cas u _) = Some u"
| "borrows _ = None"

fun borrows_weak :: "pc \<Rightarrow> thread option" where
  "borrows_weak (Up_load u) = Some u"
| "borrows_weak (Up_store u _) = Some u"
| "borrows_weak (Up_shared u) = Some u"
| "borrows_weak (Up_cas u _) = Some u"
| "borrows_weak _ = None"

fun exclusive :: "pc \<Rightarrow> bool" where
  "exclusive Dec_load = True"
| "exclusive (Dec_store _) = True"
| "exclusive Dec_slow = True"
| "exclusive Dec_shared = True"
| "exclusive (Dec_cas _) = True"
| "exclusive Uniq_load = True"
| "exclusive Uniq_lock = True"
| "exclusive Uniq_shared = True"
| "exclusive (Uniq_biased _) = True"
| "exclusive (Uniq_unlock _) = True"
| "exclusive Mut = True"
| "exclusive _ = False"

section \<open>States\<close>

text \<open>
  \<open>owner_dead\<close>: the owner's thread-local state is gone, so it no longer touches the biased count.
  \<open>queue_alive\<close>: the \<open>Weak\<close> pointer to the owner's queue can be upgraded. \<open>in_queue\<close>: the object is
  in that queue. \<open>drops\<close> counts how often the value has been dropped.
\<close>

record state =
  hdr :: RawBrcHeader
  weak :: "32 word"
  refs :: "thread multiset"
  weaks :: "thread multiset"
  pcs :: "thread \<Rightarrow> pc"
  in_queue :: bool
  owner_dead :: bool
  queue_alive :: bool
  drops :: nat
  freed :: bool

text \<open>
  What is fixed during a run: the build, the owner thread with its short id, and the answer of
  \<open>existing_short_id\<close> on the other threads (never the owner's id, as ids are unique).
\<close>

record params =
  debug :: bool
  owner :: thread
  owner_sid :: ShortThreadId
  others :: "thread \<Rightarrow> access"

definition params_ok :: "params \<Rightarrow> bool" where
  "params_ok P \<longleftrightarrow> short_id_ok (owner_sid P) \<and> (\<forall>t. others P t \<noteq> Inr (owner_sid P))"

definition me :: "params \<Rightarrow> state \<Rightarrow> thread \<Rightarrow> access" where
  "me P s t = (if t = owner P then (if owner_dead s then Inl AccessDead else Inr (owner_sid P)) else others P t)"

definition goto :: "thread \<Rightarrow> pc \<Rightarrow> state \<Rightarrow> state" where
  "goto t c s = s\<lparr>pcs := (pcs s)(t := c)\<rparr>"

definition lent :: "state \<Rightarrow> thread \<Rightarrow> bool" where
  "lent s u \<longleftrightarrow> (\<exists>t. borrows (pcs s t) = Some u)"

definition lent_weak :: "state \<Rightarrow> thread \<Rightarrow> bool" where
  "lent_weak s u \<longleftrightarrow> (\<exists>t. borrows_weak (pcs s t) = Some u)"

text \<open>\<open>RawBrcHeader::init\<close> on the owner, and on a thread that has no short id.\<close>

definition start :: "params \<Rightarrow> state" where
  "start P =
     \<lparr>hdr = init_for (Some (owner_sid P)), weak = 1, refs = {#owner P#}, weaks = {#}, pcs = \<lambda>_. Idle,
      in_queue = False, owner_dead = False, queue_alive = True, drops = 0, freed = False\<rparr>"

definition start_unowned :: "thread \<Rightarrow> state" where
  "start_unowned t =
     \<lparr>hdr = init_for None, weak = 1, refs = {#t#}, weaks = {#}, pcs = \<lambda>_. Idle,
      in_queue = False, owner_dead = False, queue_alive = True, drops = 0, freed = False\<rparr>"

section \<open>Atomic accesses\<close>

text \<open>Which program counters access the header (and not the queue) next.\<close>

fun touches :: "pc \<Rightarrow> bool" where
  "touches Idle = False"
| "touches Mut = False"
| "touches (Dec_push _) = False"
| "touches _ = True"

definition set_shared :: "64 word \<Rightarrow> state \<Rightarrow> state" where
  "set_shared raw s = s\<lparr>hdr := (hdr s)\<lparr>shared_word := raw\<rparr>\<rparr>"

definition set_biased :: "32 word \<Rightarrow> state \<Rightarrow> state" where
  "set_biased raw s = s\<lparr>hdr := (hdr s)\<lparr>biased_word := raw\<rparr>\<rparr>"

definition gain :: "thread \<Rightarrow> state \<Rightarrow> state" where
  "gain t s = s\<lparr>refs := add_mset t (refs s)\<rparr>"

definition lose :: "thread \<Rightarrow> state \<Rightarrow> state" where
  "lose t s = s\<lparr>refs := refs s - {#t#}\<rparr>"

text \<open>\<open>BrcHeader::drop_weak\<close>: a \<open>fetch_sub(1)\<close>; the last one frees the memory.\<close>

definition weak_sub :: "state \<Rightarrow> state" where
  "weak_sub s = s\<lparr>weak := weak s - 1, freed := (weak s = 1)\<rparr>"

text \<open>What \<open>downgrade\<close> does with a weak count it has read.\<close>

definition downgrade_read :: "thread \<Rightarrow> thread \<Rightarrow> state \<Rightarrow> state checked" where
  "downgrade_read t u s =
     (if weak s = WEAK_LOCKED_COUNT then Inr (goto t (Down_load u) s)
      else if weak s > WEAK_OVERFLOW_THRESHOLD then Inl (Fatal Weak_refcnt_overflow)
      else Inr (goto t (Down_cas u (weak s)) s))"

fun access :: "params \<Rightarrow> thread \<Rightarrow> pc \<Rightarrow> state \<Rightarrow> state checked" where
  "access P t Idle s = Inr s"
| "access P t Mut s = Inr s"
| "access P t (Inc_load u) s =
     bind_checked (attempt_biased_increment (debug P) (me P s t) (biased_word (hdr s))) (\<lambda>r.
       Inr (goto t (case r of Some raw \<Rightarrow> Inc_store u raw | None \<Rightarrow> Inc_shared u) s))"
| "access P t (Inc_store u raw) s = Inr (goto t Idle (gain t (set_biased raw s)))"
| "access P t (Inc_shared u) s =
     bind_checked (increment_strong_shared (shared_word (hdr s))) (\<lambda>raw.
       Inr (goto t Idle (gain t (set_shared raw s))))"
| "access P t (Up_load u) s =
     bind_checked (attempt_biased_increment (debug P) (me P s t) (biased_word (hdr s))) (\<lambda>r.
       Inr (goto t (case r of Some raw \<Rightarrow> Up_store u raw | None \<Rightarrow> Up_shared u) s))"
| "access P t (Up_store u raw) s = Inr (goto t Idle (gain t (set_biased raw s)))"
| "access P t (Up_shared u) s = Inr (goto t (Up_cas u (shared_word (hdr s))) s)"
| "access P t (Up_cas u old) s =
     bind_checked (unless_zero_update (debug P) old) (\<lambda>r.
       Inr (case r of
          None \<Rightarrow> goto t Idle s
        | Some new \<Rightarrow>
            if shared_word (hdr s) = old then goto t Idle (gain t (set_shared new s))
            else goto t (Up_cas u (shared_word (hdr s))) s))"
| "access P t Dec_load s =
     bind_checked (decrement_biased_next (debug P) (me P s t) (biased_word (hdr s))) (\<lambda>r.
       Inr (goto t (case r of
          None \<Rightarrow> Dec_shared
        | Some (Biased_store raw) \<Rightarrow> Dec_store raw
        | Some Biased_slow \<Rightarrow> Dec_slow) s))"
| "access P t (Dec_store raw) s = Inr (goto t Idle (lose t (set_biased raw s)))"
| "access P t Dec_slow s =
     bind_checked (decrement_biased_slow_result (debug P) (shared_word (hdr s))) (\<lambda>should_drop.
       Inr (goto t (Dec_unown should_drop) (lose t (set_shared (shared_word (hdr s) OR MERGED_BIT) s))))"
| "access P t (Dec_unown should_drop) s =
     Inr (goto t (if should_drop then Drop_value else Idle) (set_biased (BiasedWord_to_raw BiasedWord_UNOWNED) s))"
| "access P t Dec_shared s = Inr (goto t (Dec_cas (shared_word (hdr s))) s)"
| "access P t (Dec_cas old) s =
     bind_checked (decrement_shared_next old) (\<lambda>new.
       if shared_word (hdr s) = old
       then bind_checked (decrement_shared_result (debug P) old new) (\<lambda>r.
              Inr (goto t (case r of
                 Do_queue \<Rightarrow> Dec_owner
               | Shared_done should_drop \<Rightarrow> if should_drop then Drop_value else Idle)
               (lose t (set_shared new s))))
       else Inr (goto t (Dec_cas (shared_word (hdr s))) s))"
| "access P t Dec_owner s =
     (case owner_id (biased_of (hdr s)) of
        None \<Rightarrow> Inl (Undefined Negative_refcnt_no_owner)
      | Some sid \<Rightarrow> Inr (goto t (Dec_push sid) s))"
| "access P t (Dec_push sid) s =
     Inr (if queue_alive s then goto t Idle (s\<lparr>in_queue := True\<rparr>) else goto t Merge_biased s)"
| "access P t Merge_biased s =
     (if owner_id (biased_of (hdr s)) \<noteq> Some (owner_sid P) then Inl (Undefined Explicit_merge_bad_id)
      else Inr (goto t (Merge_shared (biased_word (hdr s))) s))"
| "access P t (Merge_shared biased) s = Inr (goto t (Merge_cas biased (shared_word (hdr s))) s)"
| "access P t (Merge_cas biased old) s =
     bind_checked (explicit_merge_next biased old) (\<lambda>new.
       Inr (if shared_word (hdr s) = old then goto t (Merge_unown new) (set_shared new s)
            else goto t (Merge_cas biased (shared_word (hdr s))) s))"
| "access P t (Merge_unown new) s =
     bind_checked (explicit_merge_result new) (\<lambda>zero.
       Inr (goto t (if zero then Drop_value else Idle) (set_biased (BiasedWord_to_raw BiasedWord_UNOWNED) s)))"
| "access P t Drop_value s =
     (if drops s = 0 then Inr (goto t Drop_weak (s\<lparr>drops := 1\<rparr>)) else Inl Double_drop)"
| "access P t Drop_weak s = Inr (goto t Idle (weak_sub s))"
| "access P t Uniq_load s =
     Inr (goto t (if is_definitely_not_unique (me P s t) (biased_word (hdr s)) then Idle else Uniq_lock) s)"
| "access P t Uniq_lock s =
     Inr (if weak s = 1 then goto t Uniq_shared (s\<lparr>weak := WEAK_LOCKED_COUNT\<rparr>) else goto t Idle s)"
| "access P t Uniq_shared s = Inr (goto t (Uniq_biased (shared_word (hdr s))) s)"
| "access P t (Uniq_biased shared) s =
     bind_checked (is_unique_of (debug P) (me P s t) shared (biased_word (hdr s))) (\<lambda>unique.
       Inr (goto t (Uniq_unlock unique) s))"
| "access P t (Uniq_unlock unique) s = Inr (goto t (if unique then Mut else Idle) (s\<lparr>weak := 1\<rparr>))"
| "access P t (Down_load u) s = downgrade_read t u s"
| "access P t (Down_cas u old) s =
     (if weak s = old then Inr (goto t Idle (s\<lparr>weak := old + 1, weaks := add_mset t (weaks s)\<rparr>))
      else downgrade_read t u s)"

definition advance :: "params \<Rightarrow> thread \<Rightarrow> state \<Rightarrow> state checked" where
  "advance P t s =
     (if freed s \<and> touches (pcs s t) then Inl Use_after_free else access P t (pcs s t) s)"

text \<open>
  A weak exchange may fail for no reason; the loop then continues with the value it returned, which
  is the current one. This is possible only where the loop reaches its exchange: the checks of the
  loop body on the value read before come first. \<open>downgrade\<close> checks the returned value like one
  it has loaded.
\<close>

fun spurious :: "params \<Rightarrow> thread \<Rightarrow> pc \<Rightarrow> state \<Rightarrow> state checked option" where
  "spurious P t (Up_cas u old) s =
     (case unless_zero_update (debug P) old of
        Inr (Some new) \<Rightarrow> Some (Inr (goto t (Up_cas u (shared_word (hdr s))) s))
      | _ \<Rightarrow> None)"
| "spurious P t (Dec_cas old) s =
     (case decrement_shared_next old of
        Inr new \<Rightarrow> Some (Inr (goto t (Dec_cas (shared_word (hdr s))) s))
      | Inl e \<Rightarrow> None)"
| "spurious P t (Merge_cas biased old) s =
     (case explicit_merge_next biased old of
        Inr new \<Rightarrow> Some (Inr (goto t (Merge_cas biased (shared_word (hdr s))) s))
      | Inl e \<Rightarrow> None)"
| "spurious P t (Down_cas u old) s = Some (downgrade_read t u s)"
| "spurious P t _ s = None"

lemma spurious_pc:
  assumes "spurious P t c s = Some r"
  shows "(\<exists>u old. c = Up_cas u old \<and> r = Inr (goto t (Up_cas u (shared_word (hdr s))) s))
    \<or> (\<exists>old. c = Dec_cas old \<and> r = Inr (goto t (Dec_cas (shared_word (hdr s))) s))
    \<or> (\<exists>b old. c = Merge_cas b old \<and> r = Inr (goto t (Merge_cas b (shared_word (hdr s))) s))
    \<or> (\<exists>u old. c = Down_cas u old \<and> r = downgrade_read t u s)"
  using assms by (cases c) (auto split: sum.splits option.splits)

section \<open>Actions\<close>

text \<open>
  What can happen next: a thread in the middle of an operation performs its next access; an idle
  thread starts an operation, for which it needs a reference it owns or may borrow; a thread passes
  a reference to another; the owner collects an object from its queue; the owner's thread-local
  state is destroyed (\<open>Die\<close>), and later its queue goes away (\<open>Close\<close>), with what is still queued
  merged by whoever drops the queue.
\<close>

datatype action =
    Step thread
  | Spurious thread
  | Clone thread thread
  | Clone_shared thread thread
  | Drop thread
  | Upgrade thread thread
  | Downgrade thread thread
  | Get_mut thread
  | Release thread
  | Weak_clone thread thread
  | Weak_drop thread
  | Send thread thread
  | Send_weak thread thread
  | Collect thread
  | Die
  | Close

text \<open>A token of \<open>u\<close> that can be lent, and one that \<open>t\<close> can give away or use exclusively.\<close>

definition lendable :: "state \<Rightarrow> thread \<Rightarrow> bool" where
  "lendable s u \<longleftrightarrow> of_bool (exclusive (pcs s u)) < count (refs s) u"

definition spare :: "state \<Rightarrow> thread \<Rightarrow> bool" where
  "spare s t \<longleftrightarrow> of_bool (exclusive (pcs s t)) + of_bool (lent s t) < count (refs s) t"

definition spare_weak :: "state \<Rightarrow> thread \<Rightarrow> bool" where
  "spare_weak s t \<longleftrightarrow> of_bool (lent_weak s t) < count (weaks s) t"

definition begin_op :: "bool \<Rightarrow> thread \<Rightarrow> pc \<Rightarrow> state \<Rightarrow> state checked option" where
  "begin_op allowed t c s = (if pcs s t = Idle \<and> allowed then Some (Inr (goto t c s)) else None)"

fun act :: "params \<Rightarrow> action \<Rightarrow> state \<Rightarrow> state checked option" where
  "act P (Step t) s = (if pcs s t \<in> {Idle, Mut} then None else Some (advance P t s))"
| "act P (Spurious t) s =
     (case spurious P t (pcs s t) s of
        None \<Rightarrow> None
      | Some r \<Rightarrow> Some (if freed s then Inl Use_after_free else r))"
| "act P (Clone t u) s = begin_op (lendable s u) t (Inc_load u) s"
| "act P (Clone_shared t u) s = begin_op (lendable s u) t (Inc_shared u) s"
| "act P (Drop t) s = begin_op (spare s t) t Dec_load s"
| "act P (Upgrade t u) s = begin_op (u \<in># weaks s) t (Up_load u) s"
| "act P (Downgrade t u) s = begin_op (lendable s u) t (Down_load u) s"
| "act P (Get_mut t) s = begin_op (spare s t) t Uniq_load s"
| "act P (Release t) s = (if pcs s t = Mut then Some (Inr (goto t Idle s)) else None)"
| "act P (Weak_clone t u) s =
     (if pcs s t = Idle \<and> u \<in># weaks s
      then Some (if freed s then Inl Use_after_free
                 else if weak s > WEAK_OVERFLOW_THRESHOLD then Inl (Fatal Weak_refcnt_overflow)
                 else Inr (s\<lparr>weak := weak s + 1, weaks := add_mset t (weaks s)\<rparr>))
      else None)"
| "act P (Weak_drop t) s =
     (if pcs s t = Idle \<and> spare_weak s t
      then Some (if freed s then Inl Use_after_free
                 else Inr (weak_sub (s\<lparr>weaks := weaks s - {#t#}\<rparr>)))
      else None)"
| "act P (Send t u) s = (if spare s t then Some (Inr (gain u (lose t s))) else None)"
| "act P (Send_weak t u) s =
     (if spare_weak s t then Some (Inr (s\<lparr>weaks := add_mset u (weaks s - {#t#})\<rparr>)) else None)"
| "act P (Collect t) s =
     (if pcs s t = Idle \<and> in_queue s \<and> (t = owner P \<or> owner_dead s)
      then Some (Inr (goto t Merge_biased (s\<lparr>in_queue := False\<rparr>))) else None)"
| "act P Die s =
     (if pcs s (owner P) = Idle \<and> \<not> owner_dead s then Some (Inr (s\<lparr>owner_dead := True\<rparr>)) else None)"
| "act P Close s = (if owner_dead s then Some (Inr (s\<lparr>queue_alive := False\<rparr>)) else None)"

text \<open>Runs of a given schedule, and the states that can be reached.\<close>

fun run :: "params \<Rightarrow> action list \<Rightarrow> state \<Rightarrow> state checked option" where
  "run P [] s = Some (Inr s)"
| "run P (a # as) s =
     (case act P a s of
        None \<Rightarrow> None
      | Some (Inl e) \<Rightarrow> Some (Inl e)
      | Some (Inr s') \<Rightarrow> run P as s')"

inductive reachable :: "params \<Rightarrow> state \<Rightarrow> bool" for P :: params where
  reachable_start: "reachable P (start P)"
| reachable_start_unowned: "reachable P (start_unowned t)"
| reachable_step: "reachable P s \<Longrightarrow> act P a s = Some (Inr s') \<Longrightarrow> reachable P s'"

text \<open>
  A step that increments the shared count while it is negative and not merged. The object is then
  queued, or about to be, and the protocol of the source relies on this not happening.
\<close>

definition waiting :: "state \<Rightarrow> bool" where
  "waiting s \<longleftrightarrow> \<not> merged (shared_of (hdr s)) \<and> shared_value (hdr s) < 0"

definition disturbs :: "action \<Rightarrow> state \<Rightarrow> bool" where
  "disturbs a s \<longleftrightarrow> waiting s \<and> (\<exists>t. a = Step t \<and> (\<exists>u old. pcs s t = Inc_shared u \<or> pcs s t = Up_cas u old))"

inductive reachable_quiet :: "params \<Rightarrow> state \<Rightarrow> bool" for P :: params where
  quiet_start: "reachable_quiet P (start P)"
| quiet_start_unowned: "reachable_quiet P (start_unowned t)"
| quiet_step: "reachable_quiet P s \<Longrightarrow> act P a s = Some (Inr s') \<Longrightarrow> \<not> disturbs a s \<Longrightarrow> reachable_quiet P s'"

end
