(* ===== verification/Protocol_Invariant.thy ===== *)
theory Protocol_Invariant
  imports Protocol
begin

text \<open>
  The invariant of the interleaved model, one conjunct per concern: the tokens in use, the two
  counts, who is responsible for the queued object, for releasing ownership, for dropping the
  value, what the weak count says, and what each thread knows at its program counter. It holds in
  every state that is reached without an increment of a negative unmerged shared count.
\<close>

section \<open>Roles of program counters\<close>

fun holder :: "pc \<Rightarrow> bool" where
  "holder Dec_owner = True"
| "holder (Dec_push _) = True"
| "holder Merge_biased = True"
| "holder (Merge_shared _) = True"
| "holder (Merge_cas _ _) = True"
| "holder _ = False"

fun unowner :: "pc \<Rightarrow> bool" where
  "unowner (Dec_unown _) = True"
| "unowner (Merge_unown _) = True"
| "unowner _ = False"

abbreviation count_of_raw :: "64 word \<Rightarrow> int" where
  "count_of_raw raw \<equiv> SharedCount_value (shared_count (SharedWord_from_raw raw))"

fun dropper :: "pc \<Rightarrow> bool" where
  "dropper (Dec_unown d) = d"
| "dropper (Merge_unown new) = (count_of_raw new = 0)"
| "dropper Drop_value = True"
| "dropper _ = False"

fun locker :: "pc \<Rightarrow> bool" where
  "locker Uniq_shared = True"
| "locker (Uniq_biased _) = True"
| "locker (Uniq_unlock _) = True"
| "locker _ = False"

fun weak_dropper :: "pc \<Rightarrow> bool" where
  "weak_dropper Drop_weak = True"
| "weak_dropper _ = False"

text \<open>The threads that play a role.\<close>

definition whose :: "(pc \<Rightarrow> bool) \<Rightarrow> (thread \<Rightarrow> pc) \<Rightarrow> thread set" where
  "whose role f = {t. role (f t)}"

lemma whose_upd: "whose role (f(t := c)) = (if role c then insert t (whose role f) else whose role f - {t})"
  by (auto simp: whose_def)

lemma whose_upd_same: "role c = role (f t) \<Longrightarrow> whose role (f(t := c)) = whose role f"
  by (auto simp: whose_def)

lemma in_whose: "t \<in> whose role f \<longleftrightarrow> role (f t)"
  by (simp add: whose_def)

definition alone :: "thread set \<Rightarrow> bool" where
  "alone T \<longleftrightarrow> (\<exists>t. T = {t})"

lemma alone_eq: "alone T \<Longrightarrow> t \<in> T \<Longrightarrow> T = {t}"
  by (auto simp: alone_def)

lemma alone_single [simp]: "alone {t}"
  by (auto simp: alone_def)

lemma alone_not_empty [simp]: "\<not> alone {}"
  by (auto simp: alone_def)

section \<open>The conjuncts\<close>

text \<open>Every token that is used exclusively or lent is there, and the two are different tokens.\<close>

definition tokens_ok :: "state \<Rightarrow> bool" where
  "tokens_ok s \<longleftrightarrow> (\<forall>u. of_bool (exclusive (pcs s u)) + of_bool (lent s u) \<le> count (refs s) u)"

definition weak_tokens_ok :: "state \<Rightarrow> bool" where
  "weak_tokens_ok s \<longleftrightarrow> (\<forall>u. of_bool (lent_weak s u) \<le> count (weaks s) u)"

text \<open>The counts stand for the tokens, and an unmerged object is queued exactly below zero.\<close>

definition counts_ok :: "params \<Rightarrow> state \<Rightarrow> bool" where
  "counts_ok P s \<longleftrightarrow>
     (if merged (shared_of (hdr s))
      then shared_value (hdr s) = int (size (refs s))
        \<and> (owner_id (biased_of (hdr s)) = None \<or> owner_id (biased_of (hdr s)) = Some (owner_sid P))
      else owner_id (biased_of (hdr s)) = Some (owner_sid P) \<and> 0 < biased_value (hdr s)
        \<and> biased_value (hdr s) + shared_value (hdr s) = int (size (refs s))
        \<and> (queued (shared_of (hdr s)) \<longleftrightarrow> shared_value (hdr s) < 0))"

text \<open>Exactly one party is responsible for a waiting object: its queue, or one thread.\<close>

definition holders_ok :: "state \<Rightarrow> bool" where
  "holders_ok s \<longleftrightarrow>
     (if waiting s
      then (if in_queue s then whose holder (pcs s) = {} else alone (whose holder (pcs s)))
      else \<not> in_queue s \<and> whose holder (pcs s) = {})"

text \<open>A merged object that still has an owner has one thread that will release it.\<close>

definition unowners_ok :: "state \<Rightarrow> bool" where
  "unowners_ok s \<longleftrightarrow>
     (if merged (shared_of (hdr s)) \<and> owner_id (biased_of (hdr s)) \<noteq> None
      then alone (whose unowner (pcs s)) else whose unowner (pcs s) = {})"

text \<open>A dead object whose value is still there has one thread that will drop it.\<close>

definition droppers_ok :: "state \<Rightarrow> bool" where
  "droppers_ok s \<longleftrightarrow>
     (if merged (shared_of (hdr s)) \<and> refs s = {#} \<and> drops s = 0
      then alone (whose dropper (pcs s)) else whose dropper (pcs s) = {})
     \<and> (drops s = 0 \<or> drops s = 1 \<and> merged (shared_of (hdr s)) \<and> refs s = {#})"

text \<open>
  The weak count: one per weak reference, and one for all strong references together, until the
  thread that dropped the value gives it back. While it is locked, there is no weak reference.
\<close>

definition implicit_weak :: "state \<Rightarrow> bool" where
  "implicit_weak s \<longleftrightarrow> drops s = 0 \<or> whose weak_dropper (pcs s) \<noteq> {}"

definition weak_ok :: "state \<Rightarrow> bool" where
  "weak_ok s \<longleftrightarrow>
     (whose weak_dropper (pcs s) = {} \<or> drops s = 1 \<and> alone (whose weak_dropper (pcs s)))
     \<and> (if whose locker (pcs s) = {}
        then uint (weak s) = int (size (weaks s)) + of_bool (implicit_weak s) \<and> uint (weak s) \<le> 2 ^ 31
        else alone (whose locker (pcs s)) \<and> weak s = WEAK_LOCKED_COUNT \<and> weaks s = {#})
     \<and> (freed s \<longleftrightarrow> weaks s = {#} \<and> \<not> implicit_weak s)"

text \<open>What a thread knows at its program counter.\<close>

definition owner_acts :: "params \<Rightarrow> state \<Rightarrow> thread \<Rightarrow> bool" where
  "owner_acts P s t \<longleftrightarrow> t = owner P \<and> \<not> owner_dead s"

definition may_merge :: "params \<Rightarrow> state \<Rightarrow> thread \<Rightarrow> bool" where
  "may_merge P s t \<longleftrightarrow> t = owner P \<or> owner_dead s"

definition sole :: "state \<Rightarrow> thread \<Rightarrow> bool" where
  "sole s t \<longleftrightarrow> refs s = {#t#} \<and> weaks s = {#}"

definition read_unique :: "params \<Rightarrow> state \<Rightarrow> thread \<Rightarrow> 64 word \<Rightarrow> bool" where
  "read_unique P s t raw \<longleftrightarrow>
     (if merged (SharedWord_from_raw raw)
      then 0 \<le> count_of_raw raw \<and> (count_of_raw raw = 1 \<longrightarrow> sole s t)
      else owner_acts P s t \<and> \<not> merged (shared_of (hdr s))
        \<and> 0 \<le> biased_value (hdr s) + count_of_raw raw
        \<and> (biased_value (hdr s) + count_of_raw raw = 1 \<longrightarrow> sole s t))"

fun pc_ok :: "params \<Rightarrow> state \<Rightarrow> thread \<Rightarrow> pc \<Rightarrow> bool" where
  "pc_ok P s t (Inc_store u raw) =
     (owner_acts P s t \<and> \<not> merged (shared_of (hdr s))
      \<and> attempt_biased_increment (debug P) (Inr (owner_sid P)) (biased_word (hdr s)) = Inr (Some raw))"
| "pc_ok P s t (Up_store u raw) =
     (owner_acts P s t \<and> \<not> merged (shared_of (hdr s))
      \<and> attempt_biased_increment (debug P) (Inr (owner_sid P)) (biased_word (hdr s)) = Inr (Some raw))"
| "pc_ok P s t (Up_cas u old) = (merged (SharedWord_from_raw old) \<longrightarrow> 0 \<le> count_of_raw old)"
| "pc_ok P s t (Dec_store raw) =
     (owner_acts P s t \<and> \<not> merged (shared_of (hdr s))
      \<and> decrement_biased_next (debug P) (Inr (owner_sid P)) (biased_word (hdr s)) = Inr (Some (Biased_store raw)))"
| "pc_ok P s t Dec_slow =
     (owner_acts P s t \<and> \<not> merged (shared_of (hdr s)) \<and> biased_value (hdr s) = 1)"
| "pc_ok P s t (Dec_unown d) = (owner_acts P s t)"
| "pc_ok P s t (Dec_cas old) = (- (2 ^ 20) \<le> count_of_raw old)"
| "pc_ok P s t (Dec_push sid) = (sid = owner_sid P)"
| "pc_ok P s t Merge_biased = (may_merge P s t)"
| "pc_ok P s t (Merge_shared b) = (may_merge P s t \<and> b = biased_word (hdr s))"
| "pc_ok P s t (Merge_cas b old) =
     (may_merge P s t \<and> b = biased_word (hdr s) \<and> \<not> merged (SharedWord_from_raw old))"
| "pc_ok P s t (Merge_unown new) = (may_merge P s t \<and> 0 \<le> count_of_raw new)"
| "pc_ok P s t Uniq_lock =
     (merged (shared_of (hdr s)) \<and> owner_id (biased_of (hdr s)) = None \<or> owner_acts P s t)"
| "pc_ok P s t Uniq_shared =
     (merged (shared_of (hdr s)) \<and> owner_id (biased_of (hdr s)) = None \<or> owner_acts P s t)"
| "pc_ok P s t (Uniq_biased raw) = (read_unique P s t raw)"
| "pc_ok P s t (Uniq_unlock unique) = (unique \<longrightarrow> sole s t)"
| "pc_ok P s t Mut = (sole s t)"
| "pc_ok P s t (Down_cas u w) = (uint w < 2 ^ 31)"
| "pc_ok P s t _ = True"

text \<open>The queue only goes away after its thread has died.\<close>

definition queue_ok :: "state \<Rightarrow> bool" where
  "queue_ok s \<longleftrightarrow> queue_alive s \<or> owner_dead s"

definition state_ok :: "params \<Rightarrow> state \<Rightarrow> bool" where
  "state_ok P s \<longleftrightarrow> tokens_ok s \<and> weak_tokens_ok s \<and> counts_ok P s \<and> holders_ok s \<and> unowners_ok s
     \<and> droppers_ok s \<and> weak_ok s \<and> queue_ok s \<and> (\<forall>t. pc_ok P s t (pcs s t))"

lemma state_okI:
  assumes "tokens_ok s" "weak_tokens_ok s" "counts_ok P s" "holders_ok s" "unowners_ok s"
    "droppers_ok s" "weak_ok s" "queue_ok s" "\<And>t. pc_ok P s t (pcs s t)"
  shows "state_ok P s"
  using assms by (simp add: state_ok_def)

lemma state_okD:
  assumes "state_ok P s"
  shows "tokens_ok s" "weak_tokens_ok s" "counts_ok P s" "holders_ok s" "unowners_ok s"
    "droppers_ok s" "weak_ok s" "queue_ok s" "pc_ok P s t (pcs s t)"
  using assms by (auto simp: state_ok_def)

section \<open>How the state updates act on the fields\<close>

lemma goto_fields [simp]:
  "hdr (goto t c s) = hdr s" "weak (goto t c s) = weak s" "refs (goto t c s) = refs s"
  "weaks (goto t c s) = weaks s" "pcs (goto t c s) = (pcs s)(t := c)"
  "in_queue (goto t c s) = in_queue s" "owner_dead (goto t c s) = owner_dead s"
  "queue_alive (goto t c s) = queue_alive s" "drops (goto t c s) = drops s" "freed (goto t c s) = freed s"
  by (simp_all add: goto_def)

lemma set_shared_fields [simp]:
  "hdr (set_shared r s) = (hdr s)\<lparr>shared_word := r\<rparr>" "weak (set_shared r s) = weak s"
  "refs (set_shared r s) = refs s" "weaks (set_shared r s) = weaks s" "pcs (set_shared r s) = pcs s"
  "in_queue (set_shared r s) = in_queue s" "owner_dead (set_shared r s) = owner_dead s"
  "queue_alive (set_shared r s) = queue_alive s" "drops (set_shared r s) = drops s"
  "freed (set_shared r s) = freed s"
  by (simp_all add: set_shared_def)

lemma set_biased_fields [simp]:
  "hdr (set_biased r s) = (hdr s)\<lparr>biased_word := r\<rparr>" "weak (set_biased r s) = weak s"
  "refs (set_biased r s) = refs s" "weaks (set_biased r s) = weaks s" "pcs (set_biased r s) = pcs s"
  "in_queue (set_biased r s) = in_queue s" "owner_dead (set_biased r s) = owner_dead s"
  "queue_alive (set_biased r s) = queue_alive s" "drops (set_biased r s) = drops s"
  "freed (set_biased r s) = freed s"
  by (simp_all add: set_biased_def)

lemma gain_fields [simp]:
  "hdr (gain t s) = hdr s" "weak (gain t s) = weak s" "refs (gain t s) = add_mset t (refs s)"
  "weaks (gain t s) = weaks s" "pcs (gain t s) = pcs s" "in_queue (gain t s) = in_queue s"
  "owner_dead (gain t s) = owner_dead s" "queue_alive (gain t s) = queue_alive s"
  "drops (gain t s) = drops s" "freed (gain t s) = freed s"
  by (simp_all add: gain_def)

lemma lose_fields [simp]:
  "hdr (lose t s) = hdr s" "weak (lose t s) = weak s" "refs (lose t s) = refs s - {#t#}"
  "weaks (lose t s) = weaks s" "pcs (lose t s) = pcs s" "in_queue (lose t s) = in_queue s"
  "owner_dead (lose t s) = owner_dead s" "queue_alive (lose t s) = queue_alive s"
  "drops (lose t s) = drops s" "freed (lose t s) = freed s"
  by (simp_all add: lose_def)

section \<open>What threads know survives what other threads do\<close>

definition rely :: "params \<Rightarrow> state \<Rightarrow> state \<Rightarrow> thread \<Rightarrow> bool" where
  "rely P s s' t \<longleftrightarrow>
     (owner_acts P s t \<longrightarrow> owner_acts P s' t \<and> biased_word (hdr s') = biased_word (hdr s)
        \<and> merged (shared_of (hdr s')) = merged (shared_of (hdr s)))
     \<and> (may_merge P s t \<longrightarrow> may_merge P s' t)
     \<and> (may_merge P s t \<and> holder (pcs s t) \<longrightarrow> biased_word (hdr s') = biased_word (hdr s))
     \<and> (merged (shared_of (hdr s)) \<and> owner_id (biased_of (hdr s)) = None \<longrightarrow>
          merged (shared_of (hdr s')) \<and> owner_id (biased_of (hdr s')) = None)
     \<and> (exclusive (pcs s t) \<and> sole s t \<longrightarrow> sole s' t)"

lemma pc_ok_stable:
  assumes "pc_ok P s t (pcs s t)" and "rely P s s' t"
  shows "pc_ok P s' t (pcs s t)"
  using assms by (cases "pcs s t") (auto simp: rely_def read_unique_def)

lemma pc_ok_goto [simp]: "pc_ok P (goto t c s) t' c' = pc_ok P s t' c'"
  by (cases c') (simp_all add: owner_acts_def may_merge_def sole_def read_unique_def)

section \<open>Tokens\<close>

lemma lent_goto:
  "lent (goto t c s) u \<longleftrightarrow> borrows c = Some u \<or> (\<exists>t'. t' \<noteq> t \<and> borrows (pcs s t') = Some u)"
  by (auto simp: lent_def)

lemma lent_weak_goto:
  "lent_weak (goto t c s) u \<longleftrightarrow> borrows_weak c = Some u \<or> (\<exists>t'. t' \<noteq> t \<and> borrows_weak (pcs s t') = Some u)"
  by (auto simp: lent_weak_def)

lemma tokens_okD: "tokens_ok s \<Longrightarrow> of_bool (exclusive (pcs s u)) + of_bool (lent s u) \<le> count (refs s) u"
  by (simp add: tokens_ok_def)

lemma of_bool_le: "(Q \<Longrightarrow> R) \<Longrightarrow> (of_bool Q :: nat) \<le> of_bool R"
  by auto

lemma count_pos: "Suc n \<le> count M x \<Longrightarrow> x \<in># M"
  using count_greater_zero_iff [of M x] by linarith

lemma exclusive_token: "tokens_ok s \<Longrightarrow> exclusive (pcs s t) \<Longrightarrow> t \<in># refs s"
  using tokens_okD [of s t] by (auto intro: count_pos)

lemma lender_token:
  assumes "tokens_ok s" "borrows (pcs s t) = Some u"
  shows "u \<in># refs s"
proof -
  have "lent s u" using assms(2) by (auto simp: lent_def)
  then show ?thesis using tokens_okD [OF assms(1), of u] by (auto intro: count_pos)
qed

lemma weak_lender_token:
  assumes "weak_tokens_ok s" "borrows_weak (pcs s t) = Some u"
  shows "u \<in># weaks s"
proof -
  have "lent_weak s u" using assms(2) by (auto simp: lent_weak_def)
  then show ?thesis using assms(1) by (auto simp: weak_tokens_ok_def dest: spec [of _ u])
qed

text \<open>A thread that has the only token exclusively is the only one with an operation on the object.\<close>

lemma sole_alone:
  assumes "tokens_ok s" "weak_tokens_ok s" "exclusive (pcs s t)" "sole s t" "t' \<noteq> t"
  shows "\<not> exclusive (pcs s t')" "borrows (pcs s t') = None" "borrows_weak (pcs s t') = None"
proof -
  show "\<not> exclusive (pcs s t')"
    using exclusive_token [OF assms(1), of t'] assms(4,5) by (auto simp: sole_def)
  show "borrows (pcs s t') = None"
  proof (rule ccontr)
    assume "borrows (pcs s t') \<noteq> None"
    then obtain u where u: "borrows (pcs s t') = Some u" by blast
    then have "u = t" using lender_token [OF assms(1) u] assms(4) by (simp add: sole_def)
    then show False
      using u assms(3,4) tokens_okD [OF assms(1), of t] by (auto simp: sole_def lent_def split: if_splits)
  qed
  show "borrows_weak (pcs s t') = None"
    using weak_lender_token [OF assms(2), of t'] assms(4) by (cases "borrows_weak (pcs s t')") (auto simp: sole_def)
qed

text \<open>The ways the tokens change: not at all, one more, one less that was used exclusively.\<close>

lemma tokens_ok_goto:
  assumes "tokens_ok s" "exclusive c \<longrightarrow> exclusive (pcs s t)" "borrows c = None \<or> borrows c = borrows (pcs s t)"
  shows "tokens_ok (goto t c s)"
  unfolding tokens_ok_def
proof
  fix u
  have "lent (goto t c s) u \<Longrightarrow> lent s u"
    using assms(3) by (auto simp: lent_def split: if_splits)
  moreover have "exclusive (pcs (goto t c s) u) \<Longrightarrow> exclusive (pcs s u)"
    using assms(2) by (auto split: if_splits)
  ultimately have "of_bool (exclusive (pcs (goto t c s) u)) + of_bool (lent (goto t c s) u)
      \<le> (of_bool (exclusive (pcs s u)) + of_bool (lent s u) :: nat)"
    by (intro add_mono of_bool_le)
  also have "\<dots> \<le> count (refs s) u" by (rule tokens_okD [OF assms(1)])
  finally show "of_bool (exclusive (pcs (goto t c s) u)) + of_bool (lent (goto t c s) u)
      \<le> count (refs (goto t c s)) u" by simp
qed

lemma weak_tokens_ok_goto:
  assumes "weak_tokens_ok s" "borrows_weak c = None \<or> borrows_weak c = borrows_weak (pcs s t)"
  shows "weak_tokens_ok (goto t c s)"
  unfolding weak_tokens_ok_def
proof
  fix u
  have "lent_weak (goto t c s) u \<Longrightarrow> lent_weak s u"
    using assms(2) by (auto simp: lent_weak_def split: if_splits)
  then have "of_bool (lent_weak (goto t c s) u) \<le> (of_bool (lent_weak s u) :: nat)"
    by (rule of_bool_le)
  also have "\<dots> \<le> count (weaks s) u" using assms(1) by (simp add: weak_tokens_ok_def)
  finally show "of_bool (lent_weak (goto t c s) u) \<le> count (weaks (goto t c s)) u" by simp
qed

lemma tokens_ok_refs:
  assumes "tokens_ok s" "pcs s' = pcs s" "\<And>u. count (refs s) u \<le> count (refs s') u"
  shows "tokens_ok s'"
  unfolding tokens_ok_def
proof
  fix u
  have "lent s' u = lent s u" by (simp add: lent_def assms(2))
  then show "of_bool (exclusive (pcs s' u)) + of_bool (lent s' u) \<le> count (refs s') u"
    using tokens_okD [OF assms(1), of u] assms(3) [of u] assms(2) by simp
qed

lemma tokens_ok_lose:
  assumes "tokens_ok s" "exclusive (pcs s t)" "\<not> exclusive c" "borrows c = None"
  shows "tokens_ok (goto t c (lose t s))"
  unfolding tokens_ok_def
proof
  fix u
  have "lent (goto t c (lose t s)) u \<Longrightarrow> lent s u"
    using assms(4) by (auto simp: lent_def split: if_splits)
  then have l: "of_bool (lent (goto t c (lose t s)) u) \<le> (of_bool (lent s u) :: nat)"
    by simp
  show "of_bool (exclusive (pcs (goto t c (lose t s)) u)) + of_bool (lent (goto t c (lose t s)) u)
      \<le> count (refs (goto t c (lose t s))) u"
    using tokens_okD [OF assms(1), of u] l assms(2,3) by (cases "u = t") auto
qed

lemma weak_tokens_ok_weaks:
  assumes "weak_tokens_ok s" "pcs s' = pcs s" "\<And>u. count (weaks s) u \<le> count (weaks s') u"
  shows "weak_tokens_ok s'"
  using assms unfolding weak_tokens_ok_def lent_weak_def by (metis order_trans)

end
