(* ===== verification/Protocol_Steps.thy ===== *)
theory Protocol_Steps
  imports Protocol_Invariant
begin

text \<open>
  Every step of the interleaved model keeps the invariant. The steps are grouped by what they
  change: nothing but the program counter, the biased count, the shared count, the merge flag, the
  owner, the weak count.
\<close>

section \<open>Steps that change only the program counter\<close>

lemma whose_out: "\<not> role (f t) \<Longrightarrow> whose role f - {t} = whose role f"
  by (auto simp: whose_def)

definition same_roles :: "pc \<Rightarrow> pc \<Rightarrow> bool" where
  "same_roles c d \<longleftrightarrow> holder c = holder d \<and> unowner c = unowner d \<and> dropper c = dropper d
     \<and> locker c = locker d \<and> weak_dropper c = weak_dropper d"

lemma whose_same_roles:
  assumes "same_roles c (f t)"
  shows "whose holder (f(t := c)) = whose holder f" "whose unowner (f(t := c)) = whose unowner f"
    "whose dropper (f(t := c)) = whose dropper f" "whose locker (f(t := c)) = whose locker f"
    "whose weak_dropper (f(t := c)) = whose weak_dropper f"
  by (rule whose_upd_same, use assms in \<open>simp add: same_roles_def\<close>)+

lemma weak_ok_frame:
  assumes "weak_ok s" "weak s' = weak s" "weaks s' = weaks s" "drops s' = drops s" "freed s' = freed s"
    "whose locker (pcs s') = whose locker (pcs s)"
    "whose weak_dropper (pcs s') = whose weak_dropper (pcs s)"
  shows "weak_ok s'"
  using assms(1) unfolding weak_ok_def implicit_weak_def assms(2-7) .

lemma inv_goto:
  assumes "state_ok P s" and roles: "same_roles c (pcs s t)"
    and "tokens_ok (goto t c s)" "weak_tokens_ok (goto t c s)" "pc_ok P s t c"
  shows "state_ok P (goto t c s)"
proof (rule state_okI)
  note D = state_okD [OF assms(1)] and R = whose_same_roles [of c "pcs s" t, OF roles]
  show "counts_ok P (goto t c s)" using D(3) by (simp add: counts_ok_def)
  show "holders_ok (goto t c s)" using D(4) R by (simp add: holders_ok_def waiting_def)
  show "unowners_ok (goto t c s)" using D(5) R by (simp add: unowners_ok_def)
  show "droppers_ok (goto t c s)" using D(6) R by (simp add: droppers_ok_def)
  show "weak_ok (goto t c s)" by (rule weak_ok_frame [OF D(7)]) (simp_all add: R)
  show "queue_ok (goto t c s)" using D(8) by (simp add: queue_ok_def)
  show "pc_ok P (goto t c s) t' (pcs (goto t c s) t')" for t'
    using D(9) [of t'] assms(5) by simp
qed (rule assms)+

text \<open>The common case: the operation goes on with the tokens it has.\<close>

lemma inv_goto_on:
  assumes "state_ok P s" "same_roles c (pcs s t)" "exclusive c \<longrightarrow> exclusive (pcs s t)"
    "borrows c = None \<or> borrows c = borrows (pcs s t)"
    "borrows_weak c = None \<or> borrows_weak c = borrows_weak (pcs s t)" "pc_ok P s t c"
  shows "state_ok P (goto t c s)"
  using assms state_okD(1,2) [OF assms(1)]
  by (intro inv_goto tokens_ok_goto weak_tokens_ok_goto) auto

lemma pcs_ok:
  assumes "state_ok P s" "pcs s' = (pcs s)(t := c)" "pc_ok P s' t c" "\<And>t'. t' \<noteq> t \<Longrightarrow> rely P s s' t'"
  shows "pc_ok P s' t' (pcs s' t')"
  using assms(2-4) pc_ok_stable [OF state_okD(9) [OF assms(1), of t'], of s'] by (cases "t' = t") auto

text \<open>An operation that borrows or uses a token keeps every other thread from being the only one.\<close>

definition busy :: "pc \<Rightarrow> bool" where
  "busy c \<longleftrightarrow> exclusive c \<or> borrows c \<noteq> None \<or> borrows_weak c \<noteq> None"

lemma not_sole:
  assumes "state_ok P s" "busy (pcs s t)" "t' \<noteq> t" "exclusive (pcs s t')"
  shows "\<not> sole s t'"
  using sole_alone [OF state_okD(1,2) [OF assms(1)] assms(4), of t] assms(2,3) by (auto simp: busy_def)

section \<open>Steps that change the biased count\<close>

lemma inv_biased:
  assumes I: "state_ok P s" and own: "owner_acts P s t" and um: "\<not> merged (shared_of (hdr s))"
    and raw: "BiasedWord_from_raw raw = (biased_of (hdr s))\<lparr>biased_count := b\<rparr>"
    and b: "0 < uint b" "uint b - biased_value (hdr s) = int (size R) - int (size (refs s))"
    and s': "s' = goto t c (set_biased raw s\<lparr>refs := R\<rparr>)"
    and tok: "tokens_ok s'" "weak_tokens_ok s'" and roles: "same_roles c (pcs s t)"
    and busy: "busy (pcs s t)" and ok: "pc_ok P s' t c"
  shows "state_ok P s'"
proof (rule state_okI)
  note D = state_okD [OF I] and R = whose_same_roles [of c "pcs s" t, OF roles]
  show "counts_ok P s'" using D(3) um raw b by (simp add: counts_ok_def s')
  show "holders_ok s'" using D(4) R by (simp add: holders_ok_def waiting_def s')
  show "unowners_ok s'" using D(5) R um by (simp add: unowners_ok_def s')
  show "droppers_ok s'" using D(6) R um by (simp add: droppers_ok_def s')
  show "weak_ok s'" by (rule weak_ok_frame [OF D(7)]) (simp_all add: R s')
  show "queue_ok s'" using D(8) by (simp add: queue_ok_def s')
  have "rely P s s' t'" if "t' \<noteq> t" for t'
    using that own um not_sole [OF I busy that]
    by (auto simp: rely_def owner_acts_def may_merge_def s')
  then show "pc_ok P s' t' (pcs s' t')" for t'
    using pcs_ok [OF I _ ok] by (simp add: s')
qed (rule tok)+

section \<open>Steps that change the shared count\<close>

lemma inv_shared_up:
  assumes I: "state_ok P s" and quiet: "\<not> waiting s"
    and raw: "SharedWord_from_raw raw = (shared_of (hdr s))\<lparr>shared_count := n\<rparr>"
    and n: "SharedCount_value n = shared_value (hdr s) + 1"
    and alive: "merged (shared_of (hdr s)) \<longrightarrow> refs s \<noteq> {#}"
    and roles: "same_roles Idle (pcs s t)" and busy: "busy (pcs s t)"
  shows "state_ok P (goto t Idle (gain t (set_shared raw s)))" (is "state_ok P ?s")
proof (rule state_okI)
  note D = state_okD [OF I] and R = whose_same_roles [of Idle "pcs s" t, OF roles]
  have nonneg: "\<not> merged (shared_of (hdr s)) \<Longrightarrow> 0 \<le> shared_value (hdr s)"
    using quiet by (simp add: waiting_def)
  show "tokens_ok ?s"
    by (rule tokens_ok_refs [of "goto t Idle s"]) (use D(1) in \<open>auto intro: tokens_ok_goto\<close>)
  show "weak_tokens_ok ?s"
    by (rule weak_tokens_ok_weaks [of "goto t Idle s"]) (use D(2) in \<open>auto intro: weak_tokens_ok_goto\<close>)
  show "counts_ok P ?s" using D(3) raw n nonneg by (auto simp: counts_ok_def)
  show "holders_ok ?s" using D(4) R raw n quiet nonneg by (auto simp: holders_ok_def waiting_def)
  show "unowners_ok ?s" using D(5) R raw by (simp add: unowners_ok_def)
  show "droppers_ok ?s" using D(6) R raw alive by (auto simp: droppers_ok_def split: if_splits)
  show "weak_ok ?s" by (rule weak_ok_frame [OF D(7)]) (simp_all add: R)
  show "queue_ok ?s" using D(8) by (simp add: queue_ok_def)
  have "rely P s ?s t'" if "t' \<noteq> t" for t'
    using that raw not_sole [OF I busy that] by (auto simp: rely_def owner_acts_def may_merge_def)
  then show "pc_ok P ?s t' (pcs ?s t')" for t'
    using pcs_ok [OF I, of ?s t Idle] by simp
qed

lemma refs_of_exclusive:
  assumes "state_ok P s" "exclusive (pcs s t)"
  shows "t \<in># refs s" "refs s \<noteq> {#}" "drops s = 0" "size (refs s - {#t#}) + 1 = size (refs s)"
    "whose weak_dropper (pcs s) = {}"
proof -
  show t: "t \<in># refs s" by (rule exclusive_token [OF state_okD(1) [OF assms(1)] assms(2)])
  then show ne: "refs s \<noteq> {#}" by auto
  then show d: "drops s = 0" using state_okD(6) [OF assms(1)] by (auto simp: droppers_ok_def)
  show "size (refs s - {#t#}) + 1 = size (refs s)"
    using t by (metis add.commute plus_1_eq_Suc size_Suc_Diff1)
  show "whose weak_dropper (pcs s) = {}"
    using state_okD(7) [OF assms(1)] d by (auto simp: weak_ok_def)
qed

lemma inv_shared_down:
  assumes I: "state_ok P s" and pc: "pcs s t = Dec_cas old"
    and raw: "SharedWord_from_raw raw = (shared_of (hdr s))\<lparr>shared_count := n,
        queued := (queued (shared_of (hdr s)) \<or> SharedCount_value n < 0)\<rparr>"
    and n: "SharedCount_value n = shared_value (hdr s) - 1"
    and c: "c = (if \<not> queued (shared_of (hdr s)) \<and> SharedCount_value n < 0 then Dec_owner
        else if merged (shared_of (hdr s)) \<and> SharedCount_value n = 0 then Drop_value else Idle)"
  shows "state_ok P (goto t c (lose t (set_shared raw s)))" (is "state_ok P ?s")
proof (rule state_okI)
  note D = state_okD [OF I]
  have ex: "exclusive (pcs s t)" "busy (pcs s t)" using pc by (simp_all add: busy_def)
  note tok = refs_of_exclusive [OF I ex(1)]
  have sz: "int (size (refs s - {#t#})) = int (size (refs s)) - 1" using tok(4) by linarith
  have emp: "refs s - {#t#} = {#} \<longleftrightarrow> size (refs s) = 1"
    using tok(4) by (metis add_cancel_right_left size_eq_0_iff_empty)
  have mrg: "merged (shared_of (hdr s)) \<Longrightarrow> 0 \<le> SharedCount_value n
      \<and> (SharedCount_value n = 0 \<longleftrightarrow> refs s - {#t#} = {#})"
  proof -
    assume m: "merged (shared_of (hdr s))"
    then have "SharedCount_value n = int (size (refs s)) - 1" "1 \<le> size (refs s)"
      using D(3) n tok(4) by (auto simp: counts_ok_def)
    then show ?thesis unfolding emp by auto
  qed
  have c_cases: "(c = Dec_owner \<and> \<not> merged (shared_of (hdr s)) \<and> shared_value (hdr s) = 0)
      \<or> (c = Drop_value \<and> merged (shared_of (hdr s)) \<and> refs s - {#t#} = {#})
      \<or> (c = Idle \<and> (merged (shared_of (hdr s)) \<longrightarrow> refs s - {#t#} \<noteq> {#})
         \<and> (\<not> merged (shared_of (hdr s)) \<longrightarrow> shared_value (hdr s) \<noteq> 0))"
  proof (cases "merged (shared_of (hdr s))")
    case True
    then show ?thesis using c mrg by auto
  next
    case False
    then have "queued (shared_of (hdr s)) \<longleftrightarrow> shared_value (hdr s) < 0"
      using D(3) by (simp add: counts_ok_def)
    then show ?thesis using c n False by auto
  qed
  have roles: "whose unowner ((pcs s)(t := c)) = whose unowner (pcs s)"
    "whose locker ((pcs s)(t := c)) = whose locker (pcs s)"
    "whose weak_dropper ((pcs s)(t := c)) = whose weak_dropper (pcs s)"
    using c pc by (auto intro!: whose_upd_same)
  show "tokens_ok ?s"
    using tokens_ok_lose [OF D(1) ex(1), of c] c by (auto simp: tokens_ok_def lent_def)
  show "weak_tokens_ok ?s"
    by (rule weak_tokens_ok_weaks [of "goto t c s"]) (use D(2) c in \<open>auto intro: weak_tokens_ok_goto\<close>)
  show "counts_ok P ?s" using D(3) raw n sz by (auto simp: counts_ok_def)
  show "holders_ok ?s"
    using D(4) c_cases raw n pc by (auto simp: holders_ok_def waiting_def whose_upd whose_out)
  show "unowners_ok ?s" using D(5) roles raw by (simp add: unowners_ok_def)
  show "droppers_ok ?s"
    using D(6) c_cases raw tok(2,3) pc by (auto simp: droppers_ok_def whose_upd whose_out)
  show "weak_ok ?s" by (rule weak_ok_frame [OF D(7)]) (simp_all add: roles)
  show "queue_ok ?s" using D(8) by (simp add: queue_ok_def)
  have "rely P s ?s t'" if "t' \<noteq> t" for t'
    using that raw not_sole [OF I ex(2) that] by (auto simp: rely_def owner_acts_def may_merge_def)
  moreover have "pc_ok P ?s t c" using c by auto
  ultimately show "pc_ok P ?s t' (pcs ?s t')" for t'
    using pcs_ok [OF I, of ?s t c] by simp
qed

section \<open>Merging and releasing ownership\<close>

lemma inv_merge_owner:
  assumes I: "state_ok P s" and pc: "pcs s t = Dec_slow"
  shows "0 \<le> shared_value (hdr s)" "\<not> merged (shared_of (hdr s))"
    "state_ok P (goto t (Dec_unown (shared_value (hdr s) = 0))
        (lose t (set_shared (shared_word (hdr s) OR MERGED_BIT) s)))" (is "state_ok P (goto t ?c ?s)")
proof -
  note D = state_okD [OF I]
  have ex: "exclusive (pcs s t)" "busy (pcs s t)" using pc by (simp_all add: busy_def)
  note tok = refs_of_exclusive [OF I ex(1)]
  have sz: "int (size (refs s - {#t#})) = int (size (refs s)) - 1" using tok(4) by linarith
  have emp: "refs s - {#t#} = {#} \<longleftrightarrow> size (refs s) = 1"
    using tok(4) by (metis add_cancel_right_left size_eq_0_iff_empty)
  have own: "owner_acts P s t" "biased_value (hdr s) = 1"
    using D(9) [of t] pc by simp_all
  show um: "\<not> merged (shared_of (hdr s))" using D(9) [of t] pc by simp
  have cnt: "1 + shared_value (hdr s) = int (size (refs s))"
    using D(3) um own by (simp add: counts_ok_def)
  show nonneg: "0 \<le> shared_value (hdr s)"
    using cnt tok(4) by linarith
  have zero: "shared_value (hdr s) = 0 \<longleftrightarrow> refs s - {#t#} = {#}"
    using cnt emp by linarith
  have idle: "\<not> in_queue s" "whose holder (pcs s) = {}" "whose unowner (pcs s) = {}" "whose dropper (pcs s) = {}"
    using D(4,5,6) um nonneg by (auto simp: holders_ok_def waiting_def unowners_ok_def droppers_ok_def)
  show "state_ok P (goto t ?c ?s)"
  proof (rule state_okI)
    show "tokens_ok (goto t ?c ?s)"
      using tokens_ok_lose [OF D(1) ex(1), of ?c] by (auto simp: tokens_ok_def lent_def)
    show "weak_tokens_ok (goto t ?c ?s)"
      by (rule weak_tokens_ok_weaks [of "goto t ?c s"]) (use D(2) in \<open>auto intro: weak_tokens_ok_goto\<close>)
    show "counts_ok P (goto t ?c ?s)"
      using D(3) cnt sz um by (simp add: counts_ok_def SharedWord_fetch_or)
    show "holders_ok (goto t ?c ?s)"
      using idle by (simp add: holders_ok_def waiting_def SharedWord_fetch_or whose_upd)
    show "unowners_ok (goto t ?c ?s)"
      using idle D(3) um by (simp add: unowners_ok_def counts_ok_def SharedWord_fetch_or whose_upd)
    show "droppers_ok (goto t ?c ?s)"
      using idle zero tok(3) by (simp add: droppers_ok_def SharedWord_fetch_or whose_upd)
    show "weak_ok (goto t ?c ?s)"
      by (rule weak_ok_frame [OF D(7)]) (use pc in \<open>simp_all add: whose_upd_same\<close>)
    show "queue_ok (goto t ?c ?s)" using D(8) by (simp add: queue_ok_def)
    have "rely P s (goto t ?c ?s) t'" if "t' \<noteq> t" for t'
      using that own um not_sole [OF I ex(2) that]
      by (auto simp: rely_def owner_acts_def may_merge_def)
    moreover have "pc_ok P (goto t ?c ?s) t ?c" using own by (simp add: owner_acts_def)
    ultimately show "pc_ok P (goto t ?c ?s) t' (pcs (goto t ?c ?s) t')" for t'
      using pcs_ok [OF I, of "goto t ?c ?s" t ?c] by simp
  qed
qed

text \<open>The thread that holds the queued object: nobody else does, and the counts are not merged.\<close>

lemma holder_facts:
  assumes I: "state_ok P s" and "holder (pcs s t)"
  shows "waiting s" "\<not> merged (shared_of (hdr s))" "\<not> in_queue s" "whose holder (pcs s) = {t}"
    "owner_id (biased_of (hdr s)) = Some (owner_sid P)" "drops s = 0" "\<not> freed s"
    "whose unowner (pcs s) = {}" "whose dropper (pcs s) = {}"
proof -
  note D = state_okD [OF I]
  have t: "t \<in> whose holder (pcs s)" using assms(2) by (simp add: in_whose)
  then show w: "waiting s" using D(4) by (auto simp: holders_ok_def split: if_splits)
  then show um: "\<not> merged (shared_of (hdr s))" by (simp add: waiting_def)
  show "\<not> in_queue s" using D(4) w t by (auto simp: holders_ok_def)
  then show "whose holder (pcs s) = {t}" using D(4) w t alone_eq [of "whose holder (pcs s)" t] by (simp add: holders_ok_def)
  show "owner_id (biased_of (hdr s)) = Some (owner_sid P)" using D(3) um by (simp add: counts_ok_def)
  show d: "drops s = 0" using D(6) um by (simp add: droppers_ok_def)
  then show "\<not> freed s" using D(7) by (simp add: weak_ok_def implicit_weak_def)
  show "whose unowner (pcs s) = {}" using D(5) um by (simp add: unowners_ok_def)
  show "whose dropper (pcs s) = {}" using D(6) um by (simp add: droppers_ok_def)
qed

lemma inv_merge_cas:
  assumes I: "state_ok P s" and pc: "pcs s t = Merge_cas b old"
    and raw: "SharedWord_from_raw raw = (shared_of (hdr s))\<lparr>shared_count := n, merged := True\<rparr>"
    and n: "SharedCount_value n = shared_value (hdr s) + biased_value (hdr s)"
  shows "state_ok P (goto t (Merge_unown raw) (set_shared raw s))" (is "state_ok P ?s")
proof (rule state_okI)
  note D = state_okD [OF I]
  have h: "holder (pcs s t)" using pc by simp
  note H = holder_facts [OF I h]
  have mm: "may_merge P s t" using D(9) [of t] pc by simp
  have cnt: "SharedCount_value n = int (size (refs s))" using D(3) H(2) n by (simp add: counts_ok_def)
  show "tokens_ok ?s"
    by (rule tokens_ok_refs [of "goto t (Merge_unown raw) s"]) (use D(1) in \<open>auto intro: tokens_ok_goto\<close>)
  show "weak_tokens_ok ?s"
    by (rule weak_tokens_ok_weaks [of "goto t (Merge_unown raw) s"])
      (use D(2) in \<open>auto intro: weak_tokens_ok_goto\<close>)
  show "counts_ok P ?s" using D(3) raw cnt H(2) by (simp add: counts_ok_def)
  show "holders_ok ?s" using H(3,4) raw by (simp add: holders_ok_def waiting_def whose_upd)
  show "unowners_ok ?s" using H(5,8) raw by (simp add: unowners_ok_def whose_upd)
  show "droppers_ok ?s" using H(6,9) raw cnt by (auto simp: droppers_ok_def whose_upd)
  show "weak_ok ?s" by (rule weak_ok_frame [OF D(7)]) (use pc in \<open>simp_all add: whose_upd_same\<close>)
  show "queue_ok ?s" using D(8) by (simp add: queue_ok_def)
  have "rely P s ?s t'" if "t' \<noteq> t" for t'
    using that mm H(2,4) raw by (auto simp: rely_def owner_acts_def may_merge_def sole_def)
  moreover have "pc_ok P ?s t (Merge_unown raw)"
    using mm raw cnt by (simp add: may_merge_def)
  ultimately show "pc_ok P ?s t' (pcs ?s t')" for t'
    using pcs_ok [OF I, of ?s t "Merge_unown raw"] by simp
qed

lemma unowner_facts:
  assumes I: "state_ok P s" and "unowner (pcs s t)"
  shows "merged (shared_of (hdr s))" "owner_id (biased_of (hdr s)) = Some (owner_sid P)"
    "whose unowner (pcs s) = {t}" "may_merge P s t" "whose holder (pcs s) = {}"
proof -
  note D = state_okD [OF I]
  have t: "t \<in> whose unowner (pcs s)" using assms(2) by (simp add: in_whose)
  then show m: "merged (shared_of (hdr s))" using D(5) by (auto simp: unowners_ok_def split: if_splits)
  show "owner_id (biased_of (hdr s)) = Some (owner_sid P)"
    using D(3,5) m t by (auto simp: unowners_ok_def counts_ok_def split: if_splits)
  show "whose unowner (pcs s) = {t}" using D(5) t by (auto simp: unowners_ok_def alone_eq split: if_splits)
  show "may_merge P s t" using D(9) [of t] assms(2) by (cases "pcs s t") (auto simp: owner_acts_def may_merge_def)
  show "whose holder (pcs s) = {}" using D(4) m by (simp add: holders_ok_def waiting_def)
qed

lemma inv_unown:
  assumes I: "state_ok P s" and un: "unowner (pcs s t)"
    and c: "c = (if dropper (pcs s t) then Drop_value else Idle)"
  shows "state_ok P (goto t c (set_biased (BiasedWord_to_raw BiasedWord_UNOWNED) s))" (is "state_ok P ?s")
proof (rule state_okI)
  note D = state_okD [OF I] and U = unowner_facts [OF I un]
  have roles: "whose dropper ((pcs s)(t := c)) = whose dropper (pcs s)"
    "whose locker ((pcs s)(t := c)) = whose locker (pcs s)"
    "whose weak_dropper ((pcs s)(t := c)) = whose weak_dropper (pcs s)"
    using c un by (cases "pcs s t"; auto intro!: whose_upd_same)+
  show "tokens_ok ?s"
    by (rule tokens_ok_refs [of "goto t c s"]) (use D(1) c in \<open>auto intro!: tokens_ok_goto\<close>)
  show "weak_tokens_ok ?s"
    by (rule weak_tokens_ok_weaks [of "goto t c s"]) (use D(2) c in \<open>auto intro!: weak_tokens_ok_goto\<close>)
  show "counts_ok P ?s" using D(3) U(1) by (simp add: counts_ok_def)
  show "holders_ok ?s" using D(4) U(1,5) c by (auto simp: holders_ok_def waiting_def whose_upd)
  show "unowners_ok ?s" using U(3) c by (auto simp: unowners_ok_def whose_upd)
  show "droppers_ok ?s" using D(6) roles by (simp add: droppers_ok_def)
  show "weak_ok ?s" by (rule weak_ok_frame [OF D(7)]) (simp_all add: roles)
  show "queue_ok ?s" using D(8) by (simp add: queue_ok_def)
  have nh: "\<not> holder (pcs s t')" for t'
    using U(5) by (auto simp: whose_def)
  have "rely P s ?s t'" if "t' \<noteq> t" for t'
    using that U(4) nh by (auto simp: rely_def owner_acts_def may_merge_def sole_def)
  moreover have "pc_ok P ?s t c" using c by auto
  ultimately show "pc_ok P ?s t' (pcs ?s t')" for t'
    using pcs_ok [OF I, of ?s t c] by simp
qed

section \<open>The queue\<close>

lemma inv_push:
  assumes I: "state_ok P s" and pc: "pcs s t = Dec_push sid"
  shows "state_ok P (goto t Idle (s\<lparr>in_queue := True\<rparr>))" (is "state_ok P ?s")
proof (rule state_okI)
  note D = state_okD [OF I]
  have h: "holder (pcs s t)" using pc by simp
  note H = holder_facts [OF I h]
  show "tokens_ok ?s"
    by (rule tokens_ok_refs [of "goto t Idle s"]) (use D(1) in \<open>auto intro!: tokens_ok_goto\<close>)
  show "weak_tokens_ok ?s"
    by (rule weak_tokens_ok_weaks [of "goto t Idle s"]) (use D(2) in \<open>auto intro!: weak_tokens_ok_goto\<close>)
  show "counts_ok P ?s" using D(3) by (simp add: counts_ok_def)
  show "holders_ok ?s" using H(1,4) by (simp add: holders_ok_def waiting_def whose_upd)
  show "unowners_ok ?s" using D(5) pc by (simp add: unowners_ok_def whose_upd_same)
  show "droppers_ok ?s" using D(6) pc by (simp add: droppers_ok_def whose_upd_same)
  show "weak_ok ?s" by (rule weak_ok_frame [OF D(7)]) (use pc in \<open>simp_all add: whose_upd_same\<close>)
  show "queue_ok ?s" using D(8) by (simp add: queue_ok_def)
  have "rely P s ?s t'" for t'
    by (auto simp: rely_def owner_acts_def may_merge_def sole_def)
  then show "pc_ok P ?s t' (pcs ?s t')" for t'
    using pcs_ok [OF I, of ?s t Idle] by simp
qed

lemma inv_collect:
  assumes I: "state_ok P s" and pc: "pcs s t = Idle" and q: "in_queue s" and mm: "may_merge P s t"
  shows "state_ok P (goto t Merge_biased (s\<lparr>in_queue := False\<rparr>))" (is "state_ok P ?s")
proof (rule state_okI)
  note D = state_okD [OF I]
  have w: "waiting s" "whose holder (pcs s) = {}" using D(4) q by (auto simp: holders_ok_def split: if_splits)
  show "tokens_ok ?s"
    by (rule tokens_ok_refs [of "goto t Merge_biased s"]) (use D(1) in \<open>auto intro!: tokens_ok_goto\<close>)
  show "weak_tokens_ok ?s"
    by (rule weak_tokens_ok_weaks [of "goto t Merge_biased s"]) (use D(2) in \<open>auto intro!: weak_tokens_ok_goto\<close>)
  show "counts_ok P ?s" using D(3) by (simp add: counts_ok_def)
  show "holders_ok ?s" using w by (simp add: holders_ok_def waiting_def whose_upd)
  show "unowners_ok ?s" using D(5) pc by (simp add: unowners_ok_def whose_upd_same)
  show "droppers_ok ?s" using D(6) pc by (simp add: droppers_ok_def whose_upd_same)
  show "weak_ok ?s" by (rule weak_ok_frame [OF D(7)]) (use pc in \<open>simp_all add: whose_upd_same\<close>)
  show "queue_ok ?s" using D(8) by (simp add: queue_ok_def)
  have "rely P s ?s t'" for t'
    by (auto simp: rely_def owner_acts_def may_merge_def sole_def)
  moreover have "pc_ok P ?s t Merge_biased" using mm by (simp add: may_merge_def)
  ultimately show "pc_ok P ?s t' (pcs ?s t')" for t'
    using pcs_ok [OF I, of ?s t Merge_biased] by simp
qed

section \<open>Dropping the value and the implicit weak reference\<close>

lemma dropper_facts:
  assumes I: "state_ok P s" and "dropper (pcs s t)"
  shows "merged (shared_of (hdr s))" "refs s = {#}" "drops s = 0" "whose dropper (pcs s) = {t}"
    "\<not> freed s"
proof -
  note D = state_okD [OF I]
  have t: "t \<in> whose dropper (pcs s)" using assms(2) by (simp add: in_whose)
  then have c: "merged (shared_of (hdr s)) \<and> refs s = {#} \<and> drops s = 0"
    using D(6) by (auto simp: droppers_ok_def split: if_splits)
  then show "merged (shared_of (hdr s))" "refs s = {#}" "drops s = 0" by auto
  show "whose dropper (pcs s) = {t}"
    using D(6) c t alone_eq [of "whose dropper (pcs s)" t] by (simp add: droppers_ok_def)
  show "\<not> freed s" using D(7) c by (simp add: weak_ok_def implicit_weak_def)
qed

lemma inv_drop_value:
  assumes I: "state_ok P s" and pc: "pcs s t = Drop_value"
  shows "state_ok P (goto t Drop_weak (s\<lparr>drops := 1\<rparr>))" (is "state_ok P ?s")
proof (rule state_okI)
  note D = state_okD [OF I]
  have d: "dropper (pcs s t)" using pc by simp
  note F = dropper_facts [OF I d]
  have wd: "whose weak_dropper (pcs s) = {}" using D(7) F(3) by (simp add: weak_ok_def)
  have iw: "implicit_weak s" "implicit_weak ?s" using F(3) by (simp_all add: implicit_weak_def whose_upd)
  have lk: "whose locker (pcs ?s) = whose locker (pcs s)" using pc by (simp add: whose_upd_same)
  show "tokens_ok ?s"
    by (rule tokens_ok_refs [of "goto t Drop_weak s"]) (use D(1) in \<open>auto intro!: tokens_ok_goto\<close>)
  show "weak_tokens_ok ?s"
    by (rule weak_tokens_ok_weaks [of "goto t Drop_weak s"]) (use D(2) in \<open>auto intro!: weak_tokens_ok_goto\<close>)
  show "counts_ok P ?s" using D(3) by (simp add: counts_ok_def)
  show "holders_ok ?s" using D(4) pc by (simp add: holders_ok_def waiting_def whose_upd_same)
  show "unowners_ok ?s" using D(5) pc by (simp add: unowners_ok_def whose_upd_same)
  show "droppers_ok ?s" using F by (simp add: droppers_ok_def whose_upd)
  show "weak_ok ?s"
    using D(7) wd lk iw unfolding weak_ok_def by (simp add: whose_upd split: if_splits)
  show "queue_ok ?s" using D(8) by (simp add: queue_ok_def)
  have "rely P s ?s t'" for t'
    by (auto simp: rely_def owner_acts_def may_merge_def sole_def)
  then show "pc_ok P ?s t' (pcs ?s t')" for t'
    using pcs_ok [OF I, of ?s t Drop_weak] by simp
qed

lemma locker_facts:
  assumes I: "state_ok P s" and "whose locker (pcs s) \<noteq> {}"
  shows "alone (whose locker (pcs s))" "weak s = WEAK_LOCKED_COUNT" "weaks s = {#}" "drops s = 0" "refs s \<noteq> {#}"
proof -
  note D = state_okD [OF I]
  show "alone (whose locker (pcs s))" "weak s = WEAK_LOCKED_COUNT" "weaks s = {#}"
    using D(7) assms(2) by (simp_all add: weak_ok_def)
  obtain t where "locker (pcs s t)" using assms(2) by (auto simp: whose_def)
  then have "exclusive (pcs s t)" by (cases "pcs s t") auto
  then show "drops s = 0" "refs s \<noteq> {#}" using refs_of_exclusive [OF I] by auto
qed

lemma weak_unlocked:
  assumes I: "state_ok P s" and "weaks s \<noteq> {#} \<or> drops s = 1 \<or> weak s \<noteq> WEAK_LOCKED_COUNT"
  shows "whose locker (pcs s) = {}" "uint (weak s) = int (size (weaks s)) + of_bool (implicit_weak s)"
    "uint (weak s) \<le> 2 ^ 31" "weak s \<noteq> WEAK_LOCKED_COUNT"
proof -
  show l: "whose locker (pcs s) = {}"
    by (rule ccontr) (use locker_facts [OF I] assms(2) in auto)
  show "uint (weak s) = int (size (weaks s)) + of_bool (implicit_weak s)" and le: "uint (weak s) \<le> 2 ^ 31"
    using l state_okD(7) [OF I] by (simp_all add: weak_ok_def)
  show "weak s \<noteq> WEAK_LOCKED_COUNT"
    using le uint_WEAK_LOCKED_COUNT by (intro notI) simp
qed

lemma uint32_eq_1: "(a :: 32 word) = 1 \<longleftrightarrow> uint a = 1"
  by (metis uint_1 word_uint_eqI)

lemma weak_sub_fields [simp]:
  "hdr (weak_sub s) = hdr s" "weak (weak_sub s) = weak s - 1" "refs (weak_sub s) = refs s"
  "weaks (weak_sub s) = weaks s" "pcs (weak_sub s) = pcs s" "in_queue (weak_sub s) = in_queue s"
  "owner_dead (weak_sub s) = owner_dead s" "queue_alive (weak_sub s) = queue_alive s"
  "drops (weak_sub s) = drops s" "freed (weak_sub s) = (weak s = 1)"
  by (simp_all add: weak_sub_def)

lemma inv_drop_weak:
  assumes I: "state_ok P s" and pc: "pcs s t = Drop_weak"
  shows "state_ok P (goto t Idle (weak_sub s))" (is "state_ok P ?s")
proof (rule state_okI)
  note D = state_okD [OF I]
  have t: "t \<in> whose weak_dropper (pcs s)" using pc by (simp add: in_whose)
  then have wd: "whose weak_dropper (pcs s) = {t}" and d: "drops s = 1"
    using D(7) alone_eq [of "whose weak_dropper (pcs s)" t] by (auto simp: weak_ok_def)
  note W = weak_unlocked [OF I]
  have w: "whose locker (pcs s) = {}" "uint (weak s) = int (size (weaks s)) + 1" "uint (weak s) \<le> 2 ^ 31"
    using W(1-3) d wd by (auto simp: implicit_weak_def)
  then have nz: "weak s \<noteq> 0" by auto
  have one: "weak s = 1 \<longleftrightarrow> weaks s = {#}" using w(2) by (simp add: uint32_eq_1)
  have iw: "\<not> implicit_weak ?s" using d wd by (simp add: implicit_weak_def whose_upd)
  show "tokens_ok ?s"
    by (rule tokens_ok_refs [of "goto t Idle s"]) (use D(1) in \<open>auto intro!: tokens_ok_goto\<close>)
  show "weak_tokens_ok ?s"
    by (rule weak_tokens_ok_weaks [of "goto t Idle s"])
      (use D(2) in \<open>auto intro!: weak_tokens_ok_goto\<close>)
  show "counts_ok P ?s" using D(3) by (simp add: counts_ok_def)
  show "holders_ok ?s" using D(4) pc by (simp add: holders_ok_def waiting_def whose_upd_same)
  show "unowners_ok ?s" using D(5) pc by (simp add: unowners_ok_def whose_upd_same)
  show "droppers_ok ?s" using D(6) pc by (simp add: droppers_ok_def whose_upd_same)
  have "whose locker (pcs ?s) = {}" "whose weak_dropper (pcs ?s) = {}"
    using w(1) wd by (simp_all add: whose_upd)
  moreover have "uint (weak ?s) = int (size (weaks ?s))" "uint (weak ?s) \<le> 2 ^ 31"
    using w(2,3) uint_minus_one [OF nz] by simp_all
  ultimately show "weak_ok ?s"
    unfolding weak_ok_def using iw one by simp
  show "queue_ok ?s" using D(8) by (simp add: queue_ok_def)
  have "rely P s ?s t'" for t'
    by (auto simp: rely_def owner_acts_def may_merge_def sole_def)
  then show "pc_ok P ?s t' (pcs ?s t')" for t'
    using pcs_ok [OF I, of ?s t Idle] by simp
qed

section \<open>The weak count and its lock\<close>

lemma inv_weak_change:
  assumes I: "state_ok P s" and s': "s' = goto t c (s\<lparr>weak := w, weaks := W, freed := f\<rparr>)"
    and tok: "tokens_ok s'" "weak_tokens_ok s'" and w: "weak_ok s'"
    and roles: "holder c = holder (pcs s t)" "unowner c = unowner (pcs s t)" "dropper c = dropper (pcs s t)"
    and ok: "pc_ok P s' t c"
    and others: "\<And>t'. t' \<noteq> t \<Longrightarrow> exclusive (pcs s t') \<Longrightarrow> sole s t' \<Longrightarrow> W = weaks s"
  shows "state_ok P s'"
proof (rule state_okI)
  note D = state_okD [OF I]
  note R = whose_upd_same [of holder c "pcs s" t] whose_upd_same [of unowner c "pcs s" t]
    whose_upd_same [of dropper c "pcs s" t]
  show "counts_ok P s'" using D(3) by (simp add: counts_ok_def s')
  show "holders_ok s'" using D(4) R roles by (simp add: holders_ok_def waiting_def s')
  show "unowners_ok s'" using D(5) R roles by (simp add: unowners_ok_def s')
  show "droppers_ok s'" using D(6) R roles by (simp add: droppers_ok_def s')
  show "queue_ok s'" using D(8) by (simp add: queue_ok_def s')
  have "rely P s s' t'" if "t' \<noteq> t" for t'
    using others [OF that] by (auto simp: rely_def owner_acts_def may_merge_def sole_def s')
  then show "pc_ok P s' t' (pcs s' t')" for t'
    using pcs_ok [OF I _ ok] by (simp add: s')
qed (rule tok w)+

lemma inv_lock:
  assumes I: "state_ok P s" and pc: "pcs s t = Uniq_lock" and one: "weak s = 1"
  shows "state_ok P (goto t Uniq_shared (s\<lparr>weak := WEAK_LOCKED_COUNT\<rparr>))" (is "state_ok P ?s")
proof -
  note D = state_okD [OF I]
  have ex: "exclusive (pcs s t)" using pc by simp
  note tok = refs_of_exclusive [OF I ex]
  have "weak s \<noteq> WEAK_LOCKED_COUNT" using one by (simp add: WEAK_LOCKED_COUNT_def)
  then have W: "whose locker (pcs s) = {}" "uint (weak s) = int (size (weaks s)) + of_bool (implicit_weak s)"
    using weak_unlocked [OF I] by auto
  have none: "weaks s = {#}" using W(2) one tok(3) by (simp add: implicit_weak_def)
  have "?s = goto t Uniq_shared (s\<lparr>weak := WEAK_LOCKED_COUNT, weaks := weaks s, freed := freed s\<rparr>)" by simp
  then show ?thesis
  proof (rule inv_weak_change [OF I])
    show "tokens_ok ?s"
      by (rule tokens_ok_refs [of "goto t Uniq_shared s"]) (use D(1) pc in \<open>auto intro!: tokens_ok_goto\<close>)
    show "weak_tokens_ok ?s"
      by (rule weak_tokens_ok_weaks [of "goto t Uniq_shared s"]) (use D(2) in \<open>auto intro!: weak_tokens_ok_goto\<close>)
    show "weak_ok ?s"
      using D(7) W(1) none tok(3,5) by (simp add: weak_ok_def implicit_weak_def whose_upd)
    show "pc_ok P ?s t Uniq_shared" using D(9) [of t] pc by (simp add: owner_acts_def)
  qed (use pc in auto)
qed

lemma inv_unlock:
  assumes I: "state_ok P s" and pc: "pcs s t = Uniq_unlock unique"
  shows "state_ok P (goto t (if unique then Mut else Idle) (s\<lparr>weak := 1\<rparr>))" (is "state_ok P (goto t ?c ?s)")
proof -
  note D = state_okD [OF I]
  have t: "t \<in> whose locker (pcs s)" using pc by (simp add: in_whose)
  then have ne: "whose locker (pcs s) \<noteq> {}" by auto
  note L = locker_facts [OF I ne]
  have only: "whose locker (pcs s) = {t}" using alone_eq [OF L(1) t] .
  have wd: "whose weak_dropper (pcs s) = {}" using D(7) L(4) by (simp add: weak_ok_def)
  have "goto t ?c ?s = goto t ?c (s\<lparr>weak := 1, weaks := weaks s, freed := freed s\<rparr>)" by simp
  then show ?thesis
  proof (rule inv_weak_change [OF I])
    show "tokens_ok (goto t ?c ?s)"
      by (rule tokens_ok_refs [of "goto t ?c s"]) (use D(1) pc in \<open>auto intro!: tokens_ok_goto\<close>)
    show "weak_tokens_ok (goto t ?c ?s)"
      by (rule weak_tokens_ok_weaks [of "goto t ?c s"]) (use D(2) in \<open>auto intro!: weak_tokens_ok_goto\<close>)
    show "weak_ok (goto t ?c ?s)"
      using D(7) L(3,4) only wd by (simp add: weak_ok_def implicit_weak_def whose_upd)
    show "pc_ok P (goto t ?c ?s) t ?c" using D(9) [of t] pc by (simp add: sole_def)
  qed (use pc in auto)
qed

lemma inv_downgrade:
  assumes I: "state_ok P s" and pc: "pcs s t = Down_cas u (weak s)"
  shows "state_ok P (goto t Idle (s\<lparr>weak := weak s + 1, weaks := add_mset t (weaks s)\<rparr>))" (is "state_ok P ?s")
proof -
  note D = state_okD [OF I]
  have lt: "uint (weak s) < 2 ^ 31" using D(9) [of t] pc by simp
  then have "weak s \<noteq> WEAK_LOCKED_COUNT" using uint_WEAK_LOCKED_COUNT by (intro notI) simp
  note W = weak_unlocked [OF I disjI2 [OF disjI2 [OF this]]]
  have busy: "busy (pcs s t)" using pc by (simp add: busy_def)
  have "refs s \<noteq> {#}" using lender_token [OF D(1), of t u] pc by auto
  then have d: "drops s = 0" using D(6) by (auto simp: droppers_ok_def)
  have "?s = goto t Idle (s\<lparr>weak := weak s + 1, weaks := add_mset t (weaks s), freed := freed s\<rparr>)" by simp
  then show ?thesis
  proof (rule inv_weak_change [OF I])
    show "tokens_ok ?s"
      by (rule tokens_ok_refs [of "goto t Idle s"]) (use D(1) pc in \<open>auto intro!: tokens_ok_goto\<close>)
    show "weak_tokens_ok ?s"
      by (rule weak_tokens_ok_weaks [of "goto t Idle s"]) (use D(2) in \<open>auto intro!: weak_tokens_ok_goto\<close>)
    have "whose locker (pcs ?s) = {}" "whose weak_dropper (pcs ?s) = whose weak_dropper (pcs s)"
      using W(1) pc by (simp_all add: whose_upd whose_out)
    moreover have "uint (weak ?s) = int (size (weaks ?s)) + of_bool (implicit_weak ?s)" "uint (weak ?s) \<le> 2 ^ 31"
      using W(2,3) lt d uint32_plus_one [OF W(3)] by (simp_all add: implicit_weak_def)
    ultimately show "weak_ok ?s"
      using D(7) d unfolding weak_ok_def by (simp add: implicit_weak_def)
  qed (use pc not_sole [OF I busy] in auto)
qed

end
