(* ===== verification/Protocol_Safety.thy ===== *)
theory Protocol_Safety
  imports Protocol_Steps
begin

text \<open>
  The invariant holds in every state that is reached quietly, and what follows from it: the value
  is dropped at most once and never while a reference exists, memory is freed only when nothing
  refers to it, an exclusive borrow is exclusive, nothing leaks, and which errors can occur.
\<close>

section \<open>Actions that are not steps of an operation\<close>

lemma goto_same: "pcs s t = c \<Longrightarrow> goto t c s = s"
  by (cases s) (simp add: goto_def fun_upd_idem)

lemma tokens_ok_lend:
  assumes "tokens_ok s" "lendable s u" "pcs s t = Idle" "\<not> exclusive c" "borrows c = Some u"
  shows "tokens_ok (goto t c s)"
  unfolding tokens_ok_def
proof
  fix v
  have "lent (goto t c s) v \<Longrightarrow> lent s v \<or> v = u"
    using assms(3,5) by (auto simp: lent_def split: if_splits)
  then show "of_bool (exclusive (pcs (goto t c s) v)) + of_bool (lent (goto t c s) v)
      \<le> count (refs (goto t c s)) v"
    using tokens_okD [OF assms(1), of v] assms(2,3,4)
    by (cases "v = u"; cases "v = t"; cases "lent (goto t c s) v") (auto simp: lendable_def Suc_le_eq)
qed

lemma tokens_ok_spare:
  assumes "tokens_ok s" "spare s t" "pcs s t = Idle" "borrows c = None"
  shows "tokens_ok (goto t c s)"
  unfolding tokens_ok_def
proof
  fix v
  have "lent (goto t c s) v \<Longrightarrow> lent s v"
    using assms(4) by (auto simp: lent_def split: if_splits)
  then have l: "of_bool (lent (goto t c s) v) \<le> (of_bool (lent s v) :: nat)" by simp
  show "of_bool (exclusive (pcs (goto t c s) v)) + of_bool (lent (goto t c s) v)
      \<le> count (refs (goto t c s)) v"
  proof (cases "v = t")
    case True
    have "of_bool (exclusive c) + of_bool (lent (goto t c s) t) \<le> Suc (of_bool (lent s t))"
      using l True by (cases "exclusive c") auto
    also have "\<dots> \<le> count (refs s) t" using assms(2,3) by (simp add: spare_def Suc_le_eq)
    finally show ?thesis using True by simp
  next
    case False
    then show ?thesis
      using order_trans [OF add_left_mono [OF l] tokens_okD [OF assms(1), of v]] by simp
  qed
qed

lemma inv_begin_lend:
  assumes I: "state_ok P s" and "pcs s t = Idle" "lendable s u"
  shows "state_ok P (goto t (Inc_load u) s)" "state_ok P (goto t (Inc_shared u) s)" "state_ok P (goto t (Down_load u) s)"
  using assms state_okD(1,2) [OF I]
  by (auto intro!: inv_goto tokens_ok_lend weak_tokens_ok_goto simp: same_roles_def)

lemma inv_begin_spare:
  assumes I: "state_ok P s" and "pcs s t = Idle" "spare s t"
  shows "state_ok P (goto t Dec_load s)" "state_ok P (goto t Uniq_load s)"
  using assms state_okD(1,2) [OF I]
  by (auto intro!: inv_goto tokens_ok_spare weak_tokens_ok_goto simp: same_roles_def)

lemma inv_begin_upgrade:
  assumes I: "state_ok P s" and "pcs s t = Idle" "u \<in># weaks s"
  shows "state_ok P (goto t (Up_load u) s)"
proof (rule inv_goto [OF I])
  show "weak_tokens_ok (goto t (Up_load u) s)"
    unfolding weak_tokens_ok_def
  proof
    fix v
    have "lent_weak (goto t (Up_load u) s) v \<Longrightarrow> lent_weak s v \<or> v = u"
      by (auto simp: lent_weak_def split: if_splits)
    moreover have "lent_weak s v \<Longrightarrow> v \<in># weaks s"
      using weak_lender_token [OF state_okD(2) [OF I]] by (auto simp: lent_weak_def)
    ultimately show "of_bool (lent_weak (goto t (Up_load u) s) v) \<le> count (weaks (goto t (Up_load u) s)) v"
      using assms(3) by (auto simp: Suc_le_eq)
  qed
qed (use assms state_okD(1) [OF I] in \<open>auto intro!: tokens_ok_goto simp: same_roles_def\<close>)

lemma inv_weak_clone:
  assumes I: "state_ok P s" and pc: "pcs s t = Idle" and u: "u \<in># weaks s"
    and le: "\<not> weak s > WEAK_OVERFLOW_THRESHOLD"
  shows "state_ok P (s\<lparr>weak := weak s + 1, weaks := add_mset t (weaks s)\<rparr>)" (is "state_ok P ?s")
proof -
  note D = state_okD [OF I]
  have ne: "weaks s \<noteq> {#}" using u by auto
  note W = weak_unlocked [OF I disjI1 [OF ne]]
  have lt: "uint (weak s) \<le> 2 ^ 31 - 1"
    using le uint_WEAK_OVERFLOW_THRESHOLD by (simp add: word_less_def not_less)
  have s': "?s = goto t Idle (s\<lparr>weak := weak s + 1, weaks := add_mset t (weaks s), freed := freed s\<rparr>)"
    using pc by (cases s) (simp add: goto_def fun_upd_idem)
  show ?thesis
  proof (rule inv_weak_change [OF I s'])
    show "tokens_ok ?s" by (rule tokens_ok_refs [OF D(1)]) simp_all
    show "weak_tokens_ok ?s" by (rule weak_tokens_ok_weaks [OF D(2)]) simp_all
    have "uint (weak ?s) = int (size (weaks ?s)) + of_bool (implicit_weak ?s)" "uint (weak ?s) \<le> 2 ^ 31"
      using W(2,3) lt uint32_plus_one [OF W(3)] by (simp_all add: implicit_weak_def)
    then show "weak_ok ?s" using D(7) W(1) ne unfolding weak_ok_def by (simp add: implicit_weak_def)
  qed (use pc ne in \<open>auto simp: sole_def\<close>)
qed

lemma weak_tokens_ok_spare:
  assumes "weak_tokens_ok s" "spare_weak s t" "pcs s' = pcs s" "\<And>v. count (weaks s - {#t#}) v \<le> count (weaks s') v"
  shows "weak_tokens_ok s'"
  unfolding weak_tokens_ok_def
proof
  fix v
  have l: "lent_weak s' v = lent_weak s v" by (simp add: lent_weak_def assms(3))
  have "of_bool (lent_weak s v) \<le> count (weaks s - {#t#}) v"
    using assms(1,2) by (cases "v = t") (auto simp: weak_tokens_ok_def spare_weak_def)
  then show "of_bool (lent_weak s' v) \<le> count (weaks s') v"
    unfolding l using assms(4) [of v] by (rule order_trans)
qed

lemma spare_weak_token: "spare_weak s t \<Longrightarrow> t \<in># weaks s"
  unfolding spare_weak_def using count_greater_zero_iff [of "weaks s" t] by linarith

lemma inv_weak_drop:
  assumes I: "state_ok P s" and pc: "pcs s t = Idle" and spare: "spare_weak s t"
  shows "state_ok P (weak_sub (s\<lparr>weaks := weaks s - {#t#}\<rparr>))" (is "state_ok P ?s")
proof -
  note D = state_okD [OF I]
  have t: "t \<in># weaks s" by (rule spare_weak_token [OF spare])
  then have ne: "weaks s \<noteq> {#}" by auto
  note W = weak_unlocked [OF I disjI1 [OF ne]]
  have sz: "int (size (weaks s - {#t#})) = int (size (weaks s)) - 1" "0 < size (weaks s)"
    using t ne by (auto simp: size_Diff_singleton nonempty_has_size)
  have "(0 :: int) \<le> of_bool (implicit_weak s)" by simp
  then have "0 < uint (weak s)" using W(2) sz(2) by linarith
  then have nz: "weak s \<noteq> 0" by auto
  have emp: "weaks s - {#t#} = {#} \<longleftrightarrow> size (weaks s) = 1"
  proof -
    have "weaks s - {#t#} = {#} \<longleftrightarrow> int (size (weaks s - {#t#})) = 0" by simp
    then show ?thesis using sz by linarith
  qed
  have one: "weak s = 1 \<longleftrightarrow> weaks s - {#t#} = {#} \<and> \<not> implicit_weak s"
    unfolding uint32_eq_1 emp W(2) using sz(2) by auto
  have s': "?s = goto t Idle (s\<lparr>weak := weak s - 1, weaks := weaks s - {#t#}, freed := (weak s = 1)\<rparr>)"
    using pc by (cases s) (simp add: goto_def weak_sub_def fun_upd_idem)
  show ?thesis
  proof (rule inv_weak_change [OF I s'])
    show "tokens_ok ?s" by (rule tokens_ok_refs [OF D(1)]) simp_all
    show "weak_tokens_ok ?s" by (rule weak_tokens_ok_spare [OF D(2) spare]) simp_all
    have "uint (weak ?s) = int (size (weaks ?s)) + of_bool (implicit_weak ?s)" "uint (weak ?s) \<le> 2 ^ 31"
      using W(2,3) sz uint_minus_one [OF nz] by (simp_all add: implicit_weak_def)
    moreover have "freed ?s \<longleftrightarrow> weaks ?s = {#} \<and> \<not> implicit_weak ?s"
      using one by (simp add: implicit_weak_def)
    ultimately show "weak_ok ?s" using D(7) W(1) unfolding weak_ok_def by simp
  qed (use pc ne in \<open>auto simp: sole_def\<close>)
qed

lemma inv_send_weak:
  assumes I: "state_ok P s" and spare: "spare_weak s t"
  shows "state_ok P (s\<lparr>weaks := add_mset u (weaks s - {#t#})\<rparr>)" (is "state_ok P ?s")
proof -
  note D = state_okD [OF I]
  have t: "t \<in># weaks s" by (rule spare_weak_token [OF spare])
  then have ne: "weaks s \<noteq> {#}" by auto
  note W = weak_unlocked [OF I disjI1 [OF ne]]
  have sz: "size (add_mset u (weaks s - {#t#})) = size (weaks s)"
    using t by (simp add: size_Suc_Diff1)
  have s': "?s = goto t (pcs s t) (s\<lparr>weak := weak s, weaks := add_mset u (weaks s - {#t#}), freed := freed s\<rparr>)"
    by (cases s) (simp add: goto_def)
  show ?thesis
  proof (rule inv_weak_change [OF I s'])
    show "tokens_ok ?s" by (rule tokens_ok_refs [OF D(1)]) simp_all
    show "weak_tokens_ok ?s" by (rule weak_tokens_ok_spare [OF D(2) spare]) simp_all
    have "uint (weak ?s) = int (size (weaks ?s)) + of_bool (implicit_weak ?s)" "uint (weak ?s) \<le> 2 ^ 31"
      using W(2,3) sz by (simp_all add: implicit_weak_def)
    then show "weak_ok ?s"
      using D(7) W(1) ne unfolding weak_ok_def by (simp add: implicit_weak_def)
    have "rely P s ?s t"
      using ne by (auto simp: rely_def owner_acts_def may_merge_def sole_def)
    then show "pc_ok P ?s t (pcs s t)" by (rule pc_ok_stable [OF D(9)])
  qed (use ne in \<open>auto simp: sole_def\<close>)
qed

lemma inv_send:
  assumes I: "state_ok P s" and spare: "spare s t"
  shows "state_ok P (gain u (lose t s))" (is "state_ok P ?s")
proof (rule state_okI)
  note D = state_okD [OF I]
  have t: "t \<in># refs s" using spare unfolding spare_def by (auto intro: count_pos simp: Suc_le_eq)
  have sz: "size (add_mset u (refs s - {#t#})) = size (refs s)"
    using t by (simp add: size_Suc_Diff1)
  have ne: "refs s \<noteq> {#}" using t by auto
  show "tokens_ok ?s"
    unfolding tokens_ok_def
  proof
    fix v
    have "lent ?s v = lent s v" by (simp add: lent_def)
    then show "of_bool (exclusive (pcs ?s v)) + of_bool (lent ?s v) \<le> count (refs ?s) v"
      using tokens_okD [OF D(1), of v] spare by (cases "v = t") (auto simp: spare_def)
  qed
  show "weak_tokens_ok ?s" by (rule weak_tokens_ok_weaks [OF D(2)]) simp_all
  show "counts_ok P ?s" using D(3) sz by (simp add: counts_ok_def)
  show "holders_ok ?s" using D(4) by (simp add: holders_ok_def waiting_def)
  show "unowners_ok ?s" using D(5) by (simp add: unowners_ok_def)
  show "droppers_ok ?s" using D(6) ne by (simp add: droppers_ok_def)
  show "weak_ok ?s" by (rule weak_ok_frame [OF D(7)]) simp_all
  show "queue_ok ?s" using D(8) by (simp add: queue_ok_def)
  have "rely P s ?s t'" for t'
  proof -
    have "\<not> (exclusive (pcs s t') \<and> sole s t')"
      using t spare by (auto simp: sole_def spare_def split: if_splits)
    then show ?thesis by (auto simp: rely_def owner_acts_def may_merge_def)
  qed
  then show "pc_ok P ?s t' (pcs ?s t')" for t'
    using pc_ok_stable [OF D(9) [of t'], of ?s] by simp
qed

lemma inv_die:
  assumes I: "state_ok P s" and pc: "pcs s (owner P) = Idle"
  shows "state_ok P (s\<lparr>owner_dead := True\<rparr>)" (is "state_ok P ?s")
proof (rule state_okI)
  note D = state_okD [OF I]
  show "tokens_ok ?s" "weak_tokens_ok ?s"
    using D(1,2) by (simp_all add: tokens_ok_def lent_def weak_tokens_ok_def lent_weak_def)
  show "counts_ok P ?s" using D(3) by (simp add: counts_ok_def)
  show "holders_ok ?s" using D(4) by (simp add: holders_ok_def waiting_def)
  show "unowners_ok ?s" using D(5) by (simp add: unowners_ok_def)
  show "droppers_ok ?s" using D(6) by (simp add: droppers_ok_def)
  show "weak_ok ?s" by (rule weak_ok_frame [OF D(7)]) simp_all
  show "queue_ok ?s" by (simp add: queue_ok_def)
  have "rely P s ?s t'" if "t' \<noteq> owner P" for t'
    using that by (auto simp: rely_def owner_acts_def may_merge_def sole_def)
  then show "pc_ok P ?s t' (pcs ?s t')" for t'
    using pc_ok_stable [OF D(9) [of t'], of ?s] pc by (cases "t' = owner P") auto
qed

lemma inv_close:
  assumes I: "state_ok P s" and "owner_dead s"
  shows "state_ok P (s\<lparr>queue_alive := False\<rparr>)" (is "state_ok P ?s")
proof (rule state_okI)
  note D = state_okD [OF I]
  show "tokens_ok ?s" "weak_tokens_ok ?s"
    using D(1,2) by (simp_all add: tokens_ok_def lent_def weak_tokens_ok_def lent_weak_def)
  show "counts_ok P ?s" using D(3) by (simp add: counts_ok_def)
  show "holders_ok ?s" using D(4) by (simp add: holders_ok_def waiting_def)
  show "unowners_ok ?s" using D(5) by (simp add: unowners_ok_def)
  show "droppers_ok ?s" using D(6) by (simp add: droppers_ok_def)
  show "weak_ok ?s" by (rule weak_ok_frame [OF D(7)]) simp_all
  show "queue_ok ?s" using assms(2) by (simp add: queue_ok_def)
  have "rely P s ?s t'" for t'
    by (auto simp: rely_def owner_acts_def may_merge_def sole_def)
  then show "pc_ok P ?s t' (pcs ?s t')" for t'
    using pc_ok_stable [OF D(9) [of t'], of ?s] by simp
qed

section \<open>The steps of operations\<close>

lemma me_owner: "params_ok P \<Longrightarrow> me P s t = Inr (owner_sid P) \<longleftrightarrow> owner_acts P s t"
  by (auto simp: me_def params_ok_def owner_acts_def)

lemma owner_of_inv:
  "state_ok P s \<Longrightarrow> owner_id (biased_of (hdr s)) = Some sid \<Longrightarrow> sid = owner_sid P"
  using state_okD(3) [of P s] by (auto simp: counts_ok_def split: if_splits)

text \<open>While the owner acts and does not release ownership, an owned header is not merged.\<close>

lemma owned_not_merged:
  assumes I: "state_ok P s" and own: "owner_acts P s t" and o: "owner_id (biased_of (hdr s)) \<noteq> None"
    and nu: "\<not> unowner (pcs s t)"
  shows "\<not> merged (shared_of (hdr s))"
proof
  assume m: "merged (shared_of (hdr s))"
  then have "alone (whose unowner (pcs s))" using state_okD(5) [OF I] o by (simp add: unowners_ok_def)
  then obtain t' where t': "unowner (pcs s t')" by (auto simp: alone_def whose_def)
  then have "may_merge P s t'" by (rule unowner_facts [OF I])
  then have "t' = t" using own by (auto simp: may_merge_def owner_acts_def)
  then show False using t' nu by simp
qed

lemma attempt_facts:
  assumes I: "state_ok P s" and P: "params_ok P" and nu: "\<not> unowner (pcs s t)"
    and a: "attempt_biased_increment (debug P) (me P s t) (biased_word (hdr s)) = Inr (Some raw)"
  shows "owner_acts P s t" "\<not> merged (shared_of (hdr s))"
    "attempt_biased_increment (debug P) (Inr (owner_sid P)) (biased_word (hdr s)) = Inr (Some raw)"
proof -
  obtain sid where m: "me P s t = Inr sid" and o: "owner_id (biased_of (hdr s)) = Some sid"
    using attempt_biased_increment_Some [OF a] by blast
  have "sid = owner_sid P" by (rule owner_of_inv [OF I o])
  then show own: "owner_acts P s t"
    and "attempt_biased_increment (debug P) (Inr (owner_sid P)) (biased_word (hdr s)) = Inr (Some raw)"
    using m a me_owner [OF P, of s t] by auto
  show "\<not> merged (shared_of (hdr s))" by (rule owned_not_merged [OF I own _ nu]) (simp add: o)
qed

lemma inv_inc_load:
  assumes I: "state_ok P s" and P: "params_ok P"
    and a: "attempt_biased_increment (debug P) (me P s t) (biased_word (hdr s)) = Inr r"
  shows "pcs s t = Inc_load u \<Longrightarrow>
      state_ok P (goto t (case r of Some raw \<Rightarrow> Inc_store u raw | None \<Rightarrow> Inc_shared u) s)"
    and "pcs s t = Up_load u \<Longrightarrow>
      state_ok P (goto t (case r of Some raw \<Rightarrow> Up_store u raw | None \<Rightarrow> Up_shared u) s)"
  using attempt_facts [OF I P _ , of t] a
  by (cases r; auto intro!: inv_goto_on [OF I] simp: same_roles_def)+

lemma inv_inc_store:
  assumes I: "state_ok P s" and pc: "pcs s t = Inc_store u raw \<or> pcs s t = Up_store u raw"
  shows "state_ok P (goto t Idle (gain t (set_biased raw s)))" (is "state_ok P ?s")
proof -
  note D = state_okD [OF I]
  have own: "owner_acts P s t" "\<not> merged (shared_of (hdr s))"
    and a: "attempt_biased_increment (debug P) (Inr (owner_sid P)) (biased_word (hdr s)) = Inr (Some raw)"
    using D(9) [of t] pc by auto
  have raw: "BiasedWord_from_raw raw =
      (biased_of (hdr s))\<lparr>biased_count := biased_count (biased_of (hdr s)) + 1\<rparr>"
    "uint (biased_count (biased_of (hdr s)) + 1) = biased_value (hdr s) + 1"
    using attempt_biased_increment_Some [OF a] by auto
  have pos: "0 < uint (biased_count (biased_of (hdr s)) + 1)"
    using raw(2) biased_value_range(1) [of "hdr s"] by linarith
  have s': "?s = goto t Idle (set_biased raw s\<lparr>refs := add_mset t (refs s)\<rparr>)"
    by (cases s) (simp add: goto_def gain_def set_biased_def)
  show ?thesis
  proof (rule inv_biased [OF I own raw(1) pos _ s'])
    show "tokens_ok ?s"
      by (rule tokens_ok_refs [of "goto t Idle s"]) (use D(1) in \<open>auto intro!: tokens_ok_goto\<close>)
    show "weak_tokens_ok ?s"
      by (rule weak_tokens_ok_weaks [of "goto t Idle s"]) (use D(2) in \<open>auto intro!: weak_tokens_ok_goto\<close>)
  qed (use pc raw(2) in \<open>auto simp: busy_def same_roles_def\<close>)
qed

lemma inv_inc_shared:
  assumes I: "state_ok P s" and pc: "pcs s t = Inc_shared u" and quiet: "\<not> waiting s"
    and inc: "increment_strong_shared (shared_word (hdr s)) = Inr raw"
  shows "state_ok P (goto t Idle (gain t (set_shared raw s)))"
proof -
  note D = state_okD [OF I]
  have raw: "raw = shared_word (hdr s) + 1" "shared_value (hdr s) \<le> 2 ^ 60 - 1"
    using inc by (auto simp: increment_strong_shared_Inr)
  have "shared_value (hdr s) \<noteq> - 1"
    using quiet D(3) by (auto simp: waiting_def counts_ok_def split: if_splits)
  then obtain n where n: "SharedWord_from_raw raw = (shared_of (hdr s))\<lparr>shared_count := n\<rparr>"
    "SharedCount_value n = shared_value (hdr s) + 1"
    using shared_after_fetch_add [of "shared_word (hdr s)"] raw by auto
  show ?thesis
    by (rule inv_shared_up [OF I quiet n])
      (use lender_token [OF D(1), of t u] pc in \<open>auto simp: busy_def same_roles_def\<close>)
qed

lemma shared_read_facts:
  assumes I: "state_ok P s"
  shows "merged (shared_of (hdr s)) \<Longrightarrow> 0 \<le> shared_value (hdr s)" "- (2 ^ 20) \<le> shared_value (hdr s)"
proof -
  note D = state_okD [OF I]
  show m: "merged (shared_of (hdr s)) \<Longrightarrow> 0 \<le> shared_value (hdr s)"
    using D(3) by (simp add: counts_ok_def)
  show "- (2 ^ 20) \<le> shared_value (hdr s)"
  proof (cases "merged (shared_of (hdr s))")
    case True
    then show ?thesis using m by simp
  next
    case False
    then have "biased_value (hdr s) + shared_value (hdr s) = int (size (refs s))"
      using D(3) by (simp add: counts_ok_def)
    then show ?thesis using biased_value_range(2) [of "hdr s"] by linarith
  qed
qed

lemma inv_up_shared:
  assumes I: "state_ok P s" and pc: "pcs s t = Up_shared u \<or> pcs s t = Up_cas u old"
  shows "state_ok P (goto t (Up_cas u (shared_word (hdr s))) s)"
  by (rule inv_goto_on [OF I]) (use pc shared_read_facts [OF I] in \<open>auto simp: same_roles_def\<close>)

lemma inv_up_cas:
  assumes I: "state_ok P s" and pc: "pcs s t = Up_cas u (shared_word (hdr s))" and quiet: "\<not> waiting s"
    and up: "unless_zero_update dbg (shared_word (hdr s)) = Inr (Some new)"
  shows "state_ok P (goto t Idle (gain t (set_shared new s)))"
proof -
  obtain n where n: "SharedWord_from_raw new = (shared_of (hdr s))\<lparr>shared_count := n\<rparr>"
    "SharedCount_value n = shared_value (hdr s) + 1"
    "\<not> (merged (shared_of (hdr s)) \<and> shared_value (hdr s) = 0)"
    using unless_zero_update_Some [OF up] by blast
  show ?thesis
    by (rule inv_shared_up [OF I quiet n(1,2)])
      (use n(3) pc state_okD(3) [OF I] in \<open>auto simp: busy_def same_roles_def counts_ok_def\<close>)
qed

lemma inv_dec_load:
  assumes I: "state_ok P s" and P: "params_ok P" and pc: "pcs s t = Dec_load"
    and d: "decrement_biased_next (debug P) (me P s t) (biased_word (hdr s)) = Inr r"
  shows "state_ok P (goto t (case r of
          None \<Rightarrow> Dec_shared | Some (Biased_store raw) \<Rightarrow> Dec_store raw | Some Biased_slow \<Rightarrow> Dec_slow) s)"
proof -
  have owned: "owner_acts P s t \<and> \<not> merged (shared_of (hdr s)) \<and> me P s t = Inr (owner_sid P)"
    if "me P s t = Inr sid" "owner_id (biased_of (hdr s)) = Some sid" for sid
    using that owner_of_inv [OF I that(2)] me_owner [OF P, of s t] owned_not_merged [OF I, of t] pc by auto
  show ?thesis
  proof (cases r)
    case None
    then show ?thesis using pc by (auto intro!: inv_goto_on [OF I] simp: same_roles_def)
  next
    case (Some bd)
    show ?thesis
    proof (cases bd)
      case (Biased_store raw)
      then have d': "decrement_biased_next (debug P) (me P s t) (biased_word (hdr s)) = Inr (Some (Biased_store raw))"
        using d Some by simp
      show ?thesis
        using decrement_biased_next_store [OF d'] d' owned pc Some Biased_store
        by (auto intro!: inv_goto_on [OF I] simp: same_roles_def)
    next
      case Biased_slow
      then have d': "decrement_biased_next (debug P) (me P s t) (biased_word (hdr s)) = Inr (Some Biased_slow)"
        using d Some by simp
      show ?thesis
        using decrement_biased_next_slow [OF d'] d' owned pc Some Biased_slow
        by (auto intro!: inv_goto_on [OF I] simp: same_roles_def)
    qed
  qed
qed

lemma inv_dec_store:
  assumes I: "state_ok P s" and pc: "pcs s t = Dec_store raw"
  shows "state_ok P (goto t Idle (lose t (set_biased raw s)))" (is "state_ok P ?s")
proof -
  note D = state_okD [OF I]
  have ex: "exclusive (pcs s t)" using pc by simp
  note tok = refs_of_exclusive [OF I ex]
  have own: "owner_acts P s t" "\<not> merged (shared_of (hdr s))"
    and a: "decrement_biased_next (debug P) (Inr (owner_sid P)) (biased_word (hdr s)) = Inr (Some (Biased_store raw))"
    using D(9) [of t] pc by auto
  obtain b where raw: "BiasedWord_from_raw raw = (biased_of (hdr s))\<lparr>biased_count := b\<rparr>"
    "uint b = biased_value (hdr s) - 1" "0 < uint b"
    using decrement_biased_next_store [OF a] by blast
  have s': "?s = goto t Idle (set_biased raw s\<lparr>refs := refs s - {#t#}\<rparr>)"
    by (cases s) (simp add: goto_def lose_def set_biased_def)
  show ?thesis
  proof (rule inv_biased [OF I own raw(1,3) _ s'])
    show "uint b - biased_value (hdr s) = int (size (refs s - {#t#})) - int (size (refs s))"
      using raw(2) tok(4) by linarith
    show "tokens_ok ?s"
      using tokens_ok_lose [OF D(1) ex, of Idle] by (auto simp: tokens_ok_def lent_def)
    show "weak_tokens_ok ?s"
      by (rule weak_tokens_ok_weaks [of "goto t Idle s"]) (use D(2) in \<open>auto intro!: weak_tokens_ok_goto\<close>)
  qed (use pc in \<open>auto simp: busy_def same_roles_def\<close>)
qed

lemma inv_dec_shared:
  assumes I: "state_ok P s" and pc: "pcs s t = Dec_shared \<or> pcs s t = Dec_cas old"
  shows "state_ok P (goto t (Dec_cas (shared_word (hdr s))) s)"
  by (rule inv_goto_on [OF I]) (use pc shared_read_facts [OF I] in \<open>auto simp: same_roles_def\<close>)

lemma inv_dec_cas:
  assumes I: "state_ok P s" and pc: "pcs s t = Dec_cas (shared_word (hdr s))"
    and step: "decrement_shared_next (shared_word (hdr s)) = Inr new"
    and res: "decrement_shared_result dbg (shared_word (hdr s)) new = Inr r"
  shows "state_ok P (goto t (case r of Do_queue \<Rightarrow> Dec_owner
             | Shared_done should_drop \<Rightarrow> if should_drop then Drop_value else Idle) (lose t (set_shared new s)))"
proof -
  obtain n where n: "SharedCount_value n = shared_value (hdr s) - 1"
    "SharedWord_from_raw new = (shared_of (hdr s))\<lparr>shared_count := n,
        queued := (queued (shared_of (hdr s)) \<or> SharedCount_value n < 0)\<rparr>"
    using decrement_shared_next_Inr [OF step] by blast
  show ?thesis
    by (rule inv_shared_down [OF I pc n(2,1)])
      (use res n(2) in \<open>cases r; auto simp: decrement_shared_result_Inr\<close>)
qed

lemma inv_merge_reads:
  assumes I: "state_ok P s"
  shows "pcs s t = Dec_owner \<Longrightarrow> owner_id (biased_of (hdr s)) = Some sid \<Longrightarrow> state_ok P (goto t (Dec_push sid) s)"
    and "pcs s t = Dec_push sid \<Longrightarrow> \<not> queue_alive s \<Longrightarrow> state_ok P (goto t Merge_biased s)"
    and "pcs s t = Merge_biased \<Longrightarrow> state_ok P (goto t (Merge_shared (biased_word (hdr s))) s)"
    and "pcs s t = Merge_shared b \<Longrightarrow> state_ok P (goto t (Merge_cas b (shared_word (hdr s))) s)"
    and "pcs s t = Merge_cas b old \<Longrightarrow> state_ok P (goto t (Merge_cas b (shared_word (hdr s))) s)"
  using owner_of_inv [OF I, of sid] state_okD(8) [OF I] state_okD(9) [OF I, of t] holder_facts(2) [OF I, of t]
  by (auto intro!: inv_goto_on [OF I] simp: same_roles_def queue_ok_def may_merge_def)

lemma inv_merge_cas_step:
  assumes I: "state_ok P s" and pc: "pcs s t = Merge_cas b (shared_word (hdr s))"
    and step: "explicit_merge_next b (shared_word (hdr s)) = Inr new"
  shows "state_ok P (goto t (Merge_unown new) (set_shared new s))"
proof -
  have "b = biased_word (hdr s)" using state_okD(9) [OF I, of t] pc by simp
  then obtain n where "SharedWord_from_raw new = (shared_of (hdr s))\<lparr>shared_count := n, merged := True\<rparr>"
    "SharedCount_value n = shared_value (hdr s) + biased_value (hdr s)"
    using explicit_merge_next_Inr [OF step] by blast
  then show ?thesis by (rule inv_merge_cas [OF I pc])
qed

lemma inv_uniq_load:
  assumes I: "state_ok P s" and P: "params_ok P" and pc: "pcs s t = Uniq_load"
  shows "state_ok P (goto t (if is_definitely_not_unique (me P s t) (biased_word (hdr s)) then Idle else Uniq_lock) s)"
proof (cases "is_definitely_not_unique (me P s t) (biased_word (hdr s))")
  case True
  then show ?thesis using pc by (auto intro!: inv_goto_on [OF I] simp: same_roles_def)
next
  case False
  have "pc_ok P s t Uniq_lock"
  proof (cases "owner_id (biased_of (hdr s))")
    case None
    then show ?thesis using state_okD(3) [OF I] by (auto simp: counts_ok_def split: if_splits)
  next
    case (Some sid)
    then have "me P s t = Inr sid"
      using False by (cases "me P s t") (auto simp: is_definitely_not_unique_def Let_def)
    then show ?thesis using owner_of_inv [OF I Some] me_owner [OF P, of s t] by simp
  qed
  then show ?thesis using False pc by (auto intro!: inv_goto_on [OF I] simp: same_roles_def)
qed

lemma sole_of_size: "t \<in># refs s \<Longrightarrow> size (refs s) = 1 \<Longrightarrow> refs s = {#t#}"
  using size_1_singleton_mset [of "refs s"] by auto

lemma inv_uniq_shared:
  assumes I: "state_ok P s" and pc: "pcs s t = Uniq_shared"
  shows "state_ok P (goto t (Uniq_biased (shared_word (hdr s))) s)"
proof -
  note D = state_okD [OF I]
  have lk: "whose locker (pcs s) \<noteq> {}" using pc by (auto simp: whose_def intro!: exI [of _ t])
  have ex: "exclusive (pcs s t)" using pc by simp
  have t: "t \<in># refs s" by (rule refs_of_exclusive [OF I ex])
  have sole: "size (refs s) = 1 \<Longrightarrow> sole s t"
    using sole_of_size [OF t] locker_facts(3) [OF I lk] by (simp add: sole_def)
  have "read_unique P s t (shared_word (hdr s))"
  proof (cases "merged (shared_of (hdr s))")
    case True
    then show ?thesis using D(3) sole by (auto simp: read_unique_def counts_ok_def)
  next
    case False
    then show ?thesis using D(3) D(9) [of t] pc sole by (auto simp: read_unique_def counts_ok_def)
  qed
  then show ?thesis using pc by (auto intro!: inv_goto_on [OF I] simp: same_roles_def)
qed

lemma unique_read:
  assumes I: "state_ok P s" and P: "params_ok P" and pc: "pcs s t = Uniq_biased raw"
  shows "\<exists>n. is_unique_of (debug P) (me P s t) raw (biased_word (hdr s)) = Inr (n = 1) \<and> (n = (1 :: int) \<longrightarrow> sole s t)"
proof -
  have r: "read_unique P s t raw" using state_okD(9) [OF I, of t] pc by simp
  show ?thesis
  proof (cases "merged (SharedWord_from_raw raw)")
    case True
    then show ?thesis
      using r is_unique_of_merged [of raw "debug P" "me P s t" "biased_word (hdr s)"] by (auto simp: read_unique_def)
  next
    case False
    then have f: "owner_acts P s t" "\<not> merged (shared_of (hdr s))" "0 \<le> biased_value (hdr s) + count_of_raw raw"
      "biased_value (hdr s) + count_of_raw raw = 1 \<longrightarrow> sole s t"
      using r by (auto simp: read_unique_def)
    have "owner_id (biased_of (hdr s)) = result_ok (me P s t)"
      using f(1,2) me_owner [OF P, of s t] state_okD(3) [OF I] by (simp add: counts_ok_def)
    then show ?thesis
      using is_unique_of_owned [OF False _ f(3), of "me P s t" "debug P"] f(4) by blast
  qed
qed

lemma inv_uniq_biased:
  assumes I: "state_ok P s" and P: "params_ok P" and pc: "pcs s t = Uniq_biased raw"
    and u: "is_unique_of (debug P) (me P s t) raw (biased_word (hdr s)) = Inr unique"
  shows "state_ok P (goto t (Uniq_unlock unique) s)"
  using unique_read [OF I P pc] u pc by (auto intro!: inv_goto_on [OF I] simp: same_roles_def)

lemma inv_downgrade_read:
  assumes I: "state_ok P s" and pc: "pcs s t = Down_load u \<or> pcs s t = Down_cas u old"
    and d: "downgrade_read t u s = Inr s'"
  shows "state_ok P s'"
proof -
  have "\<not> weak s > WEAK_OVERFLOW_THRESHOLD \<Longrightarrow> uint (weak s) < 2 ^ 31"
    using uint_WEAK_OVERFLOW_THRESHOLD by (simp add: word_less_def not_less)
  then show ?thesis
    using d pc by (auto simp: downgrade_read_def same_roles_def split: if_splits intro!: inv_goto_on [OF I])
qed

text \<open>Every access of an undisturbed step keeps the invariant.\<close>

lemma state_ok_access:
  assumes I: "state_ok P s" and P: "params_ok P" and a: "access P t (pcs s t) s = Inr s'"
    and quiet: "\<not> disturbs (Step t) s"
  shows "state_ok P s'"
proof (cases "pcs s t")
  case (Inc_load u)
  then show ?thesis using a inv_inc_load(1) [OF I P _ Inc_load] by (auto simp: checked_simps)
next
  case (Inc_store u raw)
  then show ?thesis using a inv_inc_store [OF I] by auto
next
  case (Inc_shared u)
  moreover have "\<not> waiting s" using quiet Inc_shared by (auto simp: disturbs_def)
  ultimately show ?thesis using a inv_inc_shared [OF I Inc_shared] by (auto simp: checked_simps)
next
  case (Up_load u)
  then show ?thesis using a inv_inc_load(2) [OF I P _ Up_load] by (auto simp: checked_simps)
next
  case (Up_store u raw)
  then show ?thesis using a inv_inc_store [OF I] by auto
next
  case (Up_shared u)
  then show ?thesis using a inv_up_shared [OF I] by auto
next
  case (Up_cas u old)
  have q: "\<not> waiting s" using quiet Up_cas by (auto simp: disturbs_def)
  have idle: "state_ok P (goto t Idle s)"
    using Up_cas by (auto intro!: inv_goto_on [OF I] simp: same_roles_def)
  show ?thesis
    using a Up_cas idle inv_up_shared [OF I, of t u old] inv_up_cas [OF I _ q]
    by (auto simp: checked_simps split: option.splits if_splits)
next
  case Dec_load
  then show ?thesis using a inv_dec_load [OF I P Dec_load] by (auto simp: checked_simps)
next
  case (Dec_store raw)
  then show ?thesis using a inv_dec_store [OF I] by auto
next
  case Dec_slow
  then show ?thesis
    using a inv_merge_owner [OF I Dec_slow] by (auto simp: checked_simps decrement_biased_slow_result_Inr)
next
  case (Dec_unown d)
  then show ?thesis using a inv_unown [OF I, of t] by auto
next
  case Dec_shared
  then show ?thesis using a inv_dec_shared [OF I] by auto
next
  case (Dec_cas old)
  then show ?thesis
    using a inv_dec_shared [OF I, of t old] inv_dec_cas [OF I]
    by (auto simp: checked_simps split: if_splits)
next
  case Dec_owner
  then show ?thesis using a inv_merge_reads(1) [OF I] by (auto split: option.splits)
next
  case (Dec_push sid)
  then show ?thesis using a inv_merge_reads(2) [OF I] inv_push [OF I] by (auto split: if_splits)
next
  case Merge_biased
  then show ?thesis using a inv_merge_reads(3) [OF I] by (auto split: if_splits)
next
  case (Merge_shared b)
  then show ?thesis using a inv_merge_reads(4) [OF I] by auto
next
  case (Merge_cas b old)
  then show ?thesis
    using a inv_merge_reads(5) [OF I] inv_merge_cas_step [OF I] by (auto simp: checked_simps split: if_splits)
next
  case (Merge_unown new)
  then show ?thesis
    using a inv_unown [OF I, of t]
    by (auto simp: checked_simps explicit_merge_result_def Let_def split: if_splits)
next
  case Drop_value
  then show ?thesis using a inv_drop_value [OF I] by (auto split: if_splits)
next
  case Drop_weak
  then show ?thesis using a inv_drop_weak [OF I] by auto
next
  case Uniq_load
  then show ?thesis using a inv_uniq_load [OF I P Uniq_load] by auto
next
  case Uniq_lock
  moreover have "state_ok P (goto t Idle s)"
    using Uniq_lock by (auto intro!: inv_goto_on [OF I] simp: same_roles_def)
  ultimately show ?thesis using a inv_lock [OF I] by (auto split: if_splits)
next
  case Uniq_shared
  then show ?thesis using a inv_uniq_shared [OF I] by auto
next
  case (Uniq_biased raw)
  then show ?thesis using a inv_uniq_biased [OF I P Uniq_biased] by (auto simp: checked_simps)
next
  case (Uniq_unlock unique)
  then show ?thesis using a inv_unlock [OF I Uniq_unlock] by auto
next
  case (Down_load u)
  then show ?thesis using a inv_downgrade_read [OF I, of t u] by auto
next
  case (Down_cas u old)
  then show ?thesis
    using a inv_downgrade_read [OF I, of t u old] inv_downgrade [OF I, of t u] by (auto split: if_splits)
qed (use a I in auto)

section \<open>The invariant holds in every state that is reached quietly\<close>

lemma whose_idle: "\<not> role Idle \<Longrightarrow> whose role (\<lambda>_. Idle) = {}"
  by (simp add: whose_def)

lemma state_ok_start:
  assumes "params_ok P"
  shows "state_ok P (start P)" "state_ok P (start_unowned t)"
  using assms
  by (auto simp: state_ok_def start_def start_unowned_def tokens_ok_def weak_tokens_ok_def lent_def
      lent_weak_def counts_ok_def holders_ok_def waiting_def unowners_ok_def droppers_ok_def weak_ok_def
      queue_ok_def implicit_weak_def init_for_words params_ok_def whose_idle)

lemma begin_op_Some: "begin_op allowed t c s = Some r \<longleftrightarrow> pcs s t = Idle \<and> allowed \<and> r = Inr (goto t c s)"
  by (auto simp: begin_op_def)

lemma state_ok_spurious:
  assumes I: "state_ok P s" and "spurious P t (pcs s t) s = Some (Inr s')"
  shows "state_ok P s'"
  using spurious_pc [OF assms(2)] inv_up_shared [OF I, of t] inv_dec_shared [OF I, of t]
    inv_merge_reads(5) [OF I, of t] inv_downgrade_read [OF I, of t]
  by auto

lemma state_ok_act:
  assumes I: "state_ok P s" and P: "params_ok P" and a: "act P a s = Some (Inr s')" and q: "\<not> disturbs a s"
  shows "state_ok P s'"
proof (cases a)
  case (Step t)
  then show ?thesis
    using a q state_ok_access [OF I P, of t s'] by (auto simp: advance_def split: if_splits)
next
  case (Spurious t)
  then show ?thesis using a state_ok_spurious [OF I] by (auto split: option.splits if_splits)
next
  case (Clone t u)
  then show ?thesis using a inv_begin_lend(1) [OF I] by (auto simp: begin_op_Some)
next
  case (Clone_shared t u)
  then show ?thesis using a inv_begin_lend(2) [OF I] by (auto simp: begin_op_Some)
next
  case (Drop t)
  then show ?thesis using a inv_begin_spare(1) [OF I] by (auto simp: begin_op_Some)
next
  case (Upgrade t u)
  then show ?thesis using a inv_begin_upgrade [OF I] by (auto simp: begin_op_Some)
next
  case (Downgrade t u)
  then show ?thesis using a inv_begin_lend(3) [OF I] by (auto simp: begin_op_Some)
next
  case (Get_mut t)
  then show ?thesis using a inv_begin_spare(2) [OF I] by (auto simp: begin_op_Some)
next
  case (Release t)
  then show ?thesis
    using a by (auto split: if_splits intro!: inv_goto_on [OF I] simp: same_roles_def)
next
  case (Weak_clone t u)
  then show ?thesis using a inv_weak_clone [OF I] by (auto split: if_splits)
next
  case (Weak_drop t)
  then show ?thesis using a inv_weak_drop [OF I] by (auto split: if_splits)
next
  case (Send t u)
  then show ?thesis using a inv_send [OF I] by (auto split: if_splits)
next
  case (Send_weak t u)
  then show ?thesis using a inv_send_weak [OF I] by (auto split: if_splits)
next
  case (Collect t)
  then show ?thesis using a inv_collect [OF I, of t] by (auto simp: may_merge_def split: if_splits)
next
  case Die
  then show ?thesis using a inv_die [OF I] by (auto split: if_splits)
next
  case Close
  then show ?thesis using a inv_close [OF I] by (auto split: if_splits)
qed

lemma quiet_state_ok:
  assumes "reachable_quiet P s" and "params_ok P"
  shows "state_ok P s"
  using assms(1)
proof (induction rule: reachable_quiet.induct)
  case (quiet_step s a s')
  then show ?case using state_ok_act assms(2) by blast
qed (use state_ok_start [OF assms(2)] in auto)

end
