(* ===== verification/Protocol_Theorems.thy ===== *)
theory Protocol_Theorems
  imports Protocol_Safety
begin

text \<open>
  What the interleaved model guarantees, and the runs in which the source goes wrong. The first
  group of properties holds for every interleaving in which no shared increment hits a negative
  unmerged count (\<open>reachable_quiet\<close>); the last group shows concrete schedules without that
  restriction, and the one race that remains even with it.
\<close>

section \<open>Consequences of the invariant\<close>

lemma freed_facts:
  assumes I: "state_ok P s" and "freed s"
  shows "refs s = {#}" "weaks s = {#}" "drops s = 1" "merged (shared_of (hdr s))"
    "whose weak_dropper (pcs s) = {}"
proof -
  have w: "weaks s = {#}" "drops s \<noteq> 0" "whose weak_dropper (pcs s) = {}"
    using state_okD(7) [OF I] assms(2) by (simp_all add: weak_ok_def implicit_weak_def)
  then show "weaks s = {#}" "whose weak_dropper (pcs s) = {}" by simp_all
  show "refs s = {#}" "drops s = 1" "merged (shared_of (hdr s))"
    using state_okD(6) [OF I] w(2) by (auto simp: droppers_ok_def)
qed

text \<open>Only the two stores that release ownership can touch freed memory.\<close>

lemma touches_freed:
  assumes I: "state_ok P s" and f: "freed s" and t: "touches (pcs s t)"
  shows "pcs s t = Dec_unown False \<or> (\<exists>new. pcs s t = Merge_unown new \<and> count_of_raw new \<noteq> 0)"
proof -
  note F = freed_facts [OF I f]
  have ex: "\<not> exclusive (pcs s t)"
    using exclusive_token [OF state_okD(1) [OF I], of t] F(1) by auto
  have bo: "borrows (pcs s t) = None"
    using lender_token [OF state_okD(1) [OF I], of t] F(1) by (cases "borrows (pcs s t)") auto
  have bw: "borrows_weak (pcs s t) = None"
    using weak_lender_token [OF state_okD(2) [OF I], of t] F(2) by (cases "borrows_weak (pcs s t)") auto
  have ho: "\<not> holder (pcs s t)" using holder_facts(2) [OF I, of t] F(4) by auto
  have dr: "\<not> dropper (pcs s t)" using dropper_facts(3) [OF I, of t] F(3) by auto
  have wd: "\<not> weak_dropper (pcs s t)" using F(5) by (auto simp: whose_def)
  show ?thesis using ex bo bw ho dr wd t by (cases "pcs s t") auto
qed

definition overflow :: "fault \<Rightarrow> bool" where
  "overflow e \<longleftrightarrow> e \<in> {Fatal Shared_refcnt_overflow, Fatal Merged_refcnt_overflow, Fatal Weak_refcnt_overflow}"

lemma owned_count_pos:
  assumes I: "state_ok P s" and own: "owner_acts P s t" and o: "owner_id (biased_of (hdr s)) \<noteq> None"
    and nu: "\<not> unowner (pcs s t)"
  shows "biased_count (biased_of (hdr s)) \<noteq> 0"
proof -
  have "\<not> merged (shared_of (hdr s))" by (rule owned_not_merged [OF assms])
  then have "0 < biased_value (hdr s)" using state_okD(3) [OF I] by (simp add: counts_ok_def)
  then show ?thesis by auto
qed

lemma attempt_no_error:
  assumes I: "state_ok P s" and P: "params_ok P" and nu: "\<not> unowner (pcs s t)"
  shows "attempt_biased_increment (debug P) (me P s t) (biased_word (hdr s)) \<noteq> Inl e"
proof
  assume a: "attempt_biased_increment (debug P) (me P s t) (biased_word (hdr s)) = Inl e"
  then obtain sid where m: "me P s t = Inr sid" "owner_id (biased_of (hdr s)) = Some sid"
    by (auto simp: attempt_biased_increment_def Let_def split: if_splits sum.splits option.splits)
  then have own: "owner_acts P s t" using owner_of_inv [OF I] me_owner [OF P] by blast
  show False
    using attempt_biased_increment_error [OF a] owned_count_pos [OF I own _ nu] m(2) by simp
qed

lemma dec_load_no_error:
  assumes I: "state_ok P s" and P: "params_ok P" and nu: "\<not> unowner (pcs s t)"
  shows "decrement_biased_next (debug P) (me P s t) (biased_word (hdr s)) \<noteq> Inl e"
proof
  assume a: "decrement_biased_next (debug P) (me P s t) (biased_word (hdr s)) = Inl e"
  then obtain sid where m: "me P s t = Inr sid" "owner_id (biased_of (hdr s)) = Some sid"
    by (auto simp: decrement_biased_next_def Let_def checked_simps split: if_splits sum.splits option.splits)
  then have own: "owner_acts P s t" using owner_of_inv [OF I] me_owner [OF P] by blast
  show False
    using decrement_biased_next_Inl [OF a] owned_count_pos [OF I own _ nu] m(2) by simp
qed

lemma dec_cas_no_error:
  assumes I: "state_ok P s" and pc: "pcs s t = Dec_cas (shared_word (hdr s))"
    and step: "decrement_shared_next (shared_word (hdr s)) = Inr new"
  shows "decrement_shared_result dbg (shared_word (hdr s)) new \<noteq> Inl e"
proof -
  obtain n where n: "SharedCount_value n = shared_value (hdr s) - 1"
    "SharedWord_from_raw new = (shared_of (hdr s))\<lparr>shared_count := n,
        queued := (queued (shared_of (hdr s)) \<or> SharedCount_value n < 0)\<rparr>"
    using decrement_shared_next_Inr [OF step] by blast
  have "exclusive (pcs s t)" using pc by simp
  then have "refs s \<noteq> {#}" by (rule refs_of_exclusive [OF I])
  then have "merged (shared_of (hdr s)) \<longrightarrow> 0 \<le> SharedCount_value n"
    using state_okD(3) [OF I] n(1) by (auto simp: counts_ok_def Suc_le_eq nonempty_has_size)
  then show ?thesis
    using n(2) by (auto simp: decrement_shared_result_def Let_def checked_simps split: if_splits)
qed

text \<open>No access of an undisturbed step fails, except by overflow of a counter.\<close>

lemma access_error:
  assumes I: "state_ok P s" and P: "params_ok P" and a: "access P t (pcs s t) s = Inl e"
  shows "overflow e"
proof (cases "pcs s t")
  case (Inc_load u)
  then show ?thesis using a attempt_no_error [OF I P, of t] by (auto simp: checked_simps)
next
  case (Inc_shared u)
  then show ?thesis using a by (auto simp: checked_simps increment_strong_shared_Inl overflow_def)
next
  case (Up_load u)
  then show ?thesis using a attempt_no_error [OF I P, of t] by (auto simp: checked_simps)
next
  case (Up_cas u old)
  then show ?thesis
    using a state_okD(9) [OF I, of t] unless_zero_update_Inl [of "debug P" old e]
    by (auto simp: checked_simps overflow_def)
next
  case Dec_load
  then show ?thesis using a dec_load_no_error [OF I P, of t] by (auto simp: checked_simps)
next
  case Dec_slow
  then show ?thesis
    using a inv_merge_owner(1,2) [OF I Dec_slow]
    by (auto simp: checked_simps decrement_biased_slow_result_def Let_def)
next
  case (Dec_cas old)
  then show ?thesis
    using a state_okD(9) [OF I, of t] decrement_shared_next_Inl [of old] dec_cas_no_error [OF I, of t]
    by (auto simp: checked_simps split: if_splits)
next
  case Dec_owner
  then have h: "holder (pcs s t)" by simp
  show ?thesis using a Dec_owner holder_facts(5) [OF I h] by simp
next
  case Merge_biased
  then have h: "holder (pcs s t)" by simp
  show ?thesis using a Merge_biased holder_facts(5) [OF I h] by simp
next
  case (Merge_cas b old)
  then show ?thesis
    using a state_okD(9) [OF I, of t] explicit_merge_next_Inl [of b old e]
    by (auto simp: checked_simps overflow_def)
next
  case (Merge_unown new)
  then show ?thesis
    using a state_okD(9) [OF I, of t]
    by (auto simp: checked_simps explicit_merge_result_def Let_def split: if_splits)
next
  case Drop_value
  then have d: "dropper (pcs s t)" by simp
  show ?thesis using a Drop_value dropper_facts(3) [OF I d] by simp
next
  case (Uniq_biased raw)
  then show ?thesis using a unique_read [OF I P Uniq_biased] by (auto simp: checked_simps)
next
  case (Down_load u)
  then show ?thesis using a by (auto simp: downgrade_read_def overflow_def split: if_splits)
next
  case (Down_cas u old)
  then show ?thesis using a by (auto simp: downgrade_read_def overflow_def split: if_splits)
qed (use a in auto)

lemma weak_action_alive:
  assumes I: "state_ok P s" and "u \<in># weaks s"
  shows "\<not> freed s"
  using freed_facts(2) [OF I] assms(2) by auto

lemma act_error:
  assumes I: "state_ok P s" and P: "params_ok P" and a: "act P a s = Some (Inl e)"
  shows "overflow e \<or> e = Use_after_free \<and> (\<exists>t. a = Step t \<and> freed s
    \<and> (pcs s t = Dec_unown False \<or> (\<exists>new. pcs s t = Merge_unown new \<and> count_of_raw new \<noteq> 0)))"
proof (cases a)
  case (Step t)
  show ?thesis
  proof (cases "freed s \<and> touches (pcs s t)")
    case True
    then show ?thesis using a Step touches_freed [OF I, of t] by (auto simp: advance_def split: if_splits)
  next
    case False
    then show ?thesis using a Step access_error [OF I P, of t e] by (auto simp: advance_def split: if_splits)
  qed
next
  case (Spurious t)
  show ?thesis
  proof (cases "freed s")
    case True
    then show ?thesis
      using a Spurious touches_freed [OF I True, of t] by (auto split: option.splits if_splits dest!: spurious_pc)
  next
    case False
    then have "spurious P t (pcs s t) s = Some (Inl e)" using a Spurious by (auto split: option.splits)
    then show ?thesis by (auto simp: downgrade_read_def overflow_def split: if_splits dest!: spurious_pc)
  qed
next
  case (Weak_clone t u)
  then show ?thesis using a weak_action_alive [OF I, of u] by (auto simp: overflow_def split: if_splits)
next
  case (Weak_drop t)
  then show ?thesis
    using a weak_action_alive [OF I spare_weak_token, of t] by (auto split: if_splits)
qed (use a in \<open>auto simp: begin_op_def split: if_splits\<close>)

section \<open>An operation that is left alone ends\<close>

text \<open>
  A thread that runs alone takes its own accesses, of which exchanges may fail spuriously. \<open>rank\<close>
  bounds how many accesses are left, apart from spurious failures.
\<close>

fun rank :: "pc \<Rightarrow> state \<Rightarrow> nat" where
  "rank Idle s = 0"
| "rank Mut s = 0"
| "rank (Inc_load _) s = 2"
| "rank (Inc_store _ _) s = 1"
| "rank (Inc_shared _) s = 1"
| "rank (Up_load _) s = 4"
| "rank (Up_store _ _) s = 1"
| "rank (Up_shared _) s = 3"
| "rank (Up_cas _ old) s = (if shared_word (hdr s) = old then 1 else 2)"
| "rank Dec_load s = 11"
| "rank (Dec_store _) s = 1"
| "rank Dec_slow s = 4"
| "rank (Dec_unown _) s = 3"
| "rank Dec_shared s = 10"
| "rank (Dec_cas old) s = (if shared_word (hdr s) = old then 9 else 10)"
| "rank Dec_owner s = 8"
| "rank (Dec_push _) s = 7"
| "rank Merge_biased s = 6"
| "rank (Merge_shared _) s = 5"
| "rank (Merge_cas _ old) s = (if shared_word (hdr s) = old then 4 else 5)"
| "rank (Merge_unown _) s = 3"
| "rank Drop_value s = 2"
| "rank Drop_weak s = 1"
| "rank Uniq_load s = 5"
| "rank Uniq_lock s = 4"
| "rank Uniq_shared s = 3"
| "rank (Uniq_biased _) s = 2"
| "rank (Uniq_unlock _) s = 1"
| "rank (Down_load _) s = 3"
| "rank (Down_cas _ old) s = (if weak s = old then 1 else 2)"

fun downgrades :: "pc \<Rightarrow> bool" where
  "downgrades (Down_load _) = True"
| "downgrades (Down_cas _ _) = True"
| "downgrades _ = False"

definition not_spinning :: "thread \<Rightarrow> state \<Rightarrow> bool" where
  "not_spinning t s \<longleftrightarrow> (downgrades (pcs s t) \<longrightarrow> weak s \<noteq> WEAK_LOCKED_COUNT)"

lemma rank_le: "rank c s \<le> 11"
  by (cases c) auto

lemma rank_zero: "rank c s = 0 \<longleftrightarrow> c \<in> {Idle, Mut}"
  by (cases c) auto

lemma access_rank:
  assumes "access P t (pcs s t) s = Inr s'" "pcs s t \<notin> {Idle, Mut}" "not_spinning t s"
  shows "rank (pcs s' t) s' < rank (pcs s t) s \<and> not_spinning t s'"
proof (cases "pcs s t")
  case Dec_load
  then obtain r where "s' = goto t (case r of None \<Rightarrow> Dec_shared
      | Some (Biased_store raw) \<Rightarrow> Dec_store raw | Some Biased_slow \<Rightarrow> Dec_slow) s"
    using assms(1) by (auto simp: checked_simps)
  then show ?thesis
    using Dec_load by (auto simp: not_spinning_def split: option.split biased_decrement.split)
next
  case (Dec_cas old)
  show ?thesis
  proof (cases "shared_word (hdr s) = old")
    case True
    then obtain r x where "s' = goto t (case r of Do_queue \<Rightarrow> Dec_owner
        | Shared_done d \<Rightarrow> if d then Drop_value else Idle) x"
      using assms(1) Dec_cas by (auto simp: checked_simps)
    then show ?thesis
      using Dec_cas True by (auto simp: not_spinning_def split: shared_decrement.split)
  next
    case False
    then show ?thesis using assms(1) Dec_cas by (auto simp: checked_simps not_spinning_def)
  qed
next
  case (Merge_cas b old)
  show ?thesis
  proof (cases "shared_word (hdr s) = old")
    case True
    then obtain new where "s' = goto t (Merge_unown new) (set_shared new s)"
      using assms(1) Merge_cas by (auto simp: checked_simps)
    then show ?thesis using Merge_cas True by (simp add: not_spinning_def)
  next
    case False
    then show ?thesis using assms(1) Merge_cas by (auto simp: checked_simps not_spinning_def)
  qed
qed (use assms in \<open>auto simp: checked_simps not_spinning_def downgrade_read_def split: option.splits if_splits\<close>)

text \<open>A spurious failure costs nothing: the loop has now read the current value.\<close>

lemma downgrade_read_free:
  "weak s \<noteq> WEAK_LOCKED_COUNT \<Longrightarrow> Inr s' = downgrade_read t u s \<longleftrightarrow>
     \<not> weak s > WEAK_OVERFLOW_THRESHOLD \<and> s' = goto t (Down_cas u (weak s)) s"
  by (auto simp: downgrade_read_def)

lemma spurious_rank:
  assumes "spurious P t (pcs s t) s = Some (Inr s')" "not_spinning t s"
  shows "rank (pcs s' t) s' \<le> rank (pcs s t) s \<and> not_spinning t s'"
  using spurious_pc [OF assms(1)] assms(2)
  by (auto simp: not_spinning_def downgrade_read_free)

lemma alone_step:
  assumes "a \<in> {Step t, Spurious t}" "act P a s = Some (Inr s')" "not_spinning t s"
  shows "1 + rank (pcs s' t) s' \<le> rank (pcs s t) s + of_bool (a = Spurious t) \<and> not_spinning t s'"
proof (cases "a = Spurious t")
  case True
  then have "spurious P t (pcs s t) s = Some (Inr s')" using assms(2) by (auto split: option.splits if_splits)
  then show ?thesis using spurious_rank [OF _ assms(3)] True by fastforce
next
  case False
  then have "a = Step t" using assms(1) by simp
  then have "access P t (pcs s t) s = Inr s'" "pcs s t \<notin> {Idle, Mut}"
    using assms(2) by (auto simp: advance_def split: if_splits)
  then show ?thesis using access_rank [OF _ _ assms(3)] False by fastforce
qed

lemma alone_bound:
  "set as \<subseteq> {Step t, Spurious t} \<Longrightarrow> run P as s = Some (Inr s') \<Longrightarrow> not_spinning t s \<Longrightarrow>
     length as + rank (pcs s' t) s' \<le> rank (pcs s t) s + count_list as (Spurious t)"
proof (induction as arbitrary: s)
  case Nil
  then show ?case by simp
next
  case (Cons a as)
  obtain s1 where s1: "act P a s = Some (Inr s1)" "run P as s1 = Some (Inr s')"
    using Cons.prems(2) by (auto split: option.splits sum.splits)
  have a: "a \<in> {Step t, Spurious t}" using Cons.prems(1) by simp
  show ?case
    using alone_step [OF a s1(1) Cons.prems(3)] Cons.IH [OF _ s1(2)] Cons.prems(1)
    by (auto split: if_splits)
qed

text \<open>
  C20. An operation during which no other thread takes a step ends. However often its weak exchanges fail
  spuriously, the thread makes at most eleven other accesses (\<open>queue_object\<close>, which \<open>Queue_Protocol\<close>
  splits into four, counted as one); and as long as the operation is not over, its next access is
  possible, and in a run without increments of a negative unmerged shared count it can stop there
  only by an overflow abort or by the late store of a released owner. The one loop that can spin by
  itself is excluded: \<open>downgrade\<close> waiting for a weak count that another thread has locked.
\<close>

theorem operations_end_alone:
  assumes "not_spinning t s" "set as \<subseteq> {Step t, Spurious t}" "run P as s = Some (Inr s')"
  shows "length as \<le> 11 + count_list as (Spurious t)
    \<and> (pcs s' t \<notin> {Idle, Mut} \<longrightarrow> (\<exists>r. act P (Step t) s' = Some r
        \<and> (\<forall>e. r = Inl e \<and> reachable_quiet P s' \<and> params_ok P \<longrightarrow>
            overflow e \<or> e = Use_after_free \<and> freed s'
              \<and> (pcs s' t = Dec_unown False \<or> (\<exists>new. pcs s' t = Merge_unown new \<and> count_of_raw new \<noteq> 0)))))"
proof (intro conjI impI)
  show "length as \<le> 11 + count_list as (Spurious t)"
    using alone_bound [OF assms(2,3,1)] rank_le [of "pcs s t" s] by linarith
next
  assume n: "pcs s' t \<notin> {Idle, Mut}"
  have "overflow e \<or> e = Use_after_free \<and> freed s'
      \<and> (pcs s' t = Dec_unown False \<or> (\<exists>new. pcs s' t = Merge_unown new \<and> count_of_raw new \<noteq> 0))"
    if "advance P t s' = Inl e" "reachable_quiet P s'" "params_ok P" for e
    using act_error [OF quiet_state_ok [OF that(2,3)] that(3), of "Step t" e] that(1) n by auto
  then show "\<exists>r. act P (Step t) s' = Some r
      \<and> (\<forall>e. r = Inl e \<and> reachable_quiet P s' \<and> params_ok P \<longrightarrow> overflow e \<or> e = Use_after_free \<and> freed s'
        \<and> (pcs s' t = Dec_unown False \<or> (\<exists>new. pcs s' t = Merge_unown new \<and> count_of_raw new \<noteq> 0)))"
    using n by (intro exI [of _ "advance P t s'"]) auto
qed

section \<open>Runs\<close>

text \<open>Quiet runs of a given schedule, for concrete states.\<close>

fun quiet_run :: "params \<Rightarrow> action list \<Rightarrow> state \<Rightarrow> state option" where
  "quiet_run P [] s = Some s"
| "quiet_run P (a # as) s =
     (if disturbs a s then None
      else case act P a s of Some (Inr s') \<Rightarrow> quiet_run P as s' | _ \<Rightarrow> None)"

lemma quiet_run_reachable:
  "quiet_run P as s = Some s' \<Longrightarrow> reachable_quiet P s \<Longrightarrow> reachable_quiet P s'"
proof (induction as arbitrary: s)
  case Nil
  then show ?case by simp
next
  case (Cons a as)
  then obtain s1 where "act P a s = Some (Inr s1)" "quiet_run P as s1 = Some s'" "\<not> disturbs a s"
    by (auto split: if_splits option.splits sum.splits)
  then show ?case using Cons.IH Cons.prems(2) quiet_step by blast
qed

text \<open>
  A concrete system: thread 0 owns the object under short id 1, thread 1 has short id 2, and no
  other thread has a short id.
\<close>

definition sid1 :: ShortThreadId where
  "sid1 = ShortThreadId 1"

definition duo :: params where
  "duo = \<lparr>debug = False, owner = 0, owner_sid = sid1,
          others = \<lambda>t. if t = 1 then Inr (ShortThreadId 2) else Inl Uninitialized\<rparr>"

lemma sid1_facts [simp]: "short_id_ok sid1" "ShortThreadId 2 \<noteq> sid1" "sid1 \<noteq> ShortThreadId 2"
  by (simp_all add: sid1_def)

lemma params_ok_duo [simp]: "params_ok duo"
  by (simp add: params_ok_def duo_def)

lemma BiasedWord_packed:
  "short_id_ok s \<Longrightarrow> BiasedWord_from_raw (BiasedWord_to_raw \<lparr>owner_id = Some s, biased_count = c\<rparr>)
     = \<lparr>owner_id = Some s, biased_count = c\<rparr>"
  by (simp add: BiasedWord_from_to biased_word_ok_def)

lemma SharedWord_to_raw_eq: "SharedWord_to_raw w = SharedWord_to_raw w' \<longleftrightarrow> w = w'"
  by (metis SharedWord_from_to)

lemma SharedWord_to_raw_add:
  "shared_count w \<noteq> - 1 \<Longrightarrow> SharedWord_to_raw w + 1 = SharedWord_to_raw (w\<lparr>shared_count := shared_count w + 1\<rparr>)"
  using SharedWord_fetch_add [of "SharedWord_to_raw w"] by (metis SharedWord_from_to SharedWord_to_from)

lemma SharedWord_to_raw_carry:
  "shared_count w = - 1 \<Longrightarrow> SharedWord_to_raw w + 1 =
     SharedWord_to_raw \<lparr>shared_count = 0, merged = (\<not> merged w), queued = (queued w \<noteq> merged w)\<rparr>"
  using SharedWord_fetch_add_carry [of "SharedWord_to_raw w"] by (metis SharedWord_from_to SharedWord_to_from)

lemma SharedWord_to_raw_or: "SharedWord_to_raw w OR MERGED_BIT = SharedWord_to_raw (w\<lparr>merged := True\<rparr>)"
  using SharedWord_fetch_or [of "SharedWord_to_raw w"] by (metis SharedWord_from_to SharedWord_to_from)

lemmas evaluate =
  duo_def me_def start_def init_for_def advance_def begin_op_def goto_def lendable_def spare_def
  spare_weak_def lent_def lent_weak_def gain_def lose_def set_shared_def set_biased_def weak_sub_def
  downgrade_read_def waiting_def disturbs_def WEAK_LOCKED_COUNT_def WEAK_OVERFLOW_THRESHOLD_def
  attempt_biased_increment_def increment_strong_shared_def unless_zero_update_def
  decrement_biased_next_def decrement_biased_slow_result_def decrement_shared_next_def
  decrement_shared_result_def explicit_merge_next_def explicit_merge_result_def
  is_definitely_not_unique_def is_unique_of_def strong_count_of_def usize_checked_add_signed_def
  BiasedWord_packed SharedWord_to_raw_eq SharedWord_to_raw_add SharedWord_to_raw_carry
  SharedWord_to_raw_or u20_checked_add_def SharedCount_checked_add_def SharedCount_checked_sub_def
  SharedCount_new_unchecked_def SharedCount_value_def OVERFLOW_THRESHOLD_def SharedCount_MAX_def
  debug_assert_def Let_def

section \<open>Safety of undisturbed runs\<close>

definition exclusive_state :: "state option" where
  "exclusive_state = quiet_run duo (Get_mut 0 # replicate 5 (Step 0)) (start duo)"

lemma duo_start: "reachable_quiet duo (start duo)"
  by (rule quiet_start)

text \<open>
  C1. In every interleaving without an increment of a negative unmerged shared count, the value is
  dropped at most once, and only when no strong reference is left.
\<close>

theorem value_dropped_once:
  assumes "reachable_quiet P s" "params_ok P"
  shows "drops s \<le> 1 \<and> (drops s = 1 \<longrightarrow> refs s = {#})"
  using state_okD(6) [OF quiet_state_ok [OF assms]] by (auto simp: droppers_ok_def)

definition drop_schedule :: "action list" where
  "drop_schedule = Drop 0 # replicate 5 (Step 0)"

theorem value_dropped_once_witness:
  "\<exists>s. quiet_run duo drop_schedule (start duo) = Some s \<and> drops s = 1 \<and> refs s = {#}"
proof -
  have "\<exists>s. quiet_run duo drop_schedule (start duo) = Some s \<and> drops s = 1"
    by (simp add: drop_schedule_def evaluate numeral_eq_Suc)
  then obtain s where s: "quiet_run duo drop_schedule (start duo) = Some s" "drops s = 1" by blast
  show ?thesis
    using value_dropped_once [OF quiet_run_reachable [OF s(1) duo_start] params_ok_duo] s by blast
qed

text \<open>
  C2. In such a run, memory is freed only after the value was dropped and when neither a strong nor
  a weak reference exists, so no operation that holds or borrows a reference sees freed memory.
\<close>

theorem freed_only_unreferenced:
  assumes "reachable_quiet P s" "params_ok P" "freed s"
  shows "refs s = {#} \<and> weaks s = {#} \<and> drops s = 1
    \<and> (\<forall>t. \<not> exclusive (pcs s t) \<and> borrows (pcs s t) = None \<and> borrows_weak (pcs s t) = None)"
proof -
  have I: "state_ok P s" by (rule quiet_state_ok [OF assms(1,2)])
  note F = freed_facts [OF I assms(3)]
  have "\<not> exclusive (pcs s t)" "borrows (pcs s t) = None" "borrows_weak (pcs s t) = None" for t
    using exclusive_token [OF state_okD(1) [OF I], of t] F(1)
      lender_token [OF state_okD(1) [OF I], of t] weak_lender_token [OF state_okD(2) [OF I], of t] F(2)
    by (auto intro: ccontr)
  then show ?thesis using F by simp
qed

theorem freed_only_unreferenced_witness:
  "\<exists>s. quiet_run duo drop_schedule (start duo) = Some s \<and> freed s \<and> refs s = {#} \<and> weaks s = {#} \<and> drops s = 1"
proof -
  have "\<exists>s. quiet_run duo drop_schedule (start duo) = Some s \<and> freed s"
    by (simp add: drop_schedule_def evaluate numeral_eq_Suc)
  then obtain s where s: "quiet_run duo drop_schedule (start duo) = Some s" "freed s" by blast
  show ?thesis
    using freed_only_unreferenced [OF quiet_run_reachable [OF s(1) duo_start] params_ok_duo s(2)] s by blast
qed

text \<open>
  C3. In such a run, the two words of the header always stand for the number of strong references
  that exist: the biased count plus the shared count before they are merged, the shared count alone
  afterwards.
\<close>

theorem counts_are_references:
  assumes "reachable_quiet P s" "params_ok P"
  shows "logical_count (hdr s) = int (size (refs s))"
  using state_okD(3) [OF quiet_state_ok [OF assms]] by (auto simp: counts_ok_def logical_count_def split: if_splits)

theorem counts_are_references_witness: "logical_count (hdr (start duo)) = int (size (refs (start duo)))"
  by (rule counts_are_references [OF duo_start params_ok_duo])

text \<open>
  C4. In such a run, nothing fails except by overflow of a counter, and except for one access to
  freed memory: the store that releases ownership after the owner's last decrement, or after a
  merge, when another thread has meanwhile dropped the last reference.
\<close>

theorem only_overflow_or_late_store:
  assumes "reachable_quiet P s" "params_ok P" "act P a s = Some (Inl e)"
  shows "overflow e \<or> e = Use_after_free \<and> (\<exists>t. a = Step t \<and> freed s
    \<and> (pcs s t = Dec_unown False \<or> (\<exists>new. pcs s t = Merge_unown new \<and> count_of_raw new \<noteq> 0)))"
  by (rule act_error [OF quiet_state_ok [OF assms(1,2)] assms(2,3)])

definition late_schedule :: "action list" where
  "late_schedule =
     [Clone 1 0, Step 1, Step 1, Drop 0, Step 0, Step 0, Drop 1, Step 1, Step 1, Step 1, Step 1, Step 1]"

theorem only_overflow_or_late_store_witness:
  "\<exists>s. quiet_run duo late_schedule (start duo) = Some s \<and> freed s \<and> pcs s 0 = Dec_unown False"
proof -
  have "\<exists>s. quiet_run duo late_schedule (start duo) = Some s \<and> act duo (Step 0) s = Some (Inl Use_after_free)
      \<and> pcs s 0 = Dec_unown False"
    by (simp add: late_schedule_def evaluate)
  then obtain s where s: "quiet_run duo late_schedule (start duo) = Some s"
    "act duo (Step 0) s = Some (Inl Use_after_free)" "pcs s 0 = Dec_unown False" by blast
  show ?thesis
    using only_overflow_or_late_store [OF quiet_run_reachable [OF s(1) duo_start] params_ok_duo s(2)] s(1,3)
    by (auto simp: overflow_def)
qed

text \<open>
  C5. In a run without an increment of a negative unmerged shared count, a thread that \<open>get_mut\<close> has
  given exclusive access holds the only strong reference, there is no weak one, and no other thread has
  an operation on a reference in progress. The restriction is needed (\<open>get_mut_shared\<close> below).
\<close>

theorem get_mut_exclusive:
  assumes "reachable_quiet P s" "params_ok P" "pcs s t = Mut"
  shows "refs s = {#t#} \<and> weaks s = {#}
    \<and> (\<forall>u. u \<noteq> t \<longrightarrow> \<not> exclusive (pcs s u) \<and> borrows (pcs s u) = None \<and> borrows_weak (pcs s u) = None)"
proof -
  have I: "state_ok P s" by (rule quiet_state_ok [OF assms(1,2)])
  have s: "sole s t" "exclusive (pcs s t)" using state_okD(9) [OF I, of t] assms(3) by simp_all
  then show ?thesis using sole_alone [OF state_okD(1,2) [OF I] s(2,1)] by (auto simp: sole_def)
qed

theorem get_mut_exclusive_witness:
  "\<exists>s. exclusive_state = Some s \<and> pcs s 0 = Mut \<and> refs s = {#0#} \<and> weaks s = {#}"
proof -
  have "\<exists>s. exclusive_state = Some s \<and> pcs s 0 = Mut"
    by (simp add: exclusive_state_def evaluate numeral_eq_Suc)
  then obtain s where s: "exclusive_state = Some s" "pcs s 0 = Mut" by blast
  have "reachable_quiet duo s"
    by (rule quiet_run_reachable [OF s(1) [unfolded exclusive_state_def] duo_start])
  from get_mut_exclusive [OF this params_ok_duo s(2)] show ?thesis using s by blast
qed

text \<open>
  C6. Nothing leaks in a run without an increment of a negative unmerged shared count: when no
  operation is in progress, no strong reference is left and the object is not in its owner's queue,
  the value has been dropped; if no weak reference is left either, the memory has been freed.
\<close>

theorem nothing_leaks:
  assumes "reachable_quiet P s" "params_ok P" "\<forall>t. pcs s t = Idle" "refs s = {#}" "\<not> in_queue s"
  shows "drops s = 1 \<and> (weaks s = {#} \<longrightarrow> freed s)"
proof -
  have I: "state_ok P s" by (rule quiet_state_ok [OF assms(1,2)])
  note D = state_okD [OF I]
  have none: "whose role (pcs s) = {}" if "\<not> role Idle" for role
    using assms(3) that by (simp add: whose_def)
  have "\<not> waiting s" using D(4) assms(5) none [of holder] by (auto simp: holders_ok_def)
  then have m: "merged (shared_of (hdr s))"
    using D(3) assms(4) by (auto simp: waiting_def counts_ok_def split: if_splits)
  then have d: "drops s = 1"
    using D(6) none [of dropper] assms(4) by (auto simp: droppers_ok_def split: if_splits)
  then show ?thesis using D(7) none [of weak_dropper] by (simp add: weak_ok_def implicit_weak_def)
qed

theorem nothing_leaks_witness:
  "\<exists>s. quiet_run duo drop_schedule (start duo) = Some s \<and> drops s = 1 \<and> freed s"
proof -
  have "\<exists>s. quiet_run duo drop_schedule (start duo) = Some s
      \<and> (\<forall>t. pcs s t = Idle) \<and> refs s = {#} \<and> weaks s = {#} \<and> \<not> in_queue s"
    by (simp add: drop_schedule_def evaluate numeral_eq_Suc)
  then obtain s where s: "quiet_run duo drop_schedule (start duo) = Some s"
    "\<forall>t. pcs s t = Idle" "refs s = {#}" "weaks s = {#}" "\<not> in_queue s" by blast
  show ?thesis
    using nothing_leaks [OF quiet_run_reachable [OF s(1) duo_start] params_ok_duo s(2,3,5)] s by blast
qed

text \<open>A drop by a thread that shares a merged count, with one spurious failure of its exchange.\<close>

definition failing_drop :: "action list" where
  "failing_drop = [Step 5, Step 5, Spurious 5, Step 5]"

theorem operations_end_alone_witness:
  "\<exists>s. run duo failing_drop (goto 5 Dec_load (start_unowned 5)) = Some (Inr s) \<and> pcs s 5 = Drop_value
     \<and> length failing_drop \<le> 11 + count_list failing_drop (Spurious 5)
     \<and> (\<exists>r. act duo (Step 5) s = Some r)"
proof -
  let ?s = "goto 5 Dec_load (start_unowned 5)"
  have ns: "not_spinning 5 ?s" by (simp add: not_spinning_def goto_def)
  have sub: "set failing_drop \<subseteq> {Step 5, Spurious 5}" by (simp add: failing_drop_def)
  have "\<exists>s. run duo failing_drop ?s = Some (Inr s) \<and> pcs s 5 = Drop_value"
    by (simp add: failing_drop_def evaluate start_unowned_def)
  then obtain s where s: "run duo failing_drop ?s = Some (Inr s)" "pcs s 5 = Drop_value" by blast
  show ?thesis using operations_end_alone [OF ns sub s(1)] s by auto
qed

section \<open>Where the source goes wrong\<close>

text \<open>
  The owner makes three references and gives two away; thread 1 drops one of them, which queues the
  object with a shared count of \<open>-1\<close>, and clones the other: the \<open>fetch_add\<close> of
  \<open>increment_strong_shared\<close> carries out of the count and sets the merged flag.
\<close>

definition carry_schedule :: "action list" where
  "carry_schedule =
     [Clone 0 0, Step 0, Step 0, Clone 0 0, Step 0, Step 0, Send 0 1, Send 0 1,
      Drop 1, Step 1, Step 1, Step 1, Step 1, Step 1, Clone 1 1, Step 1, Step 1]"

text \<open>
  C37. Without the restriction, the value can be dropped while references exist: after the carry,
  thread 1 clones and drops once more, and the value is dropped although both threads still hold
  references.
\<close>

theorem live_value_dropped:
  "\<exists>s. run duo (carry_schedule @ [Clone 1 1, Step 1, Step 1, Drop 1, Step 1, Step 1, Step 1, Step 1]) (start duo)
         = Some (Inr s) \<and> drops s = 1 \<and> refs s = {#0, 1, 1#}"
  by (simp add: carry_schedule_def evaluate)

text \<open>
  The same carry makes the owner's collection of the queued object fail the assertion of
  \<open>explicit_merge\<close> that the counts are not merged yet.
\<close>

theorem carry_breaks_collection:
  "run duo (carry_schedule @ [Collect 0, Step 0, Step 0, Step 0]) (start duo) = Some (Inl Assertion_failed)"
  by (simp add: carry_schedule_def evaluate)

text \<open>
  After the carry the uniqueness test gives a false positive, too: thread 1 clones once more, and
  \<open>get_mut\<close> on thread 0 hands out exclusive access although there are four references.
\<close>

theorem get_mut_shared:
  "\<exists>s. run duo (carry_schedule @ [Clone 1 1, Step 1, Step 1, Get_mut 0,
           Step 0, Step 0, Step 0, Step 0, Step 0]) (start duo)
         = Some (Inr s) \<and> pcs s 0 = Mut \<and> refs s = {#0, 1, 1, 1#}"
  by (simp add: carry_schedule_def evaluate)

text \<open>
  C38. The owner's last decrement can write to freed memory even in a quiet run: between its
  \<open>fetch_or\<close> and its store of the unowned word, the thread that holds the last reference drops it
  and frees the object.
\<close>

theorem late_store_after_free:
  "\<exists>s. quiet_run duo late_schedule (start duo) = Some s \<and> freed s
     \<and> act duo (Step 0) s = Some (Inl Use_after_free)"
  by (simp add: late_schedule_def evaluate)

text \<open>
  A weak reference brings a queued object back: \<open>upgrade\<close> raises the shared count to zero, then the
  owner drops what is left and frees the object, which is still in its queue.
\<close>

definition revive_schedule :: "action list" where
  "revive_schedule =
     [Clone 0 0, Step 0, Step 0, Send 0 1, Downgrade 1 1, Step 1, Step 1,
      Drop 1, Step 1, Step 1, Step 1, Step 1, Step 1,
      Upgrade 1 1, Step 1, Step 1, Step 1, Send 1 0,
      Drop 0, Step 0, Step 0, Drop 0, Step 0, Step 0, Step 0, Step 0, Step 0, Weak_drop 1]"

text \<open>
  C39. An object can be freed while it is still in its owner's queue; the next collection then
  reads freed memory.
\<close>

theorem freed_while_queued:
  "\<exists>s. run duo revive_schedule (start duo) = Some (Inr s) \<and> freed s \<and> in_queue s
     \<and> run duo [Collect 0, Step 0] s = Some (Inl Use_after_free)"
  by (simp add: revive_schedule_def evaluate)

text \<open>
  \<open>strong_count\<close> can give a count that never was: thread 2 has no short id, reads the shared
  word, then the biased word after the owner has merged and released it; \<open>None == None\<close> passes the
  owner test, and the result is 1 although there were always at least two references.
\<close>

theorem strong_count_misread:
  "\<exists>s s'. run duo [Clone 2 0, Step 2, Step 2] (start duo) = Some (Inr s) \<and> size (refs s) = 2
     \<and> run duo [Clone 1 2, Step 1, Step 1, Drop 0, Step 0, Step 0, Step 0] s = Some (Inr s')
     \<and> refs s' = {#1, 2#} \<and> me duo s' 2 = Inl Uninitialized
     \<and> strong_count_of False (me duo s' 2) (shared_word (hdr s)) (biased_word (hdr s')) = Inr (Inr 1)"
  by (simp add: evaluate)

end
