(* ===== verification/Protocol_Owner.thy ===== *)
theory Protocol_Owner
  imports Protocol_Theorems
begin

text \<open>
  The owner of an object, in every interleaving, including those in which the counts go wrong: the
  owner field of the biased word names the creating thread or nobody, only that thread ever stores a
  biased count, and an object that has lost its owner never gets one again.
\<close>

section \<open>The invariant\<close>

text \<open>The biased word that a thread is about to store.\<close>

fun pending_store :: "pc \<Rightarrow> 32 word option" where
  "pending_store (Inc_store _ raw) = Some raw"
| "pending_store (Up_store _ raw) = Some raw"
| "pending_store (Dec_store raw) = Some raw"
| "pending_store _ = None"

text \<open>The rest of \<open>decrement_biased_slow\<close>, and \<open>explicit_merge\<close>.\<close>

fun unowning :: "pc \<Rightarrow> bool" where
  "unowning Dec_slow = True"
| "unowning (Dec_unown _) = True"
| "unowning _ = False"

fun merging :: "pc \<Rightarrow> bool" where
  "merging Merge_biased = True"
| "merging (Merge_shared _) = True"
| "merging (Merge_cas _ _) = True"
| "merging (Merge_unown _) = True"
| "merging _ = False"

definition owner_of :: "state \<Rightarrow> ShortThreadId option" where
  "owner_of s = owner_id (biased_of (hdr s))"

definition pc_owned :: "params \<Rightarrow> state \<Rightarrow> thread \<Rightarrow> pc \<Rightarrow> bool" where
  "pc_owned P s t c \<longleftrightarrow>
     (case pending_store c of
        None \<Rightarrow> True
      | Some raw \<Rightarrow> t = owner P \<and> \<not> owner_dead s \<and> owner_of s = Some (owner_sid P)
          \<and> owner_id (BiasedWord_from_raw raw) = Some (owner_sid P))
     \<and> (if unowning c then t = owner P \<and> \<not> owner_dead s else True)
     \<and> (if merging c then t = owner P \<or> owner_dead s else True)"

definition owned_ok :: "params \<Rightarrow> state \<Rightarrow> bool" where
  "owned_ok P s \<longleftrightarrow> owner_of s \<in> {None, Some (owner_sid P)} \<and> (\<forall>t. pc_owned P s t (pcs s t))
     \<and> (queue_alive s \<or> owner_dead s)"

definition owned_step :: "params \<Rightarrow> state \<Rightarrow> state \<Rightarrow> bool" where
  "owned_step P s s' \<longleftrightarrow> owned_ok P s' \<and> (owner_of s = None \<longrightarrow> owner_of s' = None)"

lemma owned_okD:
  assumes "owned_ok P s"
  shows "owner_of s \<in> {None, Some (owner_sid P)}" "pc_owned P s t (pcs s t)" "\<not> queue_alive s \<Longrightarrow> owner_dead s"
  using assms by (auto simp: owned_ok_def)

lemma pc_owned_cong:
  "owner_of s' = owner_of s \<Longrightarrow> owner_dead s' = owner_dead s \<Longrightarrow> pc_owned P s' t c = pc_owned P s t c"
  by (cases "pending_store c") (simp_all add: pc_owned_def)

text \<open>A step that only moves a program counter, or changes things that do not matter here.\<close>

lemma owned_frame:
  assumes "owned_ok P s" "owner_of s' = owner_of s" "owner_dead s' = owner_dead s" "queue_alive s' = queue_alive s"
    "pcs s' = (pcs s)(t := c)" "pc_owned P s t c"
  shows "owned_step P s s'"
  using assms pc_owned_cong [OF assms(2,3), of P] by (simp add: owned_step_def owned_ok_def)

lemma me_is_owner:
  assumes "params_ok P" "me P s t = Inr (owner_sid P)"
  shows "t = owner P" "\<not> owner_dead s"
  using assms by (auto simp: me_def params_ok_def split: if_splits)

lemma attempt_owned:
  assumes "params_ok P" "owned_ok P s" "attempt_biased_increment dbg (me P s t) (biased_word (hdr s)) = Inr (Some raw)"
  shows "t = owner P" "\<not> owner_dead s" "owner_of s = Some (owner_sid P)"
    "owner_id (BiasedWord_from_raw raw) = Some (owner_sid P)"
  using attempt_biased_increment_Some [OF assms(3)] owned_okD(1) [OF assms(2)] me_is_owner [OF assms(1)]
  by (auto simp: owner_of_def)

lemma decrement_owned:
  assumes "params_ok P" "owned_ok P s"
  shows "decrement_biased_next dbg (me P s t) (biased_word (hdr s)) = Inr (Some (Biased_store raw)) \<Longrightarrow>
      t = owner P \<and> \<not> owner_dead s \<and> owner_of s = Some (owner_sid P)
      \<and> owner_id (BiasedWord_from_raw raw) = Some (owner_sid P)"
    "decrement_biased_next dbg (me P s t) (biased_word (hdr s)) = Inr (Some Biased_slow) \<Longrightarrow>
      t = owner P \<and> \<not> owner_dead s"
proof -
  have *: "t = owner P \<and> \<not> owner_dead s \<and> owner_of s = Some (owner_sid P)"
    if "me P s t = Inr x" "owner_id (biased_of (hdr s)) = Some x" for x
    using that owned_okD(1) [OF assms(2)] me_is_owner [OF assms(1)] by (auto simp: owner_of_def)
  show "t = owner P \<and> \<not> owner_dead s \<and> owner_of s = Some (owner_sid P)
      \<and> owner_id (BiasedWord_from_raw raw) = Some (owner_sid P)"
    if "decrement_biased_next dbg (me P s t) (biased_word (hdr s)) = Inr (Some (Biased_store raw))"
    using decrement_biased_next_store [OF that] * owned_okD(1) [OF assms(2)] by (auto simp: owner_of_def)
  show "t = owner P \<and> \<not> owner_dead s"
    if "decrement_biased_next dbg (me P s t) (biased_word (hdr s)) = Inr (Some Biased_slow)"
    using decrement_biased_next_slow [OF that] * by auto
qed

lemma owner_of_updates [simp]:
  "owner_of (goto t c s) = owner_of s" "owner_of (gain t s) = owner_of s" "owner_of (lose t s) = owner_of s"
  "owner_of (set_shared raw s) = owner_of s" "owner_of (set_biased b s) = owner_id (BiasedWord_from_raw b)"
  "owner_of (weak_sub s) = owner_of s"
  by (simp_all add: owner_of_def goto_def gain_def lose_def set_shared_def set_biased_def weak_sub_def)

lemma owner_id_UNOWNED [simp]: "owner_id (BiasedWord_from_raw (BiasedWord_to_raw BiasedWord_UNOWNED)) = None"
  by code_simp

text \<open>Giving up the ownership: nobody else is about to store a biased word then.\<close>

lemma owned_unown:
  assumes "owned_ok P s" "t = owner P \<or> owner_dead s" "owner_of s' = None" "owner_dead s' = owner_dead s"
    "queue_alive s' = queue_alive s" "pcs s' = (pcs s)(t := c)" "pending_store c = None" "\<not> unowning c" "\<not> merging c"
  shows "owned_step P s s'"
proof -
  have "pc_owned P s' u (pcs s' u)" for u
  proof (cases "u = t")
    case True
    then show ?thesis using assms(6-9) by (simp add: pc_owned_def)
  next
    case False
    then show ?thesis
      using owned_okD(2) [OF assms(1), of u] assms(2-6)
      by (cases "pending_store (pcs s u)") (auto simp: pc_owned_def)
  qed
  then show ?thesis using owned_okD(3) [OF assms(1)] assms(3-5) by (auto simp: owned_step_def owned_ok_def)
qed

lemma pcs_updates [simp]:
  "pcs (goto t c s) = (pcs s)(t := c)" "pcs (gain t s) = pcs s" "pcs (lose t s) = pcs s"
  "pcs (set_shared raw s) = pcs s" "pcs (set_biased b s) = pcs s" "pcs (weak_sub s) = pcs s"
  "owner_dead (goto t c s) = owner_dead s" "owner_dead (gain t s) = owner_dead s" "owner_dead (lose t s) = owner_dead s"
  "owner_dead (set_shared raw s) = owner_dead s" "owner_dead (set_biased b s) = owner_dead s" "owner_dead (weak_sub s) = owner_dead s"
  "queue_alive (goto t c s) = queue_alive s" "queue_alive (gain t s) = queue_alive s" "queue_alive (lose t s) = queue_alive s"
  "queue_alive (set_shared raw s) = queue_alive s" "queue_alive (set_biased b s) = queue_alive s" "queue_alive (weak_sub s) = queue_alive s"
  by (simp_all add: goto_def gain_def lose_def set_shared_def set_biased_def weak_sub_def)

lemma fields_updates [simp]:
  "owner_of (s\<lparr>weak := w\<rparr>) = owner_of s" "owner_of (s\<lparr>weaks := ws\<rparr>) = owner_of s"
  "owner_of (s\<lparr>drops := n\<rparr>) = owner_of s" "owner_of (s\<lparr>in_queue := q\<rparr>) = owner_of s"
  "owner_of (s\<lparr>owner_dead := q\<rparr>) = owner_of s" "owner_of (s\<lparr>queue_alive := q\<rparr>) = owner_of s"
  by (simp_all add: owner_of_def)

text \<open>Program counters without any duty.\<close>

lemma no_duty: "pending_store c = None \<Longrightarrow> \<not> unowning c \<Longrightarrow> \<not> merging c \<Longrightarrow> pc_owned P s t c"
  by (simp add: pc_owned_def)

lemma owned_access:
  assumes P: "params_ok P" and ok: "owned_ok P s" and a: "access P t (pcs s t) s = Inr s'"
  shows "owned_step P s s'"
proof -
  note pc = owned_okD(2) [OF ok, of t]
  note frame = owned_frame [OF ok, of s' t "pcs s' t"]
  show ?thesis
  proof (cases "pcs s t")
    case (Inc_load u)
    then show ?thesis
      using a attempt_owned [OF P ok, of "debug P" t]
      by (intro frame) (auto simp: checked_simps pc_owned_def split: option.splits)
  next
    case (Up_load u)
    then show ?thesis
      using a attempt_owned [OF P ok, of "debug P" t]
      by (intro frame) (auto simp: checked_simps pc_owned_def split: option.splits)
  next
    case Dec_load
    then obtain r where r: "decrement_biased_next (debug P) (me P s t) (biased_word (hdr s)) = Inr r"
      "s' = goto t (case r of None \<Rightarrow> Dec_shared | Some (Biased_store raw) \<Rightarrow> Dec_store raw | Some Biased_slow \<Rightarrow> Dec_slow) s"
      using a by (auto simp: checked_simps)
    show ?thesis
    proof (cases "r = None")
      case False
      then obtain d where d: "r = Some d" by blast
      show ?thesis
        using r decrement_owned [OF P ok, of "debug P" t] d
        by (cases d) (intro frame; simp add: pc_owned_def)+
    qed (use r in \<open>intro frame; simp add: pc_owned_def\<close>)
  next
    case (Dec_unown d)
    then have "s' = goto t (if d then Drop_value else Idle) (set_biased (BiasedWord_to_raw BiasedWord_UNOWNED) s)"
      "t = owner P"
      using a pc by (auto simp: pc_owned_def)
    then show ?thesis
      by (intro owned_unown [OF ok, of t s' "if d then Drop_value else Idle"]) simp_all
  next
    case (Merge_unown new)
    then obtain z where "s' = goto t (if z then Drop_value else Idle) (set_biased (BiasedWord_to_raw BiasedWord_UNOWNED) s)"
      "t = owner P \<or> owner_dead s"
      using a pc by (auto simp: checked_simps pc_owned_def)
    then show ?thesis
      by (intro owned_unown [OF ok, of t s' "if z then Drop_value else Idle"]) simp_all
  next
    case (Dec_push sid)
    then have "s' = (if queue_alive s then goto t Idle (s\<lparr>in_queue := True\<rparr>) else goto t Merge_biased s)"
      using a by (simp split: if_splits)
    then show ?thesis
      using owned_okD(3) [OF ok] by (intro frame) (auto simp: pc_owned_def goto_def owner_of_def)
  next
    case (Inc_store u raw)
    then show ?thesis using a pc by (intro frame) (auto simp: pc_owned_def)
  next
    case (Up_store u raw)
    then show ?thesis using a pc by (intro frame) (auto simp: pc_owned_def)
  next
    case (Dec_store raw)
    then show ?thesis using a pc by (intro frame) (auto simp: pc_owned_def)
  next
    case (Inc_shared u)
    then show ?thesis using a by (intro frame) (auto simp: checked_simps pc_owned_def)
  next
    case (Up_shared u)
    then show ?thesis using a by (intro frame) (auto simp: checked_simps pc_owned_def)
  next
    case (Up_cas u old)
    then show ?thesis using a by (intro frame) (auto simp: checked_simps pc_owned_def split: option.splits if_splits)
  next
    case Dec_slow
    then show ?thesis using a pc by (intro frame) (auto simp: checked_simps pc_owned_def)
  next
    case Dec_shared
    then show ?thesis using a by (intro frame) (auto simp: checked_simps pc_owned_def)
  next
    case (Dec_cas old)
    then have "\<exists>c raw. (s' = goto t c s \<or> s' = goto t c (lose t (set_shared raw s)))
      \<and> pending_store c = None \<and> \<not> unowning c \<and> \<not> merging c"
      using a by (auto simp: checked_simps split: if_splits) (force split: shared_decrement.splits)+
    then show ?thesis by (elim exE conjE, intro frame) (auto simp: no_duty)
  next
    case Dec_owner
    then show ?thesis using a by (intro frame) (auto simp: checked_simps pc_owned_def split: option.splits)
  next
    case Merge_biased
    then show ?thesis using a pc by (intro frame) (auto simp: checked_simps pc_owned_def split: if_splits)
  next
    case (Merge_shared b)
    then show ?thesis using a pc by (intro frame) (auto simp: checked_simps pc_owned_def)
  next
    case (Merge_cas b old)
    then show ?thesis using a pc by (intro frame) (auto simp: checked_simps pc_owned_def split: if_splits)
  next
    case (Down_load u)
    then show ?thesis
      using a by (intro frame) (auto simp: downgrade_read_def pc_owned_def split: if_splits)
  next
    case (Down_cas u old)
    then show ?thesis
      using a by (intro frame) (auto simp: downgrade_read_def pc_owned_def split: if_splits)
  next
    case Drop_value
    then show ?thesis using a by (intro frame) (auto simp: checked_simps pc_owned_def split: if_splits)
  next
    case Uniq_lock
    then show ?thesis using a by (intro frame) (auto simp: checked_simps pc_owned_def split: if_splits)
  next
    case Drop_weak
    then show ?thesis using a by (intro frame) (auto simp: checked_simps pc_owned_def)
  next
    case Uniq_load
    then show ?thesis using a by (intro frame) (auto simp: checked_simps pc_owned_def split: if_splits)
  next
    case Uniq_shared
    then show ?thesis using a by (intro frame) (auto simp: checked_simps pc_owned_def)
  next
    case (Uniq_biased x)
    then show ?thesis using a by (intro frame) (auto simp: checked_simps pc_owned_def)
  next
    case (Uniq_unlock x)
    then show ?thesis using a by (intro frame) (auto simp: checked_simps pc_owned_def split: if_splits)
  next
    case Mut
    then show ?thesis using a by (intro frame) (auto simp: checked_simps pc_owned_def)
  qed (use a ok in \<open>simp add: owned_step_def\<close>)
qed

lemma owned_start:
  "params_ok P \<Longrightarrow> owned_ok P (start P)" "owned_ok P (start_unowned t)"
  by (simp_all add: owned_ok_def owner_of_def start_def start_unowned_def pc_owned_def params_ok_def
    init_for_words del: BiasedWord_from_raw_def)

text \<open>Actions that only move one program counter to one without a duty, or one with a duty that it may have.\<close>

lemma owned_goto:
  assumes "owned_ok P s" "pc_owned P s t c"
  shows "owned_step P s (goto t c s)"
  by (rule owned_frame [OF assms(1), of _ t c]) (simp_all add: assms(2))

lemma owned_begin:
  assumes "owned_ok P s" "begin_op ok t c s = Some (Inr s')" "pending_store c = None" "\<not> unowning c" "\<not> merging c"
  shows "owned_step P s s'"
  using assms(2) owned_goto [OF assms(1) no_duty [OF assms(3-5)]] by (auto simp: begin_op_def split: if_splits)

lemma owned_spurious:
  assumes "owned_ok P s" "spurious P t (pcs s t) s = Some (Inr s')"
  shows "owned_step P s s'"
proof -
  have "\<exists>c. s' = goto t c s \<and> pending_store c = None \<and> \<not> unowning c \<and> merging c = merging (pcs s t)"
    using spurious_pc [OF assms(2)] by (auto simp: downgrade_read_def split: if_splits)
  then obtain c where c: "s' = goto t c s" "pending_store c = None" "\<not> unowning c"
    "merging c = merging (pcs s t)" by blast
  have "pc_owned P s t c"
    using owned_okD(2) [OF assms(1), of t] by (simp add: pc_owned_def c(2-4) split: if_splits)
  then show ?thesis unfolding c(1) by (rule owned_goto [OF assms(1)])
qed

lemma owned_die:
  assumes "owned_ok P s" "pcs s (owner P) = Idle"
  shows "owned_step P s (s\<lparr>owner_dead := True\<rparr>)"
proof -
  have "pc_owned P (s\<lparr>owner_dead := True\<rparr>) t (pcs s t)" for t
  proof (cases "t = owner P")
    case False
    then have "pending_store (pcs s t) = None" "\<not> unowning (pcs s t)"
      using owned_okD(2) [OF assms(1), of t] by (auto simp: pc_owned_def split: option.splits if_splits)
    then show ?thesis by (simp add: pc_owned_def)
  qed (simp add: pc_owned_def assms(2))
  then show ?thesis using owned_okD(1) [OF assms(1)] by (simp add: owned_step_def owned_ok_def)
qed

text \<open>Changes of the reference tokens and of the weak count.\<close>

lemma owned_other:
  assumes "owned_ok P s" "hdr s' = hdr s" "owner_dead s' = owner_dead s" "pcs s' = pcs s"
    "queue_alive s' = queue_alive s \<or> owner_dead s"
  shows "owned_step P s s'"
proof -
  have "owner_of s' = owner_of s" using assms(2) by (simp add: owner_of_def)
  then show ?thesis using assms pc_owned_cong [of s' s P] by (auto simp: owned_step_def owned_ok_def)
qed

lemma owned_act:
  assumes "params_ok P" "owned_ok P s" "act P a s = Some (Inr s')"
  shows "owned_step P s s'"
proof (cases a)
  case (Step t)
  then show ?thesis
    using assms(3) owned_access [OF assms(1,2), of t s'] by (simp add: advance_def split: if_splits)
next
  case (Spurious t)
  then show ?thesis
    using assms(3) owned_spurious [OF assms(2), of t] by (auto split: option.splits if_splits)
next
  case Die
  then show ?thesis using assms(3) owned_die [OF assms(2)] by (auto split: if_splits)
next
  case (Collect t)
  have "owned_step P s (s\<lparr>in_queue := False\<rparr>)" by (rule owned_other [OF assms(2)]) simp_all
  then have "owned_ok P (s\<lparr>in_queue := False\<rparr>)" by (simp add: owned_step_def)
  then show ?thesis
    using Collect assms(3) owned_goto [of P "s\<lparr>in_queue := False\<rparr>" t Merge_biased]
    by (auto simp: owned_step_def pc_owned_def split: if_splits)
next
  case (Release t)
  then show ?thesis
    using assms(3) by (auto intro!: owned_goto [OF assms(2)] simp: pc_owned_def split: if_splits)
next
  case (Clone t u)
  then show ?thesis using assms(3) owned_begin [OF assms(2)] by simp
next
  case (Clone_shared t u)
  then show ?thesis using assms(3) owned_begin [OF assms(2)] by simp
next
  case (Drop t)
  then show ?thesis using assms(3) owned_begin [OF assms(2)] by simp
next
  case (Upgrade t u)
  then show ?thesis using assms(3) owned_begin [OF assms(2)] by simp
next
  case (Downgrade t u)
  then show ?thesis using assms(3) owned_begin [OF assms(2)] by simp
next
  case (Get_mut t)
  then show ?thesis using assms(3) owned_begin [OF assms(2)] by simp
next
  case (Weak_clone t u)
  then show ?thesis
    using assms(3) by (intro owned_other [OF assms(2)]) (auto simp: weak_sub_def gain_def lose_def split: if_splits)
next
  case (Weak_drop t)
  then show ?thesis
    using assms(3) by (intro owned_other [OF assms(2)]) (auto simp: weak_sub_def gain_def lose_def split: if_splits)
next
  case (Send t u)
  then show ?thesis
    using assms(3) by (intro owned_other [OF assms(2)]) (auto simp: weak_sub_def gain_def lose_def split: if_splits)
next
  case (Send_weak t u)
  then show ?thesis
    using assms(3) by (intro owned_other [OF assms(2)]) (auto simp: weak_sub_def gain_def lose_def split: if_splits)
next
  case Close
  then show ?thesis
    using assms(3) by (intro owned_other [OF assms(2)]) (auto simp: weak_sub_def gain_def lose_def split: if_splits)
qed

lemma reachable_owned_ok: "reachable P s \<Longrightarrow> params_ok P \<Longrightarrow> owned_ok P s"
  by (induction rule: reachable.induct) (auto simp: owned_start owned_step_def dest: owned_act)

lemma run_reachable: "run P as s = Some (Inr s') \<Longrightarrow> reachable P s \<Longrightarrow> reachable P s'"
proof (induction as arbitrary: s)
  case (Cons a as)
  then obtain s1 where "act P a s = Some (Inr s1)" "run P as s1 = Some (Inr s')"
    by (auto simp del: act.simps split: option.splits sum.splits)
  then show ?case using Cons reachable_step by blast
qed simp

lemma unowned_forever:
  "run P as s = Some (Inr s') \<Longrightarrow> owned_ok P s \<Longrightarrow> params_ok P \<Longrightarrow> owner_of s = None \<Longrightarrow> owner_of s' = None"
proof (induction as arbitrary: s)
  case (Cons a as)
  then obtain s1 where s1: "act P a s = Some (Inr s1)" "run P as s1 = Some (Inr s')"
    by (auto simp del: act.simps split: option.splits sum.splits)
  have "owned_step P s s1" by (rule owned_act [OF Cons.prems(3,2) s1(1)])
  then have "owned_ok P s1" "owner_of s1 = None" using Cons.prems(4) by (simp_all add: owned_step_def)
  then show ?case using Cons.IH s1(2) Cons.prems(3) by blast
qed simp

section \<open>The property\<close>

text \<open>
  C7. In every interleaving, also in those in which the counts go wrong, the owner field of an object
  names the thread that created it or nobody, only that thread ever stores a biased count, and only
  while it lives and is the owner, so that its loads and stores need no compare-and-exchange; and an
  object that has lost its owner never gets one again.
\<close>

theorem biased_word_has_one_writer:
  assumes "reachable P s" "params_ok P"
  shows "owner_of s \<in> {None, Some (owner_sid P)}
    \<and> (\<forall>t raw. pending_store (pcs s t) = Some raw \<longrightarrow> t = owner P \<and> \<not> owner_dead s
         \<and> owner_of s = Some (owner_sid P) \<and> owner_id (BiasedWord_from_raw raw) = Some (owner_sid P))
    \<and> (owner_of s = None \<longrightarrow> (\<forall>as s'. run P as s = Some (Inr s') \<longrightarrow> owner_of s' = None))"
proof (intro conjI allI impI)
  note ok = reachable_owned_ok [OF assms]
  show "owner_of s \<in> {None, Some (owner_sid P)}" by (rule owned_okD(1) [OF ok])
  fix t raw
  assume "pending_store (pcs s t) = Some raw"
  then have "t = owner P \<and> \<not> owner_dead s \<and> owner_of s = Some (owner_sid P)
      \<and> owner_id (BiasedWord_from_raw raw) = Some (owner_sid P)"
    using owned_okD(2) [OF ok, of t] by (simp add: pc_owned_def)
  then show "t = owner P" "\<not> owner_dead s" "owner_of s = Some (owner_sid P)"
    "owner_id (BiasedWord_from_raw raw) = Some (owner_sid P)" by simp_all
next
  show "owner_of s' = None" if "owner_of s = None" "run P as s = Some (Inr s')" for as s'
    using unowned_forever [OF that(2) reachable_owned_ok [OF assms] assms(2) that(1)] .
qed

text \<open>
  The owner of a new object in the middle of a clone; and after it has dropped its only reference, with
  what is left of the destruction still to come.
\<close>

theorem biased_word_has_one_writer_witness:
  "(\<exists>s raw. run duo [Clone 0 0, Step 0] (start duo) = Some (Inr s) \<and> pending_store (pcs s 0) = Some raw
      \<and> owner_id (BiasedWord_from_raw raw) = Some sid1)
   \<and> (\<exists>s s'. run duo [Drop 0, Step 0, Step 0, Step 0] (start duo) = Some (Inr s) \<and> owner_of s = None
      \<and> run duo [Step 0, Step 0] s = Some (Inr s') \<and> owner_of s' = None \<and> freed s')"
proof
  have "\<exists>s raw. run duo [Clone 0 0, Step 0] (start duo) = Some (Inr s) \<and> pending_store (pcs s 0) = Some raw"
    by (simp add: evaluate)
  then obtain s raw where s: "run duo [Clone 0 0, Step 0] (start duo) = Some (Inr s)" "pending_store (pcs s 0) = Some raw"
    by blast
  have "owner_id (BiasedWord_from_raw raw) = Some sid1"
    using biased_word_has_one_writer [OF run_reachable [OF s(1) reachable_start] params_ok_duo] s(2)
    by (auto simp: duo_def)
  with s show "\<exists>s raw. run duo [Clone 0 0, Step 0] (start duo) = Some (Inr s) \<and> pending_store (pcs s 0) = Some raw
      \<and> owner_id (BiasedWord_from_raw raw) = Some sid1" by blast
next
  have "\<exists>s s'. run duo [Drop 0, Step 0, Step 0, Step 0] (start duo) = Some (Inr s) \<and> owner_of s = None
      \<and> run duo [Step 0, Step 0] s = Some (Inr s') \<and> freed s'"
    by (simp add: owner_of_def evaluate)
  then obtain s s' where s: "run duo [Drop 0, Step 0, Step 0, Step 0] (start duo) = Some (Inr s)" "owner_of s = None"
    "run duo [Step 0, Step 0] s = Some (Inr s')" "freed s'" by blast
  have "owner_of s' = None"
    using biased_word_has_one_writer [OF run_reachable [OF s(1) reachable_start] params_ok_duo] s(2,3) by blast
  with s show "\<exists>s s'. run duo [Drop 0, Step 0, Step 0, Step 0] (start duo) = Some (Inr s) \<and> owner_of s = None
      \<and> run duo [Step 0, Step 0] s = Some (Inr s') \<and> owner_of s' = None \<and> freed s'" by blast
qed

end
