(* ===== verification/Protocol_Alone.thy ===== *)
theory Protocol_Alone
  imports Protocol_Theorems
begin

text \<open>
  What an operation of the interleaved model does when no other thread takes a step. The accesses of
  the operation compute what the function of \<open>Header\<close> computes on the whole header, with the same
  result, the same new header and the same failures; with the facts of \<open>Header_Counts\<close> this says what
  the operation does to the count, to the references and to the rest of the state.
\<close>

section \<open>Running one thread\<close>

fun steps_alone :: "nat \<Rightarrow> params \<Rightarrow> thread \<Rightarrow> state \<Rightarrow> state checked" where
  "steps_alone 0 P t s = Inr s"
| "steps_alone (Suc n) P t s = bind_checked (advance P t s) (steps_alone n P t)"

definition with_header :: "RawBrcHeader \<Rightarrow> state \<Rightarrow> state" where
  "with_header h s = s\<lparr>hdr := h\<rparr>"

lemma me_frame [simp]:
  "me P (goto t c s) u = me P s u" "me P (gain t s) u = me P s u" "me P (lose t s) u = me P s u"
  "me P (set_shared x s) u = me P s u" "me P (set_biased y s) u = me P s u" "me P (with_header h s) u = me P s u"
  by (simp_all add: me_def goto_def gain_def lose_def set_shared_def set_biased_def with_header_def)

lemma goto_facts [simp]:
  "pcs (goto t c s) t = c" "hdr (goto t c s) = hdr s" "freed (goto t c s) = freed s" "goto t c (goto t d s) = goto t c s"
  by (simp_all add: goto_def)

lemma advance_at: "\<not> freed s \<Longrightarrow> advance P t (goto t c s) = access P t c (goto t c s)"
  by (simp add: advance_def)

lemma words_frame [simp]:
  "hdr (set_shared x s) = (hdr s)\<lparr>shared_word := x\<rparr>" "hdr (set_biased y s) = (hdr s)\<lparr>biased_word := y\<rparr>"
  "hdr (gain t s) = hdr s" "hdr (lose t s) = hdr s"
  "freed (set_shared x s) = freed s" "freed (set_biased y s) = freed s" "freed (gain t s) = freed s" "freed (lose t s) = freed s"
  by (simp_all add: set_shared_def set_biased_def gain_def lose_def)

text \<open>Moving the program counter to the outside, and the header to the inside.\<close>

lemma goto_out [simp]:
  "gain t (goto t c s) = goto t c (gain t s)" "lose t (goto t c s) = goto t c (lose t s)"
  "set_shared x (goto t c s) = goto t c (set_shared x s)" "set_biased y (goto t c s) = goto t c (set_biased y s)"
  by (cases s; simp add: gain_def lose_def goto_def set_shared_def set_biased_def)+

lemma header_in [simp]:
  "gain t (set_shared x s) = gain t (with_header ((hdr s)\<lparr>shared_word := x\<rparr>) s)"
  "gain t (set_biased y s) = gain t (with_header ((hdr s)\<lparr>biased_word := y\<rparr>) s)"
  "lose t (set_shared x s) = lose t (with_header ((hdr s)\<lparr>shared_word := x\<rparr>) s)"
  "lose t (set_biased y s) = lose t (with_header ((hdr s)\<lparr>biased_word := y\<rparr>) s)"
  "set_biased y (lose t (with_header h s)) = lose t (with_header (h\<lparr>biased_word := y\<rparr>) s)"
  "set_biased y (set_shared x s) = with_header ((hdr s)\<lparr>shared_word := x, biased_word := y\<rparr>) s"
  "hdr (with_header h s) = h" "freed (with_header h s) = freed s"
  by (cases s; simp add: set_shared_def set_biased_def with_header_def gain_def lose_def)+

lemmas alone = advance_at bind_checked_assoc eval_nat_numeral

section \<open>Operation by operation\<close>

lemma increment_alone:
  assumes "\<not> freed s"
  shows "steps_alone 2 P t (goto t (Inc_load u) s) =
    bind_checked (increment_strong (debug P) (me P s t) (hdr s))
      (\<lambda>h. Inr (goto t Idle (gain t (with_header h s))))"
  using assms
  by (cases "attempt_biased_increment (debug P) (me P s t) (biased_word (hdr s))")
    (auto simp: alone increment_strong_def split: option.split)

lemma increment_shared_alone:
  assumes "\<not> freed s"
  shows "steps_alone 1 P t (goto t (Inc_shared u) s) =
    bind_checked (increment_strong_shared (shared_word (hdr s)))
      (\<lambda>raw. Inr (goto t Idle (gain t (with_header ((hdr s)\<lparr>shared_word := raw\<rparr>) s))))"
  using assms by (simp add: alone)

definition after_upgrade :: "thread \<Rightarrow> state \<Rightarrow> ZeroReferenceCountError + RawBrcHeader \<Rightarrow> state" where
  "after_upgrade t s r = (case r of Inl _ \<Rightarrow> goto t Idle s | Inr h \<Rightarrow> goto t Idle (gain t (with_header h s)))"

lemma upgrade_alone:
  assumes "\<not> freed s"
  shows "\<exists>n \<le> 3. steps_alone n P t (goto t (Up_load u) s) =
    bind_checked (increment_strong_unless_zero (debug P) (me P s t) [] (hdr s)) (\<lambda>r. Inr (after_upgrade t s r))"
proof (cases "attempt_biased_increment (debug P) (me P s t) (biased_word (hdr s))")
  case (Inl e)
  then show ?thesis
    using assms by (intro exI [of _ 1]) (simp add: alone increment_strong_unless_zero_def)
next
  case (Inr b)
  show ?thesis
  proof (cases b)
    case None
    then show ?thesis
      using assms Inr
      by (cases "unless_zero_update (debug P) (shared_word (hdr s))"; intro exI [of _ 3])
        (auto simp: alone increment_strong_unless_zero_def after_upgrade_def split: option.split)
  next
    case (Some raw)
    then show ?thesis
      using assms Inr
      by (intro exI [of _ 2]) (simp add: alone increment_strong_unless_zero_def after_upgrade_def)
  qed
qed

text \<open>Where a decrement goes on: the queue, the destructor, or nowhere.\<close>

definition after_decrement :: "thread \<Rightarrow> state \<Rightarrow> shared_decrement \<times> RawBrcHeader \<Rightarrow> state" where
  "after_decrement t s r =
     goto t (case fst r of Do_queue \<Rightarrow> Dec_owner | Shared_done d \<Rightarrow> if d then Drop_value else Idle)
       (lose t (with_header (snd r) s))"

lemma decrement_alone:
  assumes "\<not> freed s"
  shows "\<exists>n \<le> 3. steps_alone n P t (goto t Dec_load s) =
    bind_checked (decrement_strong (debug P) (me P s t) [] (hdr s)) (\<lambda>r. Inr (after_decrement t s r))"
proof (cases "decrement_biased_next (debug P) (me P s t) (biased_word (hdr s))")
  case (Inl e)
  then show ?thesis
    using assms by (intro exI [of _ 1]) (simp add: alone decrement_strong_def decrement_biased_def)
next
  case (Inr b)
  show ?thesis
  proof (cases b)
    case None
    then show ?thesis
      using assms Inr
      by (cases "decrement_shared_next (shared_word (hdr s))"; intro exI [of _ 3])
        (simp_all add: alone decrement_strong_def decrement_biased_def decrement_shared_def after_decrement_def)
  next
    case (Some d)
    show ?thesis
    proof (cases d)
      case (Biased_store raw)
      then show ?thesis
        using assms Inr Some
        by (intro exI [of _ 2]) (simp add: alone decrement_strong_def decrement_biased_def after_decrement_def)
    next
      case Biased_slow
      then show ?thesis
        using assms Inr Some
        by (intro exI [of _ 3])
          (simp add: alone decrement_strong_def decrement_biased_def decrement_biased_slow_def after_decrement_def)
    qed
  qed
qed

definition after_merging :: "thread \<Rightarrow> state \<Rightarrow> bool \<times> RawBrcHeader \<Rightarrow> state" where
  "after_merging t s r = goto t (if fst r then Drop_value else Idle) (with_header (snd r) s)"

lemma merge_alone:
  assumes "\<not> freed s"
  shows "\<exists>n \<le> 4. steps_alone n P t (goto t Merge_biased s) =
    bind_checked (explicit_merge_header (owner_sid P) [] (hdr s)) (\<lambda>r. Inr (after_merging t s r))"
proof (cases "owner_id (biased_of (hdr s)) = Some (owner_sid P)")
  case True
  then show ?thesis
    using assms
    by (cases "explicit_merge_next (biased_word (hdr s)) (shared_word (hdr s))"; intro exI [of _ 4])
      (simp_all add: alone explicit_merge_header_def after_merging_def)
next
  case False
  then show ?thesis
    using assms by (intro exI [of _ 1]) (simp add: alone explicit_merge_header_def)
qed

lemma unique_alone:
  assumes "\<not> freed s"
  shows "steps_alone 2 P t (goto t Uniq_shared s) =
    bind_checked (is_unique (debug P) (me P s t) (hdr s)) (\<lambda>b. Inr (goto t (Uniq_unlock b) s))"
  using assms by (simp add: alone is_unique_def)

section \<open>What an undisturbed operation does\<close>

text \<open>The header is in order and its count has changed by \<open>d\<close>; nothing but the references has changed.\<close>

definition counts_by :: "int \<Rightarrow> state \<Rightarrow> state \<Rightarrow> bool" where
  "counts_by d s s' \<longleftrightarrow>
     header_ok (hdr s') \<and> logical_count (hdr s') = logical_count (hdr s) + d
     \<and> weak s' = weak s \<and> weaks s' = weaks s \<and> in_queue s' = in_queue s \<and> drops s' = drops s \<and> freed s' = freed s"

lemma counts_by_frame [simp]:
  "counts_by d s (goto t c s') = counts_by d s s'" "counts_by d s (gain t s') = counts_by d s s'"
  "counts_by d s (lose t s') = counts_by d s s'"
  "counts_by d s (with_header h s) \<longleftrightarrow> header_ok h \<and> logical_count h = logical_count (hdr s) + d"
  "counts_by d s s \<longleftrightarrow> header_ok (hdr s) \<and> d = 0"
  by (auto simp: counts_by_def goto_def gain_def lose_def with_header_def)

lemma refs_frame [simp]:
  "refs (goto t c s) = refs s" "refs (gain t s) = add_mset t (refs s)" "refs (lose t s) = refs s - {#t#}"
  "refs (with_header h s) = refs s"
  by (simp_all add: goto_def gain_def lose_def with_header_def)

lemma clone_alone_counts:
  assumes "\<not> freed s" "header_ok (hdr s)" "carry_free (hdr s)"
  shows "case steps_alone 2 P t (goto t (Inc_load u) s) of
      Inl e \<Rightarrow> e = Fatal Shared_refcnt_overflow \<and> 2 ^ 60 - 1 < shared_value (hdr s)
    | Inr s' \<Rightarrow> pcs s' t = Idle \<and> refs s' = add_mset t (refs s) \<and> counts_by 1 s s'"
proof (cases "increment_strong (debug P) (me P s t) (hdr s)")
  case (Inl e)
  then show ?thesis using increment_strong_error [OF assms(2) Inl] by (simp add: increment_alone [OF assms(1)])
next
  case (Inr h)
  then show ?thesis using increment_strong_ok [OF assms(2,3) Inr] by (simp add: increment_alone [OF assms(1)])
qed

lemma unless_zero_overflow:
  assumes "header_ok h" "increment_strong_unless_zero dbg m [] h = Inl e"
  shows "2 ^ 60 \<le> shared_value h"
  using increment_strong_unless_zero_no_error [OF assms(1), of dbg m] assms(2) by fastforce

lemma upgrade_alone_counts:
  assumes "\<not> freed s" "header_ok (hdr s)"
  shows "\<exists>n \<le> 3. case steps_alone n P t (goto t (Up_load u) s) of
      Inl e \<Rightarrow> 2 ^ 60 \<le> shared_value (hdr s)
    | Inr s' \<Rightarrow> pcs s' t = Idle
        \<and> (if is_dead (hdr s) then hdr s' = hdr s \<and> refs s' = refs s \<and> counts_by 0 s s'
           else refs s' = add_mset t (refs s) \<and> counts_by 1 s s')"
proof -
  obtain n where n: "n \<le> 3" "steps_alone n P t (goto t (Up_load u) s) =
      bind_checked (increment_strong_unless_zero (debug P) (me P s t) [] (hdr s)) (\<lambda>r. Inr (after_upgrade t s r))"
    using upgrade_alone [OF assms(1)] by blast
  show ?thesis
  proof (cases "increment_strong_unless_zero (debug P) (me P s t) [] (hdr s)")
    case (Inl e)
    then show ?thesis using n unless_zero_overflow [OF assms(2) Inl] by (intro exI [of _ n]) simp
  next
    case (Inr r)
    then show ?thesis
      using n increment_strong_unless_zero_ok [OF assms(2) Inr] assms(2)
      by (intro exI [of _ n]) (cases r; simp add: after_upgrade_def)
  qed
qed

lemma drop_alone_counts:
  assumes "\<not> freed s" "header_ok (hdr s)" "0 < logical_count (hdr s)"
  shows "\<exists>n \<le> 3. \<exists>s'. steps_alone n P t (goto t Dec_load s) = Inr s'
    \<and> refs s' = refs s - {#t#} \<and> counts_by (- 1) s s'
    \<and> pcs s' t = (if is_dead (hdr s') then Drop_value
        else if queued (shared_of (hdr s')) \<noteq> queued (shared_of (hdr s)) then Dec_owner else Idle)"
proof -
  obtain n where n: "n \<le> 3" "steps_alone n P t (goto t Dec_load s) =
      bind_checked (decrement_strong (debug P) (me P s t) [] (hdr s)) (\<lambda>r. Inr (after_decrement t s r))"
    using decrement_alone [OF assms(1)] by blast
  obtain r h where r: "decrement_strong (debug P) (me P s t) [] (hdr s) = Inr (r, h)" "decrement_post (hdr s) r h"
    using decrement_strong_ok [OF assms(2,3)] by blast
  then show ?thesis
    using n by (intro exI [of _ n] exI [of _ "after_decrement t s (r, h)"])
      (cases r; auto simp: after_decrement_def decrement_post_def is_dead_def)
qed

lemma merge_alone_counts:
  assumes "\<not> freed s" "header_ok (hdr s)" "owner_id (biased_of (hdr s)) = Some (owner_sid P)"
  shows "\<exists>n \<le> 4. case steps_alone n P t (goto t Merge_biased s) of
      Inl e \<Rightarrow> e = Fatal Merged_refcnt_overflow \<and> 2 ^ 61 - 2 ^ 20 \<le> shared_value (hdr s)
    | Inr s' \<Rightarrow> merged (shared_of (hdr s')) \<and> refs s' = refs s \<and> counts_by 0 s s'
        \<and> pcs s' t = (if is_dead (hdr s') then Drop_value else Idle)"
proof -
  obtain n where n: "n \<le> 4" "steps_alone n P t (goto t Merge_biased s) =
      bind_checked (explicit_merge_header (owner_sid P) [] (hdr s)) (\<lambda>r. Inr (after_merging t s r))"
    using merge_alone [OF assms(1)] by blast
  show ?thesis
  proof (cases "explicit_merge_header (owner_sid P) [] (hdr s)")
    case (Inl e)
    then show ?thesis
      using n explicit_merge_header_error [OF assms(2,3) Inl] by (intro exI [of _ n]) simp
  next
    case (Inr r)
    obtain zero h where r: "r = (zero, h)" by (cases r)
    then show ?thesis
      using n Inr explicit_merge_header_ok [OF assms(2,3)]
      by (intro exI [of _ n]) (simp add: after_merging_def)
  qed
qed

text \<open>The assertion of \<open>explicit_merge\<close> on a header that is merged already, and its check of the id.\<close>

lemma merge_rejects:
  assumes "\<not> freed s"
  shows "owner_id (biased_of (hdr s)) = Some (owner_sid P) \<Longrightarrow> merged (shared_of (hdr s)) \<Longrightarrow>
      steps_alone 3 P t (goto t Merge_biased s) = Inl Assertion_failed"
    and "owner_id (biased_of (hdr s)) \<noteq> Some (owner_sid P) \<Longrightarrow>
      steps_alone 3 P t (goto t Merge_biased s) = Inl (Undefined Explicit_merge_bad_id)"
  using assms by (simp_all add: alone explicit_merge_next_def Let_def)

lemma unique_answers:
  assumes "\<not> freed s" "header_ok (hdr s)"
  shows "steps_alone 2 P t (goto t Uniq_shared s) = Inr (goto t (Uniq_unlock
    (logical_count (hdr s) = 1
      \<and> (merged (shared_of (hdr s)) \<or> owner_id (biased_of (hdr s)) = result_ok (me P s t)))) s)"
proof -
  have "0 \<le> logical_count (hdr s)" "logical_count (hdr s) < 2 ^ 64"
    using assms(2) biased_value_range(2) [of "hdr s"] shared_value_range(2) [of "hdr s"]
    by (auto simp: header_ok_def logical_count_def split: if_splits)
  then have "(word_of_int (logical_count (hdr s)) :: 64 word) = 1 \<longleftrightarrow> logical_count (hdr s) = 1"
    by (rule word64_of_int_eq_1)
  then show ?thesis
    using strong_count_cases [OF assms(2), of "debug P" "me P s t"]
    by (auto simp: unique_alone [OF assms(1)] is_unique_def is_unique_of_def strong_count_def)
qed

text \<open>
  C29. An operation that no other thread disturbs does what it is for, on any header that is in order,
  within four atomic accesses. A clone adds one to the count and gives the thread a reference, or aborts
  because of the overflow limit. An upgrade does the same exactly when the object is not dead, and otherwise
  changes nothing. A drop takes one away and goes on to the destructor exactly when the header is then
  dead, and to the owner's queue exactly when it has set the queued flag. A merge leaves the count as
  it is, and goes on to the destructor exactly when it is zero; on a header that is merged already it stops at
  its assertion, and on one of another owner at its check of the id. The uniqueness test answers whether
  the count is one, on the threads that can know it.
\<close>

theorem alone_operations_count:
  assumes "\<not> freed s" "header_ok (hdr s)"
  shows "(carry_free (hdr s) \<longrightarrow> (case steps_alone 2 P t (goto t (Inc_load u) s) of
        Inl e \<Rightarrow> e = Fatal Shared_refcnt_overflow \<and> 2 ^ 60 - 1 < shared_value (hdr s)
      | Inr s' \<Rightarrow> pcs s' t = Idle \<and> refs s' = add_mset t (refs s) \<and> counts_by 1 s s'))
   \<and> (\<exists>n \<le> 3. case steps_alone n P t (goto t (Up_load u) s) of
        Inl e \<Rightarrow> 2 ^ 60 \<le> shared_value (hdr s)
      | Inr s' \<Rightarrow> pcs s' t = Idle
          \<and> (if is_dead (hdr s) then hdr s' = hdr s \<and> refs s' = refs s \<and> counts_by 0 s s'
             else refs s' = add_mset t (refs s) \<and> counts_by 1 s s'))
   \<and> (0 < logical_count (hdr s) \<longrightarrow> (\<exists>n \<le> 3. \<exists>s'. steps_alone n P t (goto t Dec_load s) = Inr s'
      \<and> refs s' = refs s - {#t#} \<and> counts_by (- 1) s s'
      \<and> pcs s' t = (if is_dead (hdr s') then Drop_value
          else if queued (shared_of (hdr s')) \<noteq> queued (shared_of (hdr s)) then Dec_owner else Idle)))
   \<and> (owner_id (biased_of (hdr s)) = Some (owner_sid P) \<longrightarrow>
      (\<exists>n \<le> 4. case steps_alone n P t (goto t Merge_biased s) of
          Inl e \<Rightarrow> e = Fatal Merged_refcnt_overflow \<and> 2 ^ 61 - 2 ^ 20 \<le> shared_value (hdr s)
        | Inr s' \<Rightarrow> merged (shared_of (hdr s')) \<and> refs s' = refs s \<and> counts_by 0 s s'
            \<and> pcs s' t = (if is_dead (hdr s') then Drop_value else Idle)))
   \<and> (\<forall>x. \<not> freed x \<longrightarrow>
        (if owner_id (biased_of (hdr x)) \<noteq> Some (owner_sid P)
         then steps_alone 3 P t (goto t Merge_biased x) = Inl (Undefined Explicit_merge_bad_id)
         else merged (shared_of (hdr x)) \<longrightarrow>
           steps_alone 3 P t (goto t Merge_biased x) = Inl Assertion_failed))
   \<and> steps_alone 2 P t (goto t Uniq_shared s) = Inr (goto t (Uniq_unlock
        (logical_count (hdr s) = 1
          \<and> (merged (shared_of (hdr s)) \<or> owner_id (biased_of (hdr s)) = result_ok (me P s t)))) s)"
  by (intro conjI impI allI clone_alone_counts upgrade_alone_counts drop_alone_counts merge_alone_counts unique_answers assms)
    (simp_all add: merge_rejects)

theorem alone_operations_count_witness:
  "\<exists>s n s'. header_ok (hdr s) \<and> logical_count (hdr s) = 1 \<and> refs s = {#0#}
     \<and> steps_alone 2 duo 0 (goto 0 Uniq_shared s) = Inr (goto 0 (Uniq_unlock True) s)
     \<and> n \<le> 3 \<and> steps_alone n duo 0 (goto 0 Dec_load s) = Inr s' \<and> refs s' = {#} \<and> logical_count (hdr s') = 0"
proof -
  let ?s = "start duo"
  have h: "hdr ?s = init_for (Some sid1)" "\<not> freed ?s" "refs ?s = {#0#}" "me duo ?s 0 = Inr sid1"
    by (simp_all add: start_def duo_def me_def)
  have ok: "header_ok (hdr ?s)" "logical_count (hdr ?s) = 1" "owner_id (biased_of (hdr ?s)) = Some sid1"
    using init_for_counts_one(1,2) [of "Some sid1"] by (simp_all add: h init_for_words)
  note T = alone_operations_count [OF h(2) ok(1), of 0 duo 0]
  obtain n s' where "n \<le> 3" "steps_alone n duo 0 (goto 0 Dec_load ?s) = Inr s'" "refs s' = {#}" "counts_by (- 1) ?s s'"
    using T ok(2) h(3) by auto
  moreover have "steps_alone 2 duo 0 (goto 0 Uniq_shared ?s) = Inr (goto 0 (Uniq_unlock True) ?s)"
    using T ok(2,3) h(4) by simp
  ultimately show ?thesis using h(3) ok(1,2) by (auto simp: counts_by_def)
qed

end
