(* ===== verification/Layout_Info.thy ===== *)
theory Layout_Info
  imports Prelude
begin

text \<open>
  Where the header, the value and the allocator of an object lie in its allocation (\<open>layout.rs\<close>, on
  a target with 64 bit pointers). \<open>Layout\<close> and its operations are those of \<open>core::alloc\<close>: sizes
  and alignments are numbers, and a layout whose rounded size would exceed \<open>isize::MAX\<close> is an
  error. The lemmas show that the value lies behind the header inside the allocation, is aligned,
  that its address is even (so it can never be the reserved value of \<open>Weak::new\<close>), and that the
  header is found again from the value.
\<close>

section \<open>Layouts of the standard library\<close>

record Layout =
  size_of :: nat
  align_of :: nat

definition isize_MAX :: nat where
  "isize_MAX = 2 ^ 63 - 1"

definition usize_MAX :: nat where
  "usize_MAX = 2 ^ 64 - 1"

definition is_power_of_two :: "nat \<Rightarrow> bool" where
  "is_power_of_two a \<longleftrightarrow> a \<in> set (map (\<lambda>k. 2 ^ k) [0..<64])"

definition layout_ok :: "Layout \<Rightarrow> bool" where
  "layout_ok l \<longleftrightarrow> is_power_of_two (align_of l) \<and> size_of l \<le> isize_MAX + 1 - align_of l"

text \<open>\<open>Layout::from_size_align\<close>, with \<open>None\<close> for \<open>LayoutError\<close>.\<close>

definition from_size_align :: "nat \<Rightarrow> nat \<Rightarrow> Layout option" where
  "from_size_align sz al =
     (if layout_ok \<lparr>size_of = sz, align_of = al\<rparr> then Some \<lparr>size_of = sz, align_of = al\<rparr> else None)"

definition align_to :: "Layout \<Rightarrow> nat \<Rightarrow> Layout option" where
  "align_to l al = (if is_power_of_two al then from_size_align (size_of l) (max (align_of l) al) else None)"

text \<open>The size rounded up to a multiple of an alignment.\<close>

definition round_up :: "nat \<Rightarrow> nat \<Rightarrow> nat" where
  "round_up sz al = ((sz + al - 1) div al) * al"

text \<open>\<open>Layout::extend\<close>: the layout of this one followed by another, and the offset of the second.\<close>

definition Layout_extend :: "Layout \<Rightarrow> Layout \<Rightarrow> (Layout \<times> nat) option" where
  "Layout_extend l next_layout =
     (let offset = round_up (size_of l) (align_of next_layout);
          new_size = offset + size_of next_layout in
      if new_size \<le> usize_MAX then
        (case from_size_align new_size (max (align_of l) (align_of next_layout)) of
           None \<Rightarrow> None
         | Some l' \<Rightarrow> Some (l', offset))
      else None)"

text \<open>\<open>Layout::array\<close> for elements of the given layout.\<close>

definition array_layout :: "Layout \<Rightarrow> nat \<Rightarrow> Layout option" where
  "array_layout elem n = from_size_align (size_of elem * n) (align_of elem)"

section \<open>The header\<close>

text \<open>
  \<open>RawBrcHeader\<close> is \<open>repr(C)\<close>: an \<open>AtomicUsize\<close>, then an \<open>AtomicU32\<close>, padded to 16 bytes.
  \<open>BrcHeader\<close> is \<open>repr(C)\<close> too: the raw header, the weak count, then the allocator.
\<close>

definition RawBrcHeader_layout :: Layout where
  "RawBrcHeader_layout = \<lparr>size_of = 16, align_of = 8\<rparr>"

definition weak_count_offset :: nat where
  "weak_count_offset = 16"

definition alloc_offset :: "Layout \<Rightarrow> nat" where
  "alloc_offset alloc = round_up 20 (align_of alloc)"

definition BrcHeader_layout :: "Layout \<Rightarrow> Layout" where
  "BrcHeader_layout alloc =
     (let al = max 8 (align_of alloc) in
      \<lparr>size_of = round_up (alloc_offset alloc + size_of alloc) al, align_of = al\<rparr>)"

text \<open>The layout of \<open>Global\<close>, which is zero-sized.\<close>

definition Global_layout :: Layout where
  "Global_layout = \<lparr>size_of = 0, align_of = 1\<rparr>"

section \<open>\<open>LayoutInfo\<close>\<close>

record LayoutInfo =
  value_offset :: int
  full_layout :: Layout

definition MIN_VALUE_ALIGNMENT :: nat where
  "MIN_VALUE_ALIGNMENT = 2"

definition LayoutInfo_new :: "Layout \<Rightarrow> Layout \<Rightarrow> LayoutInfo option" where
  "LayoutInfo_new alloc layout =
     (case align_to layout MIN_VALUE_ALIGNMENT of
        None \<Rightarrow> None
      | Some layout \<Rightarrow>
          (case Layout_extend (BrcHeader_layout alloc) layout of
             None \<Rightarrow> None
           | Some (full, offset) \<Rightarrow> Some \<lparr>value_offset = int offset, full_layout = full\<rparr>))"

text \<open>\<open>new_or_panic\<close>: its panic unwinds to the caller of the constructor.\<close>

definition LayoutInfo_new_or_panic :: "Layout \<Rightarrow> Layout \<Rightarrow> 's \<Rightarrow> ('s, LayoutInfo) outcome" where
  "LayoutInfo_new_or_panic alloc layout s =
     (case LayoutInfo_new alloc layout of Some res \<Rightarrow> Return res s | None \<Rightarrow> Unwind s)"

definition header_offset :: "LayoutInfo \<Rightarrow> int" where
  "header_offset info = 0 - value_offset info"

text \<open>\<open>for_value\<close>, and the \<open>unwrap_unchecked\<close> of \<open>Brc::layout\<close> and \<open>WeakReal::layout_info\<close>.\<close>

definition LayoutInfo_for_value :: "Layout \<Rightarrow> Layout \<Rightarrow> LayoutInfo checked" where
  "LayoutInfo_for_value alloc layout = or_fault Unchecked_violation (LayoutInfo_new alloc layout)"

section \<open>Facts about alignment\<close>

lemma is_power_of_two_iff: "is_power_of_two a \<longleftrightarrow> (\<exists>k < 64. a = 2 ^ k)"
  by (auto simp: is_power_of_two_def)

lemma power_pos: "is_power_of_two a \<Longrightarrow> 0 < a"
  by (auto simp: is_power_of_two_iff)

lemma power_le: "is_power_of_two a \<Longrightarrow> a \<le> 2 ^ 63"
proof -
  assume "is_power_of_two a"
  then obtain k where "k \<le> 63" "a = 2 ^ k" by (auto simp: is_power_of_two_iff)
  then show ?thesis by (metis one_le_numeral power_increasing)
qed

lemma power_dvd_max:
  assumes "is_power_of_two a" "is_power_of_two b"
  shows "a dvd max a b" "b dvd max a b"
  using assms by (auto simp: is_power_of_two_iff max_def le_imp_power_dvd)

lemma power_max: "is_power_of_two a \<Longrightarrow> is_power_of_two b \<Longrightarrow> is_power_of_two (max a b)"
  by (simp add: max_def)

lemma is_power_of_two_small [simp]: "is_power_of_two 1" "is_power_of_two (Suc 0)" "is_power_of_two 2" "is_power_of_two 8" "is_power_of_two 16"
proof -
  show "is_power_of_two 1" "is_power_of_two (Suc 0)"
    unfolding is_power_of_two_iff by (intro exI [of _ 0]; simp)+
  show "is_power_of_two 2" unfolding is_power_of_two_iff by (intro exI [of _ 1]) simp
  show "is_power_of_two 8" unfolding is_power_of_two_iff by (intro exI [of _ 3]) simp
  show "is_power_of_two 16" unfolding is_power_of_two_iff by (intro exI [of _ 4]) simp
qed

lemma round_up_dvd: "al dvd round_up sz al"
  by (simp add: round_up_def)

lemma round_up_ge: "0 < al \<Longrightarrow> sz \<le> round_up sz al"
proof -
  assume "0 < al"
  then have "sz + al - 1 < ((sz + al - 1) div al + 1) * al"
    by (metis add.commute dividend_less_times_div mult.commute mult_Suc_right plus_1_eq_Suc)
  then show ?thesis using \<open>0 < al\<close> by (simp add: round_up_def)
qed

lemma round_up_less: "0 < al \<Longrightarrow> round_up sz al < sz + al"
proof -
  assume "0 < al"
  have "((sz + al - 1) div al) * al \<le> sz + al - 1" by (rule div_times_less_eq_dividend)
  then show ?thesis using \<open>0 < al\<close> unfolding round_up_def by linarith
qed

lemma align_to_Some:
  assumes "align_to l al = Some l'"
  shows "l' = \<lparr>size_of = size_of l, align_of = max (align_of l) al\<rparr>" "layout_ok l'"
  using assms by (auto simp: align_to_def from_size_align_def split: if_splits)

lemma Layout_extend_Some:
  assumes "Layout_extend l m = Some (full, offset)"
  shows "offset = round_up (size_of l) (align_of m)" "size_of full = offset + size_of m"
    "align_of full = max (align_of l) (align_of m)" "layout_ok full"
proof -
  define off where "off = round_up (size_of l) (align_of m)"
  define al where "al = max (align_of l) (align_of m)"
  have "Some (full, offset) = (if layout_ok \<lparr>size_of = off + size_of m, align_of = al\<rparr>
      then Some (\<lparr>size_of = off + size_of m, align_of = al\<rparr>, off) else None)"
    using assms by (auto simp: Layout_extend_def Let_def from_size_align_def off_def al_def split: if_splits)
  then show "offset = round_up (size_of l) (align_of m)" "size_of full = offset + size_of m"
    "align_of full = max (align_of l) (align_of m)" "layout_ok full"
    by (auto simp: off_def al_def split: if_splits)
qed

lemmas layout_evaluate =
  LayoutInfo_new_def align_to_def from_size_align_def Layout_extend_def layout_ok_def round_up_def
  BrcHeader_layout_def alloc_offset_def Global_layout_def MIN_VALUE_ALIGNMENT_def isize_MAX_def
  usize_MAX_def Let_def

section \<open>What a \<open>LayoutInfo\<close> promises\<close>

lemma BrcHeader_align: "layout_ok alloc \<Longrightarrow> is_power_of_two (align_of (BrcHeader_layout alloc))"
  by (simp add: BrcHeader_layout_def Let_def layout_ok_def power_max)

lemma BrcHeader_size:
  assumes "layout_ok alloc"
  shows "20 \<le> alloc_offset alloc" "alloc_offset alloc + size_of alloc \<le> size_of (BrcHeader_layout alloc)"
    "weak_count_offset + 4 \<le> alloc_offset alloc" "align_of alloc dvd alloc_offset alloc"
proof -
  have pos: "0 < align_of alloc" using assms by (simp add: layout_ok_def power_pos)
  show "20 \<le> alloc_offset alloc" using round_up_ge [OF pos, of 20] by (simp add: alloc_offset_def)
  then show "weak_count_offset + 4 \<le> alloc_offset alloc" by (simp add: weak_count_offset_def)
  show "alloc_offset alloc + size_of alloc \<le> size_of (BrcHeader_layout alloc)"
    using round_up_ge [of "max 8 (align_of alloc)"] by (simp add: BrcHeader_layout_def Let_def)
  show "align_of alloc dvd alloc_offset alloc" by (simp add: alloc_offset_def round_up_dvd)
qed

lemma LayoutInfo_new_Some:
  assumes "LayoutInfo_new alloc layout = Some info"
  shows "value_offset info = int (round_up (size_of (BrcHeader_layout alloc)) (max (align_of layout) 2))"
    "int (size_of (full_layout info)) = value_offset info + int (size_of layout)"
    "align_of (full_layout info) = max (align_of (BrcHeader_layout alloc)) (max (align_of layout) 2)"
    "layout_ok (full_layout info)" "is_power_of_two (max (align_of layout) 2)"
proof -
  obtain l full off where l: "align_to layout 2 = Some l"
    "Layout_extend (BrcHeader_layout alloc) l = Some (full, off)"
    and info: "info = \<lparr>value_offset = int off, full_layout = full\<rparr>"
    using assms by (auto simp: LayoutInfo_new_def MIN_VALUE_ALIGNMENT_def split: option.splits)
  note L = align_to_Some [OF l(1)] and X = Layout_extend_Some [OF l(2)]
  show "value_offset info = int (round_up (size_of (BrcHeader_layout alloc)) (max (align_of layout) 2))"
    "int (size_of (full_layout info)) = value_offset info + int (size_of layout)"
    "align_of (full_layout info) = max (align_of (BrcHeader_layout alloc)) (max (align_of layout) 2)"
    "layout_ok (full_layout info)"
    using X L(1) by (simp_all add: info)
  show "is_power_of_two (max (align_of layout) 2)" using L by (simp add: layout_ok_def)
qed

text \<open>
  C28. Inside an allocation, the header comes first and the value behind it without overlap; the
  value's offset is aligned for the value and even; the allocation is aligned for both, and its size
  fits an \<open>isize\<close>. The \<open>unchecked_sub\<close> of \<open>header_offset\<close> stays within an \<open>isize\<close>, and the offset
  leads from any value pointer back to its header, which ends before the value begins.
\<close>

theorem value_lies_behind_header:
  assumes "layout_ok alloc" "layout_ok layout" "LayoutInfo_new alloc layout = Some info"
  shows "int (size_of (BrcHeader_layout alloc)) \<le> value_offset info
    \<and> value_offset info + int (size_of layout) = int (size_of (full_layout info))
    \<and> size_of (full_layout info) \<le> isize_MAX
    \<and> int (align_of layout) dvd value_offset info \<and> even (value_offset info)
    \<and> align_of layout dvd align_of (full_layout info)
    \<and> align_of (BrcHeader_layout alloc) dvd align_of (full_layout info)
    \<and> - int isize_MAX \<le> header_offset info
    \<and> header_offset info + int (size_of (BrcHeader_layout alloc)) \<le> 0
    \<and> (\<forall>header_ptr. header_ptr + value_offset info + header_offset info = header_ptr)"
proof -
  note L = LayoutInfo_new_Some [OF assms(3)]
  have pl: "is_power_of_two (align_of layout)" using assms(2) by (simp add: layout_ok_def)
  have pos: "0 < max (align_of layout) 2" by simp
  have dl: "align_of layout dvd max (align_of layout) 2" "2 dvd max (align_of layout) 2"
    by (rule power_dvd_max; simp add: pl)+
  have off: "int (align_of layout) dvd value_offset info" "2 dvd value_offset info"
    using dvd_trans [OF dl(1) round_up_dvd] dvd_trans [OF dl(2) round_up_dvd]
    unfolding L(1) by (simp_all add: even_of_nat)
  have "max (align_of layout) 2 dvd align_of (full_layout info)"
    "align_of (BrcHeader_layout alloc) dvd align_of (full_layout info)"
    unfolding L(3) using power_dvd_max [OF BrcHeader_align [OF assms(1)] L(5)] by auto
  then show ?thesis
    using off L round_up_ge [OF pos] dvd_trans [OF dl(1)]
    by (auto simp: layout_ok_def isize_MAX_def header_offset_def)
qed

theorem value_lies_behind_header_witness:
  "\<exists>info. LayoutInfo_new Global_layout \<lparr>size_of = 24, align_of = 16\<rparr> = Some info
     \<and> size_of (full_layout info) \<le> isize_MAX \<and> even (value_offset info)
     \<and> 4096 + value_offset info + header_offset info = 4096"
proof -
  have i: "LayoutInfo_new Global_layout \<lparr>size_of = 24, align_of = 16\<rparr>
      = Some \<lparr>value_offset = 32, full_layout = \<lparr>size_of = 56, align_of = 16\<rparr>\<rparr>"
    by (simp add: layout_evaluate)
  have l: "layout_ok Global_layout" "layout_ok \<lparr>size_of = 24, align_of = 16\<rparr>"
    by (simp_all add: layout_evaluate)
  show ?thesis using value_lies_behind_header [OF l i] i by blast
qed

lemma value_address_even:
  assumes "layout_ok alloc" "layout_ok layout" "LayoutInfo_new alloc layout = Some info"
    and "int (align_of (full_layout info)) dvd header_ptr"
  shows "even (header_ptr + value_offset info)"
proof -
  note L = LayoutInfo_new_Some [OF assms(3)]
  have "2 dvd max (align_of layout) 2"
    using power_dvd_max(2) [of "align_of layout" 2] assms(2) by (simp add: layout_ok_def)
  moreover have "max (align_of layout) 2 dvd align_of (full_layout info)"
    unfolding L(3) using power_dvd_max(2) [OF BrcHeader_align [OF assms(1)] L(5)] .
  moreover have "2 dvd round_up (size_of (BrcHeader_layout alloc)) (max (align_of layout) 2)"
    using calculation(1) round_up_dvd by (rule dvd_trans)
  ultimately have "even header_ptr" "even (value_offset info)"
    using assms(4) L(1) by (metis dvd_trans of_nat_dvd_iff of_nat_numeral)+
  then show ?thesis by simp
qed

text \<open>
  The address of a value is never \<open>usize::MAX\<close>: the reserved pointer of \<open>Weak::new\<close> cannot be
  mistaken for an object, and the header is found again from the value pointer.
\<close>

theorem value_never_reserved:
  assumes "layout_ok alloc" "layout_ok layout" "LayoutInfo_new alloc layout = Some info"
    and "int (align_of (full_layout info)) dvd header_ptr"
  shows "header_ptr + value_offset info \<noteq> int usize_MAX
    \<and> header_ptr + value_offset info + header_offset info = header_ptr"
proof -
  have "even (header_ptr + value_offset info)" by (rule value_address_even [OF assms])
  moreover have "odd (int usize_MAX)" by (simp add: usize_MAX_def)
  ultimately have "header_ptr + value_offset info \<noteq> int usize_MAX" by metis
  then show ?thesis by (simp add: header_offset_def)
qed

theorem value_never_reserved_witness:
  "(4096 :: int) + 32 \<noteq> int usize_MAX"
proof -
  have i: "LayoutInfo_new Global_layout \<lparr>size_of = 24, align_of = 16\<rparr>
      = Some \<lparr>value_offset = 32, full_layout = \<lparr>size_of = 56, align_of = 16\<rparr>\<rparr>"
    by (simp add: layout_evaluate)
  have l: "layout_ok Global_layout" "layout_ok \<lparr>size_of = 24, align_of = 16\<rparr>"
    by (simp_all add: layout_evaluate)
  show ?thesis using value_never_reserved [OF l i, of 4096] by simp
qed

end
