(* ===== verification/Objects.thy ===== *)
theory Objects
  imports Header_Counts Layout_Info
begin

text \<open>
  Objects in memory and how they are taken apart: \<open>BrcHeader\<close> with \<open>drop_weak\<close> (\<open>layout.rs\<close>), the
  erased drop information (\<open>runtime.rs\<close>, \<open>pointee.rs\<close>) and \<open>DropContext::erased_dealloc\<close>
  (\<open>strong.rs\<close>). Operations act on a \<open>world\<close>: the runtime state of \<open>Thread_State\<close> and a heap of
  objects by the address of their header. An access to an address that holds no object is a use
  after free, and giving memory back with another layout than it was allocated with is undefined.

  What the library gets from elsewhere is the record \<open>env\<close>: the build configuration, the queue of
  \<open>crossbeam\<close>, the index that \<open>boxcar\<close> gives to a new entry, the allocator, and the destructor and
  layout of the user's type.
\<close>

section \<open>Pointer metadata as drop context\<close>

text \<open>The metadata kinds of \<open>SupportedMetadata\<close>: none, a length, a vtable. All fit a pointer.\<close>

datatype metadata = Thin | Len "64 word" | Vtable "64 word"

datatype metadata_kind = Thin_kind | Len_kind | Vtable_kind

fun kind_of :: "metadata \<Rightarrow> metadata_kind" where
  "kind_of Thin = Thin_kind"
| "kind_of (Len _) = Len_kind"
| "kind_of (Vtable _) = Vtable_kind"

datatype ErasedDestructorContext = ErasedDestructorContext "64 word"

fun to_context :: "metadata \<Rightarrow> ErasedDestructorContext" where
  "to_context Thin = ErasedDestructorContext 0"
| "to_context (Len n) = ErasedDestructorContext n"
| "to_context (Vtable p) = ErasedDestructorContext p"

fun from_context :: "metadata_kind \<Rightarrow> ErasedDestructorContext \<Rightarrow> metadata" where
  "from_context Thin_kind _ = Thin"
| "from_context Len_kind (ErasedDestructorContext p) = Len p"
| "from_context Vtable_kind (ErasedDestructorContext p) = Vtable p"

lemma from_to_context: "from_context (kind_of m) (to_context m) = m"
  by (cases m) simp_all

text \<open>
  \<open>layout_for_ptr\<close> on stable Rust, for a pointer with this metadata: \<open>elem\<close> is the layout of the sized
  type, or of one element of the slice. Strings are slices of bytes. Trait objects are not supported.
\<close>

fun layout_for_ptr :: "Layout \<Rightarrow> metadata \<Rightarrow> Layout checked" where
  "layout_for_ptr elem Thin = Inr elem"
| "layout_for_ptr elem (Len n) = or_fault Unchecked_violation (array_layout elem (unat n))"
| "layout_for_ptr elem (Vtable _) = Inl Unchecked_violation"

text \<open>\<open>FromIterator\<close> allocates with \<open>Layout::array\<close>; from the pointer the same layout comes back.\<close>

lemma layout_for_ptr_array:
  "array_layout elem n = Some L \<Longrightarrow> n < 2 ^ 64 \<Longrightarrow> layout_for_ptr elem (Len (of_nat n)) = Inr L"
  by (simp add: unat_of_nat take_bit_nat_eq_self)

section \<open>Objects and worlds\<close>

type_synonym addr = nat

text \<open>
  \<open>BrcHeader\<close>, the value behind it (\<open>None\<close> when it has been dropped or moved out, or was never
  written), and the layout the memory was allocated with.
\<close>

record 'v object =
  strong :: RawBrcHeader
  weak_count :: "32 word"
  contents :: "'v option"
  block :: Layout

record ('q, 'v) world = "'q runtime" +
  heap :: "addr \<Rightarrow> 'v object option"

text \<open>
  \<open>ErasedDropInfo\<close>: its function is \<open>DropContext::erased_dealloc\<close>, the only implementation, so only
  the offset, the context and the type's metadata kind are kept.
\<close>

record ErasedDropInfo =
  drop_offset :: int
  erased_ctx :: ErasedDestructorContext
  drop_kind :: metadata_kind

record QueuedObject =
  header_ptr :: addr
  drop_info :: ErasedDropInfo

section \<open>What the library gets from elsewhere\<close>

type_synonym ('q, 'v, 'a) action = "('q, 'v) world \<Rightarrow> (('q, 'v) world, 'a) outcome"

record ('q, 'v) env =
  debug_assertions :: bool
  panic_unwind :: bool
  implicit_collect_disable :: bool
  no_implicit_collect :: bool
  no_implicit_collect_clone :: bool
  no_implicit_collect_drop :: bool
  queue_new :: 'q
  queue_push :: "QueuedObject \<Rightarrow> 'q \<Rightarrow> 'q"
  queue_pop :: "'q \<Rightarrow> (QueuedObject \<times> 'q) option"
  queue_is_empty :: "'q \<Rightarrow> bool"
  next_index :: "(nat \<Rightarrow> (ThreadIdOverflowError + 'q SharedThreadInfo) option) \<Rightarrow> 64 word"
  thread_panicking :: "thread \<Rightarrow> bool"
  needs_drop :: bool
  drop_in_place :: "'v \<Rightarrow> ('q, 'v, unit) action"
  layout_for :: "metadata \<Rightarrow> Layout"
  allocator_layout :: Layout
  allocate :: "Layout \<Rightarrow> ('q, 'v) world \<Rightarrow> addr option"

section \<open>Running actions\<close>

text \<open>A guard whose \<open>drop\<close> runs \<open>g\<close> when the scope is left, also by a panic.\<close>

fun with_guard :: "('s, 'a) outcome \<Rightarrow> ('s \<Rightarrow> ('s, unit) outcome) \<Rightarrow> ('s, 'a) outcome" where
  "with_guard (Return x s) g = bind_outcome (g s) (\<lambda>_ s. Return x s)"
| "with_guard (Unwind s) g =
     (case g s of Return _ s \<Rightarrow> Unwind s | Unwind _ \<Rightarrow> Halt Nounwind_abort | Halt e \<Rightarrow> Halt e)"
| "with_guard (Halt e) g = Halt e"

text \<open>The object at an address.\<close>

definition load :: "addr \<Rightarrow> ('q, 'v, 'v object) action" where
  "load a w = (case heap w a of None \<Rightarrow> Halt Use_after_free | Some ob \<Rightarrow> Return ob w)"

definition store :: "addr \<Rightarrow> 'v object \<Rightarrow> ('q, 'v) world \<Rightarrow> ('q, 'v) world" where
  "store a ob w = w\<lparr>heap := (heap w)(a \<mapsto> ob)\<rparr>"

text \<open>A header operation at an address.\<close>

definition on_header :: "addr \<Rightarrow> (RawBrcHeader \<Rightarrow> ('a \<times> RawBrcHeader) checked) \<Rightarrow> ('q, 'v, 'a) action" where
  "on_header a f w =
     bind_outcome (load a w) (\<lambda>ob w.
     bind_outcome (lift_checked (f (strong ob)) w) (\<lambda>(x, h) w.
     Return x (store a (ob\<lparr>strong := h\<rparr>) w)))"

text \<open>\<open>Allocator::deallocate\<close>: the layout must be the one the memory was allocated with.\<close>

definition deallocate :: "addr \<Rightarrow> Layout \<Rightarrow> ('q, 'v, unit) action" where
  "deallocate a layout w =
     bind_outcome (load a w) (\<lambda>ob w.
       if block ob = layout then Return () (w\<lparr>heap := (heap w)(a := None)\<rparr>) else Halt Unchecked_violation)"

section \<open>\<open>BrcHeader\<close>\<close>

text \<open>\<open>drop_weak_slow\<close> takes the allocator out of the header and frees the memory with it.\<close>

definition drop_weak_slow :: "addr \<Rightarrow> Layout \<Rightarrow> ('q, 'v, unit) action" where
  "drop_weak_slow a layout w = deallocate a layout w"

definition drop_weak :: "addr \<Rightarrow> LayoutInfo \<Rightarrow> ('q, 'v, unit) action" where
  "drop_weak a layout_info w =
     bind_outcome (load a w) (\<lambda>ob w.
       let w = store a (ob\<lparr>weak_count := weak_count ob - 1\<rparr>) w in
       if weak_count ob = 1 then drop_weak_slow a (full_layout layout_info) w else Return () w)"

section \<open>\<open>DropContext\<close>\<close>

text \<open>
  \<open>drop_in_place\<close> of the value at an address: the user's destructor runs on a value that is no
  longer there for anybody else.
\<close>

definition drop_contents :: "('q, 'v) env \<Rightarrow> addr \<Rightarrow> ('q, 'v, unit) action" where
  "drop_contents E a w =
     bind_outcome (load a w) (\<lambda>ob w.
       case contents ob of
         None \<Rightarrow> Halt Double_drop
       | Some v \<Rightarrow> drop_in_place E v (store a (ob\<lparr>contents := None\<rparr>) w))"

definition erased_dealloc ::
  "('q, 'v) env \<Rightarrow> addr \<Rightarrow> metadata_kind \<Rightarrow> ErasedDestructorContext \<Rightarrow> int \<Rightarrow> ('q, 'v, unit) action" where
  "erased_dealloc E a kind ctx offset w =
     bind_outcome (lift_checked
       (LayoutInfo_for_value (allocator_layout E) (layout_for E (from_context kind ctx))) w) (\<lambda>layout_info w.
     bind_outcome (lift_checked (debug_assert (debug_assertions E) (value_offset layout_info = offset)) w) (\<lambda>_ w.
     with_guard (if needs_drop E then drop_contents E a w else Return () w) (drop_weak a layout_info)))"

text \<open>\<open>DropInfo::erase\<close>, and the two \<open>dealloc\<close>s that end in \<open>erased_dealloc\<close>.\<close>

definition erase :: "metadata \<Rightarrow> int \<Rightarrow> ErasedDropInfo" where
  "erase m offset = \<lparr>drop_offset = offset, erased_ctx = to_context m, drop_kind = kind_of m\<rparr>"

definition erased_info_dealloc :: "('q, 'v) env \<Rightarrow> ErasedDropInfo \<Rightarrow> addr \<Rightarrow> ('q, 'v, unit) action" where
  "erased_info_dealloc E d a = erased_dealloc E a (drop_kind d) (erased_ctx d) (drop_offset d)"

definition drop_context_dealloc :: "('q, 'v) env \<Rightarrow> metadata \<Rightarrow> int \<Rightarrow> addr \<Rightarrow> ('q, 'v, unit) action" where
  "drop_context_dealloc E m offset a = erased_dealloc E a (kind_of m) (to_context m) offset"

section \<open>Lemmas\<close>

lemma heap_store [simp]: "heap (store a ob w) = (heap w)(a \<mapsto> ob)"
  by (simp add: store_def)

lemma store_store [simp]: "store a ob (store a ob' w) = store a ob w"
  by (simp add: store_def)

lemma runtime_store [simp]:
  "threads (store a ob w) = threads w" "ids_exhausted (store a ob w) = ids_exhausted w"
  "fast (store a ob w) = fast w" "tls (store a ob w) = tls w"
  by (simp_all add: store_def)

lemma load_Some [simp]: "heap w a = Some ob \<Longrightarrow> load a w = Return ob w"
  by (simp add: load_def)

lemma load_None [simp]: "heap w a = None \<Longrightarrow> load a w = Halt Use_after_free"
  by (simp add: load_def)

lemma on_header_ok:
  "heap w a = Some ob \<Longrightarrow> f (strong ob) = Inr (x, h) \<Longrightarrow>
     on_header a f w = Return x (store a (ob\<lparr>strong := h\<rparr>) w)"
  by (simp add: on_header_def)

lemma on_header_fault:
  "heap w a = Some ob \<Longrightarrow> f (strong ob) = Inl e \<Longrightarrow> on_header a f w = Halt e"
  by (simp add: on_header_def)

lemma erased_and_typed_dealloc:
  "erased_info_dealloc E (erase m offset) a = drop_context_dealloc E m offset a"
  by (simp add: erased_info_dealloc_def drop_context_dealloc_def erase_def)

lemma drop_weak_last:
  assumes "heap w a = Some ob" "weak_count ob = 1" "block ob = full_layout info"
  shows "drop_weak a info w = Return () (w\<lparr>heap := (heap w)(a := None)\<rparr>)"
  using assms by (simp add: drop_weak_def drop_weak_slow_def deallocate_def store_def Let_def)

lemma drop_weak_other:
  assumes "heap w a = Some ob" "weak_count ob \<noteq> 1"
  shows "drop_weak a info w = Return () (store a (ob\<lparr>weak_count := weak_count ob - 1\<rparr>) w)"
  using assms by (simp add: drop_weak_def Let_def)

text \<open>
  A destructor that returns and leaves the library's state alone, which is what it does when the
  value holds no counted references.
\<close>

definition calm :: "('q, 'v) env \<Rightarrow> bool" where
  "calm E \<longleftrightarrow> needs_drop E \<and> (\<forall>v w. drop_in_place E v w = Return () w)"

text \<open>An object whose layout and offset are those of its type.\<close>

definition typed :: "('q, 'v) env \<Rightarrow> metadata \<Rightarrow> int \<Rightarrow> 'v object \<Rightarrow> bool" where
  "typed E m offset ob \<longleftrightarrow>
     (case LayoutInfo_new (allocator_layout E) (layout_for E m) of
        None \<Rightarrow> False
      | Some info \<Rightarrow> value_offset info = offset \<and> block ob = full_layout info)"

lemma typed_info:
  "typed E m offset ob \<Longrightarrow> \<exists>info. LayoutInfo_new (allocator_layout E) (layout_for E m) = Some info
     \<and> value_offset info = offset \<and> block ob = full_layout info"
  by (auto simp: typed_def split: option.splits)

lemma typed_update [simp]:
  "typed E m offset (ob\<lparr>strong := h\<rparr>) = typed E m offset ob"
  "typed E m offset (ob\<lparr>weak_count := n\<rparr>) = typed E m offset ob"
  "typed E m offset (ob\<lparr>contents := c\<rparr>) = typed E m offset ob"
  by (simp_all add: typed_def split: option.splits)

text \<open>
  Taking an object apart: the value is destroyed, then the weak reference that all strong ones
  shared is given back, which frees the memory, with the layout it was allocated with, unless a
  weak reference is left.
\<close>

lemma erased_dealloc_calm:
  assumes "calm E" "heap w a = Some ob" "contents ob = Some v" "typed E m offset ob"
  shows "drop_context_dealloc E m offset a w =
    Return () (if weak_count ob = 1 then w\<lparr>heap := (heap w)(a := None)\<rparr>
               else store a (ob\<lparr>contents := None, weak_count := weak_count ob - 1\<rparr>) w)"
proof -
  obtain info where i: "LayoutInfo_new (allocator_layout E) (layout_for E m) = Some info"
    "value_offset info = offset" "block ob = full_layout info"
    using typed_info [OF assms(4)] by blast
  have h: "heap (store a (ob\<lparr>contents := None\<rparr>) w) a = Some (ob\<lparr>contents := None\<rparr>)" by simp
  show ?thesis
    using assms(1-3) i drop_weak_last [OF h, of info] drop_weak_other [OF h, of info]
    by (simp add: drop_context_dealloc_def erased_dealloc_def from_to_context LayoutInfo_for_value_def
        drop_contents_def calm_def store_def)
qed

lemma heap_more: "runtime.more w' = runtime.more w \<Longrightarrow> heap w' = heap (w :: ('q, 'v) world)"
  by (cases w; cases w') simp

lemma existing_short_id_store [simp]: "existing_short_id t (store a ob w) = existing_short_id t w"
  by (simp add: existing_short_id_def)

lemma runtime_ok_store [simp]: "runtime_ok (store a ob w) = runtime_ok w"
  by (simp add: runtime_ok_def thread_ok_def table_ok_def entries_distinct_def alive_entry_def
      cong: tls_slot.case_cong sum.case_cong)

end
