(* ===== verification/Collector.thy ===== *)
theory Collector
  imports Objects
begin

text \<open>
  Queueing and collecting (\<open>runtime.rs\<close>, \<open>runtime/threads.rs\<close>): the decrement of the strong count
  with its hand-over to the owner's queue, the merge of a queued object, the processing of a queue,
  the \<open>collect\<close> family, and the end of a thread. The loops over the queue may not end when
  destructors keep queueing objects, so they are partial functions; \<open>None\<close> becomes the fault
  \<open>Diverges\<close>.
\<close>

section \<open>The thread that runs\<close>

definition my_short_id :: "thread \<Rightarrow> ('q, 'v, LocalThreadAccessError + ShortThreadId) action" where
  "my_short_id t w = lift_checked (existing_short_id t w) w"

definition with_current_state ::
  "('q, 'v) env \<Rightarrow> thread \<Rightarrow> (LocalThreadState \<Rightarrow> ('q, 'v, 'a) action)
    \<Rightarrow> ('q, 'v, LocalThreadAccessError + 'a) action" where
  "with_current_state E t f w =
     (case with_current (queue_new E) (next_index E (threads w)) t w of
        Inl e \<Rightarrow> Halt e
      | Inr (Inl err, w) \<Rightarrow> Return (Inl err) w
      | Inr (Inr st, w) \<Rightarrow> bind_outcome (f st w) (\<lambda>x w. Return (Inr x) w))"

section \<open>Queues\<close>

text \<open>The entry of a thread in the table, and an update of it.\<close>

definition entry :: "('q, 'v) world \<Rightarrow> nat \<Rightarrow> 'q SharedThreadInfo option" where
  "entry w i = (case threads w i of Some (Inr info) \<Rightarrow> Some info | _ \<Rightarrow> None)"

definition set_entry :: "nat \<Rightarrow> 'q SharedThreadInfo \<Rightarrow> ('q, 'v) world \<Rightarrow> ('q, 'v) world" where
  "set_entry i info w = w\<lparr>threads := (threads w)(i \<mapsto> Inr info)\<rparr>"

text \<open>A reference to a \<open>SharedThreadInfo\<close> is always valid: the entries are leaked on purpose.\<close>

definition with_entry :: "nat \<Rightarrow> ('q SharedThreadInfo \<Rightarrow> ('q, 'v, 'a) action) \<Rightarrow> ('q, 'v, 'a) action" where
  "with_entry i f w = (case entry w i of None \<Rightarrow> Halt Unchecked_violation | Some info \<Rightarrow> f info w)"

section \<open>Merging a queued object\<close>

definition explicit_merge :: "('q, 'v) env \<Rightarrow> ShortThreadId \<Rightarrow> QueuedObject \<Rightarrow> ('q, 'v, unit) action" where
  "explicit_merge E biased_tid ob w =
     bind_outcome (on_header (header_ptr ob) (explicit_merge_header biased_tid []) w) (\<lambda>zero w.
       if zero then erased_info_dealloc E (drop_info ob) (header_ptr ob) w else Return () w)"

text \<open>\<open>ObjectQueue::do_process\<close>: pop and merge until the queue is empty.\<close>

partial_function (option) process_loop ::
  "('q, 'v) env \<Rightarrow> nat \<Rightarrow> ('q, 'v) world \<Rightarrow> (('q, 'v) world, unit) outcome option" where
  "process_loop E i w =
     (case entry w i of
        None \<Rightarrow> Some (Halt Unchecked_violation)
      | Some info \<Rightarrow>
          (case queue_pop E (queue_inner info) of
             None \<Rightarrow> Some (Return () w)
           | Some (ob, rest) \<Rightarrow>
               (case explicit_merge E (queue_short_id info) ob (set_entry i (info\<lparr>queue_inner := rest\<rparr>) w) of
                  Return _ w \<Rightarrow> process_loop E i w
                | Unwind w \<Rightarrow> Some (Unwind w)
                | Halt e \<Rightarrow> Some (Halt e))))"

definition finite_run :: "('s, 'a) outcome option \<Rightarrow> ('s, 'a) outcome" where
  "finite_run r = (case r of Some r \<Rightarrow> r | None \<Rightarrow> Halt Diverges)"

definition do_process :: "('q, 'v) env \<Rightarrow> nat \<Rightarrow> ('q, 'v, unit) action" where
  "do_process E i w = finite_run (process_loop E i w)"

text \<open>
  Dropping one strong reference to the queue's \<open>Arc\<close>: the last one drops the queue, whose
  destructor processes what is left in it.
\<close>

definition drop_queue_arc :: "('q, 'v) env \<Rightarrow> nat \<Rightarrow> ('q, 'v, unit) action" where
  "drop_queue_arc E i =
     with_entry i (\<lambda>info w.
       let w = set_entry i (info\<lparr>queue_strong := queue_strong info - 1\<rparr>) w in
       if queue_strong info = 1 then do_process E i w else Return () w)"

text \<open>\<open>Weak::upgrade\<close> of \<open>queued_objects\<close>.\<close>

definition upgrade_queue :: "nat \<Rightarrow> ('q, 'v, bool) action" where
  "upgrade_queue i =
     with_entry i (\<lambda>info w.
       if queue_strong info = 0 then Return False w
       else Return True (set_entry i (info\<lparr>queue_strong := queue_strong info + 1\<rparr>) w))"

text \<open>A \<open>compare_exchange\<close> of the state flag whose result is ignored.\<close>

definition swap_flag :: "nat \<Rightarrow> ThreadStateFlag \<Rightarrow> ThreadStateFlag \<Rightarrow> ('q, 'v, unit) action" where
  "swap_flag i old new =
     with_entry i (\<lambda>info w.
       Return () (if state_flag info = old then set_entry i (info\<lparr>state_flag := new\<rparr>) w else w))"

definition queue_object :: "('q, 'v) env \<Rightarrow> nat \<Rightarrow> QueuedObject \<Rightarrow> ('q, 'v, unit) action" where
  "queue_object E i ob w =
     abort_unwind
       (bind_outcome (upgrade_queue i w) (\<lambda>upgraded w.
          if upgraded then
            with_guard
              (bind_outcome
                (with_entry i (\<lambda>info w.
                   Return () (set_entry i (info\<lparr>queue_inner := queue_push E ob (queue_inner info)\<rparr>) w)) w)
                (\<lambda>_. swap_flag i Live QueuedObjects))
              (drop_queue_arc E i)
          else
            with_entry i (\<lambda>info w.
              if is_dead_or_dying (state_flag info) then explicit_merge E (info_short_id info) ob w
              else Halt Assertion_failed) w))"

section \<open>Decrementing the strong count\<close>

definition decrement_shared_do_queue :: "('q, 'v) env \<Rightarrow> addr \<Rightarrow> metadata \<Rightarrow> int \<Rightarrow> ('q, 'v, unit) action" where
  "decrement_shared_do_queue E a m offset w =
     bind_outcome (load a w) (\<lambda>ob w.
       case owner_id (biased_of (strong ob)) of
         None \<Rightarrow> Halt (Undefined Negative_refcnt_no_owner)
       | Some owner \<Rightarrow>
           bind_outcome (lift_checked (get_by_id owner w) w) (\<lambda>found w.
             case found of
               None \<Rightarrow> Halt (Undefined Owner_undefined_state)
             | Some (i, _) \<Rightarrow> queue_object E i \<lparr>header_ptr = a, drop_info = erase m offset\<rparr> w))"

text \<open>\<open>RawBrcHeader::decrement_strong\<close>: whether the caller must drop the value.\<close>

definition decrement_strong_at :: "('q, 'v) env \<Rightarrow> thread \<Rightarrow> addr \<Rightarrow> metadata \<Rightarrow> int \<Rightarrow> ('q, 'v, bool) action" where
  "decrement_strong_at E t a m offset w =
     bind_outcome (my_short_id t w) (\<lambda>me w.
     bind_outcome (on_header a (decrement_strong (debug_assertions E) me []) w) (\<lambda>r w.
       case r of
         Shared_done should_drop \<Rightarrow> Return should_drop w
       | Do_queue \<Rightarrow> bind_outcome (decrement_shared_do_queue E a m offset w) (\<lambda>_ w. Return False w)))"

section \<open>Collecting\<close>

text \<open>The loop of \<open>LocalThreadState::collect_force\<close>.\<close>

partial_function (option) collect_loop ::
  "('q, 'v) env \<Rightarrow> nat \<Rightarrow> ('q, 'v) world \<Rightarrow> (('q, 'v) world, unit) outcome option" where
  "collect_loop E i w =
     (case bind_outcome (do_process E i w) (\<lambda>_. swap_flag i QueuedObjects Live) of
        Return _ w \<Rightarrow>
          (case entry w i of
             None \<Rightarrow> Some (Halt Unchecked_violation)
           | Some info \<Rightarrow> if queue_is_empty E (queue_inner info) then Some (Return () w) else collect_loop E i w)
      | Unwind w \<Rightarrow> Some (Unwind w)
      | Halt e \<Rightarrow> Some (Halt e))"

definition local_collect_force :: "('q, 'v) env \<Rightarrow> LocalThreadState \<Rightarrow> ('q, 'v, unit) action" where
  "local_collect_force E st =
     with_entry (shared_info st) (\<lambda>info w.
       if is_live (state_flag info) then
         bind_outcome (upgrade_queue (shared_info st) w) (\<lambda>upgraded w.
           if upgraded then
             with_guard (finite_run (collect_loop E (shared_info st) w)) (drop_queue_arc E (shared_info st))
           else Return () w)
       else Return () w)"

text \<open>The two unwind policies: \<open>MayPanic\<close> lets a panic through, \<open>NeverPanic\<close> aborts.\<close>

datatype unwind_policy = MayPanic | NeverPanic

fun maybe_abort_unwind :: "unwind_policy \<Rightarrow> ('s, 'a) outcome \<Rightarrow> ('s, 'a) outcome" where
  "maybe_abort_unwind MayPanic r = r"
| "maybe_abort_unwind NeverPanic r = abort_unwind r"

fun may_unwind :: "('q, 'v) env \<Rightarrow> unwind_policy \<Rightarrow> bool" where
  "may_unwind E MayPanic = panic_unwind E"
| "may_unwind E NeverPanic = False"

definition collect_slow :: "('q, 'v) env \<Rightarrow> unwind_policy \<Rightarrow> thread \<Rightarrow> ('q, 'v, unit) action" where
  "collect_slow E pol t w =
     bind_outcome
       (with_current_state E t (\<lambda>st w. maybe_abort_unwind pol
          (if thread_panicking E t then Return () w
           else with_entry (shared_info st) (\<lambda>info w.
             if state_flag info \<noteq> Live then local_collect_force E st w else Return () w) w)) w)
       (\<lambda>_ w. Return () w)"

definition collect_with :: "('q, 'v) env \<Rightarrow> unwind_policy \<Rightarrow> thread \<Rightarrow> ('q, 'v, unit) action" where
  "collect_with E pol t w = (if currently_needs_collect t w then collect_slow E pol t w else Return () w)"

definition collect :: "('q, 'v) env \<Rightarrow> thread \<Rightarrow> ('q, 'v, unit) action" where
  "collect E = collect_with E MayPanic"

definition collect_nounwind :: "('q, 'v) env \<Rightarrow> thread \<Rightarrow> ('q, 'v, unit) action" where
  "collect_nounwind E = collect_with E NeverPanic"

definition collect_implicit :: "('q, 'v) env \<Rightarrow> thread \<Rightarrow> ('q, 'v, unit) action" where
  "collect_implicit E t w =
     (if implicit_collect_disable E \<or> no_implicit_collect E then Return () w else collect_nounwind E t w)"

definition collect_force :: "('q, 'v) env \<Rightarrow> thread \<Rightarrow> ('q, 'v, unit) action" where
  "collect_force E t w =
     bind_outcome (with_current_state E t (local_collect_force E) w) (\<lambda>_ w. Return () w)"

section \<open>The end of a thread\<close>

text \<open>\<open>Drop for LocalThreadState\<close>.\<close>

definition drop_local_state :: "('q, 'v) env \<Rightarrow> thread \<Rightarrow> LocalThreadState \<Rightarrow> ('q, 'v, unit) action" where
  "drop_local_state E t st w =
     (if fast w t = \<lparr>status = Active, fast_short_id = Some (local_short_id st),
                     shared_state_flag = shared_state_flag (fast w t)\<rparr> then
        let w = w\<lparr>fast := (fast w)(t := \<lparr>status = DeadOrDying, fast_short_id = None, shared_state_flag = None\<rparr>)\<rparr> in
        with_entry (shared_info st) (\<lambda>info w.
          if is_live (state_flag info) then
            bind_outcome (drop_queue_arc E (shared_info st)
                (set_entry (shared_info st) (info\<lparr>state_flag := Dying\<rparr>) w)) (\<lambda>_.
              with_entry (shared_info st) (\<lambda>info w.
                if state_flag info = Dying
                then Return () (set_entry (shared_info st) (info\<lparr>state_flag := Dead\<rparr>) w)
                else Halt Assertion_failed))
          else Halt Assertion_failed) w
      else Halt Assertion_failed)"

text \<open>
  The destructor of the thread-local variable at thread exit. From its start on, the variable can
  no longer be accessed; a panic out of it aborts the process.
\<close>

definition thread_exit :: "('q, 'v) env \<Rightarrow> thread \<Rightarrow> ('q, 'v, unit) action" where
  "thread_exit E t w =
     (let slot = tls w t; w = w\<lparr>tls := (tls w)(t := Tls_destroyed)\<rparr> in
      case slot of
        Tls_alive (Inr st) \<Rightarrow> abort_unwind (drop_local_state E t st w)
      | _ \<Rightarrow> Return () w)"

end
