(* ===== verification/Queue_Protocol.thy ===== *)
theory Queue_Protocol
  imports Collector "HOL-Library.Multiset"
begin

text \<open>
  The queue of one owner thread under any interleaving (\<open>runtime/threads.rs\<close>): \<open>queue_object\<close> on any
  thread, \<open>collect\<close>, \<open>collect_nounwind\<close> and \<open>collect_force\<close> on the owner, and the destructor of the
  owner's \<open>LocalThreadState\<close>, one access to the shared state at a time. The shared state is the
  owner's \<open>SharedThreadInfo\<close>: the state flag, the strong count of the \<open>Arc\<close> around the queue, and
  the \<open>SegQueue\<close>. Every thread has a stack of frames, because a merge may run a destructor, which may
  start further operations (nested collections included) before the merge returns. What a merge does
  to the object is the subject of \<open>Protocol\<close>; here it is one step, counted in \<open>merged_obs\<close>.

  The operations of \<open>SegQueue\<close> are those of the environment; those of \<open>Arc\<close> and \<open>Weak\<close> are atomic
  increments and decrements of the strong count, as in the standard library.
\<close>

section \<open>Frames\<close>

text \<open>
  A frame names the next access of an operation in progress. A collection carries the unwind policy
  it runs under; so does the destructor of the queue, which runs inside the operation that gave up
  the last strong reference.
\<close>

datatype frame =
    \<comment> \<open>\<open>SharedThreadInfo::queue_object\<close>\<close>
    Qo_upgrade QueuedObject
  | Qo_push QueuedObject
  | Qo_flag
  | Qo_release
  | Qo_state QueuedObject
  | Qo_merge QueuedObject
    \<comment> \<open>\<open>Drop for ObjectQueue\<close>\<close>
  | Drain_pop unwind_policy
  | Drain_merge unwind_policy QueuedObject
    \<comment> \<open>\<open>collect\<close>, \<open>collect_slow\<close>\<close>
  | Need_collect unwind_policy
  | Slow_collect unwind_policy
    \<comment> \<open>\<open>LocalThreadState::collect_force\<close>\<close>
  | Co_state unwind_policy
  | Co_upgrade unwind_policy
  | Co_pop unwind_policy
  | Co_merge unwind_policy QueuedObject
  | Co_flag unwind_policy
  | Co_empty unwind_policy
  | Co_release unwind_policy
    \<comment> \<open>\<open>Drop for LocalThreadState\<close>\<close>
  | Ex_swap
  | Ex_drop
  | Ex_dead

text \<open>The frames that run user code, on top of which new operations can start.\<close>

fun merging :: "frame \<Rightarrow> bool" where
  "merging (Qo_merge _) = True"
| "merging (Drain_merge _ _) = True"
| "merging (Co_merge _ _) = True"
| "merging _ = False"

text \<open>
  \<open>local_dead\<close>: the destructor of the owner's thread-local state has started, so its fast state is
  dead and \<open>with_current\<close> fails. \<open>requested\<close> and \<open>merged_obs\<close> record the calls of \<open>queue_object\<close>
  and the merges done; \<open>unwound\<close> that a destructor panicked out of a collection.
\<close>

record 'q station =
  info :: "'q SharedThreadInfo"
  stacks :: "frame list list"
  local_dead :: bool
  requested :: "QueuedObject multiset"
  merged_obs :: "QueuedObject multiset"
  unwound :: bool

section \<open>Accesses\<close>

definition set_strong :: "nat \<Rightarrow> 'q station \<Rightarrow> 'q station" where
  "set_strong n s = s\<lparr>info := (info s)\<lparr>queue_strong := n\<rparr>\<rparr>"

definition set_flag :: "ThreadStateFlag \<Rightarrow> 'q station \<Rightarrow> 'q station" where
  "set_flag f s = s\<lparr>info := (info s)\<lparr>state_flag := f\<rparr>\<rparr>"

definition set_inner :: "'q \<Rightarrow> 'q station \<Rightarrow> 'q station" where
  "set_inner q s = s\<lparr>info := (info s)\<lparr>queue_inner := q\<rparr>\<rparr>"

definition did_merge :: "QueuedObject \<Rightarrow> 'q station \<Rightarrow> 'q station" where
  "did_merge ob s = s\<lparr>merged_obs := add_mset ob (merged_obs s)\<rparr>"

text \<open>A \<open>compare_exchange\<close> of the flag whose result is ignored.\<close>

definition exchange_flag :: "ThreadStateFlag \<Rightarrow> ThreadStateFlag \<Rightarrow> 'q station \<Rightarrow> 'q station" where
  "exchange_flag old new s = (if state_flag (info s) = old then set_flag new s else s)"

text \<open>
  Giving up a strong reference to the queue; the last one runs the queue's destructor, before the
  operation goes on with the frames \<open>after\<close>.
\<close>

definition release_arc :: "unwind_policy \<Rightarrow> frame list \<Rightarrow> 'q station \<Rightarrow> frame list \<times> 'q station" where
  "release_arc pol after s =
     ((if queue_strong (info s) = 1 then Drain_pop pol # after else after),
      set_strong (queue_strong (info s) - 1) s)"

text \<open>The access of a frame: the frames that take its place, and the new state.\<close>

fun frame_access :: "('q, 'v) env \<Rightarrow> frame \<Rightarrow> 'q station \<Rightarrow> (frame list \<times> 'q station) checked" where
  "frame_access E (Qo_upgrade ob) s =
     Inr (if queue_strong (info s) = 0 then ([Qo_state ob], s)
          else ([Qo_push ob], set_strong (queue_strong (info s) + 1) s))"
| "frame_access E (Qo_push ob) s = Inr ([Qo_flag], set_inner (queue_push E ob (queue_inner (info s))) s)"
| "frame_access E Qo_flag s = Inr ([Qo_release], exchange_flag Live QueuedObjects s)"
| "frame_access E Qo_release s = Inr (release_arc NeverPanic [] s)"
| "frame_access E (Qo_state ob) s =
     (if is_dead_or_dying (state_flag (info s)) then Inr ([Qo_merge ob], s) else Inl Assertion_failed)"
| "frame_access E (Qo_merge ob) s = Inr ([], did_merge ob s)"
| "frame_access E (Drain_pop pol) s =
     Inr (case queue_pop E (queue_inner (info s)) of
            None \<Rightarrow> ([], s)
          | Some (ob, rest) \<Rightarrow> ([Drain_merge pol ob], set_inner rest s))"
| "frame_access E (Drain_merge pol ob) s = Inr ([Drain_pop pol], did_merge ob s)"
| "frame_access E (Need_collect pol) s =
     Inr ((if (if local_dead s then DUMMY_STATE_FLAG else state_flag (info s)) \<noteq> Live
           then [Slow_collect pol] else []), s)"
| "frame_access E (Slow_collect pol) s =
     Inr ((if \<not> local_dead s \<and> state_flag (info s) \<noteq> Live then [Co_state pol] else []), s)"
| "frame_access E (Co_state pol) s =
     Inr ((if is_live (state_flag (info s)) then [Co_upgrade pol] else []), s)"
| "frame_access E (Co_upgrade pol) s =
     Inr (if queue_strong (info s) = 0 then ([], s)
          else ([Co_pop pol], set_strong (queue_strong (info s) + 1) s))"
| "frame_access E (Co_pop pol) s =
     Inr (case queue_pop E (queue_inner (info s)) of
            None \<Rightarrow> ([Co_flag pol], s)
          | Some (ob, rest) \<Rightarrow> ([Co_merge pol ob], set_inner rest s))"
| "frame_access E (Co_merge pol ob) s = Inr ([Co_pop pol], did_merge ob s)"
| "frame_access E (Co_flag pol) s = Inr ([Co_empty pol], exchange_flag QueuedObjects Live s)"
| "frame_access E (Co_empty pol) s =
     Inr ((if queue_is_empty E (queue_inner (info s)) then [Co_release pol] else [Co_pop pol]), s)"
| "frame_access E (Co_release pol) s = Inr (release_arc pol [] s)"
| "frame_access E Ex_swap s =
     (if is_live (state_flag (info s)) then Inr ([Ex_drop], set_flag Dying s) else Inl Assertion_failed)"
| "frame_access E Ex_drop s = Inr (release_arc NeverPanic [Ex_dead] s)"
| "frame_access E Ex_dead s =
     (if state_flag (info s) = Dying then Inr ([], set_flag Dead s) else Inl Assertion_failed)"

text \<open>
  A destructor panics out of a merge. In \<open>queue_object\<close>, in the destructor of the thread-local state
  and under \<open>NeverPanic\<close> that aborts; otherwise the collection unwinds, and its \<open>Arc\<close> is dropped on
  the way.
\<close>

fun frame_panic :: "frame \<Rightarrow> 'q station \<Rightarrow> (frame list \<times> 'q station) checked option" where
  "frame_panic (Qo_merge ob) s = Some (Inl Nounwind_abort)"
| "frame_panic (Drain_merge NeverPanic ob) s = Some (Inl Nounwind_abort)"
| "frame_panic (Drain_merge MayPanic ob) s = Some (Inr ([], (did_merge ob s)\<lparr>unwound := True\<rparr>))"
| "frame_panic (Co_merge NeverPanic ob) s = Some (Inl Nounwind_abort)"
| "frame_panic (Co_merge MayPanic ob) s = Some (Inr ([Co_release MayPanic], (did_merge ob s)\<lparr>unwound := True\<rparr>))"
| "frame_panic _ s = None"

section \<open>Actions\<close>

text \<open>
  What can happen next. \<open>Advance\<close>: a thread performs the access of its top frame. \<open>Panic\<close>: the
  destructor that runs there panics. \<open>Skip\<close>: \<open>collect_slow\<close> finds the thread panicking. The others
  start an operation on a thread that is in user code: \<open>Queue\<close> on any thread, the collections on the
  owner, and \<open>Exit\<close> when the owner has returned from everything.
\<close>

datatype queue_action =
    Advance nat
  | Panic nat
  | Skip nat
  | Queue nat QueuedObject
  | Begin_collect unwind_policy
  | Begin_force
  | Exit

definition in_user_code :: "frame list \<Rightarrow> bool" where
  "in_user_code fs \<longleftrightarrow> fs = [] \<or> merging (hd fs)"

definition put_stack :: "nat \<Rightarrow> frame list \<Rightarrow> 'q station \<Rightarrow> 'q station" where
  "put_stack t fs s = s\<lparr>stacks := (stacks s)[t := fs]\<rparr>"

definition call :: "nat \<Rightarrow> frame \<Rightarrow> 'q station \<Rightarrow> 'q station checked option" where
  "call t c s =
     (if t < length (stacks s) \<and> in_user_code (stacks s ! t)
      then Some (Inr (put_stack t (c # stacks s ! t) s)) else None)"

text \<open>The top frame of a thread makes way for others.\<close>

definition replace_top :: "nat \<Rightarrow> (frame list \<times> 'q station) checked \<Rightarrow> 'q station \<Rightarrow> 'q station checked" where
  "replace_top t r s = bind_checked r (\<lambda>(fs, s'). Inr (put_stack t (fs @ tl (stacks s ! t)) s'))"

definition running :: "nat \<Rightarrow> 'q station \<Rightarrow> bool" where
  "running t s \<longleftrightarrow> t < length (stacks s) \<and> stacks s ! t \<noteq> []"

fun queue_act :: "('q, 'v) env \<Rightarrow> nat \<Rightarrow> queue_action \<Rightarrow> 'q station \<Rightarrow> 'q station checked option" where
  "queue_act E own (Advance t) s =
     (if running t s then Some (replace_top t (frame_access E (hd (stacks s ! t)) s) s) else None)"
| "queue_act E own (Panic t) s =
     (if running t s then map_option (\<lambda>r. replace_top t r s) (frame_panic (hd (stacks s ! t)) s) else None)"
| "queue_act E own (Skip t) s =
     (if running t s \<and> (\<exists>pol \<in> {MayPanic, NeverPanic}. hd (stacks s ! t) = Slow_collect pol)
      then Some (replace_top t (Inr ([], s)) s) else None)"
| "queue_act E own (Queue t ob) s = call t (Qo_upgrade ob) (s\<lparr>requested := add_mset ob (requested s)\<rparr>)"
| "queue_act E own (Begin_collect pol) s = call own (Need_collect pol) s"
| "queue_act E own Begin_force s = (if local_dead s then None else call own (Co_state MayPanic) s)"
| "queue_act E own Exit s =
     (if own < length (stacks s) \<and> stacks s ! own = [] \<and> \<not> local_dead s
      then Some (Inr (put_stack own [Ex_swap] (s\<lparr>local_dead := True\<rparr>))) else None)"

text \<open>
  A freshly initialised owner among \<open>n\<close> threads: its entry is the one \<open>init_thread\<close> makes.
\<close>

definition queue_start :: "('q, 'v) env \<Rightarrow> nat \<Rightarrow> UniqueThreadId \<Rightarrow> ShortThreadId \<Rightarrow> 'q station" where
  "queue_start E n uid sid =
     \<lparr>info = \<lparr>info_id = uid, info_short_id = sid, state_flag = Live, queue_strong = 1,
             queue_short_id = sid, queue_inner = queue_new E\<rparr>,
      stacks = replicate n [], local_dead = False, requested = {#}, merged_obs = {#}, unwound = False\<rparr>"

inductive queue_reachable :: "('q, 'v) env \<Rightarrow> nat \<Rightarrow> 'q station \<Rightarrow> bool" for E :: "('q, 'v) env" and own :: nat where
  queue_reachable_start: "own < n \<Longrightarrow> queue_reachable E own (queue_start E n uid sid)"
| queue_reachable_step:
    "queue_reachable E own s \<Longrightarrow> queue_act E own a s = Some (Inr s') \<Longrightarrow> queue_reachable E own s'"

text \<open>Runs of a given schedule.\<close>

fun queue_run :: "('q, 'v) env \<Rightarrow> nat \<Rightarrow> queue_action list \<Rightarrow> 'q station \<Rightarrow> 'q station checked option" where
  "queue_run E own [] s = Some (Inr s)"
| "queue_run E own (a # as) s =
     (case queue_act E own a s of
        None \<Rightarrow> None
      | Some (Inl e) \<Rightarrow> Some (Inl e)
      | Some (Inr s') \<Rightarrow> queue_run E own as s')"

lemma queue_run_reachable:
  "queue_reachable E own s \<Longrightarrow> queue_run E own as s = Some (Inr s') \<Longrightarrow> queue_reachable E own s'"
  by (induction as arbitrary: s) (auto intro: queue_reachable_step split: option.splits sum.splits)

end
