(* ===== verification/Collector_Facts.thy ===== *)
theory Collector_Facts
  imports Collector
begin

text \<open>
  What collecting does, for a first-in first-out queue and destructors that leave the library's
  state alone: the queue ends empty, every queued object is merged, and those that nobody refers to
  are destroyed. From it follow the effects of \<open>collect\<close>, of the end of a thread, and of queueing an
  object for a thread that is gone.
\<close>

section \<open>The queue\<close>

text \<open>
  The documented behaviour of \<open>SegQueue\<close>, with \<open>items\<close> the content of a queue in order.
\<close>

definition fifo :: "('q, 'v) env \<Rightarrow> ('q \<Rightarrow> QueuedObject list) \<Rightarrow> bool" where
  "fifo E items \<longleftrightarrow> items (queue_new E) = []
     \<and> (\<forall>x q. items (queue_push E x q) = items q @ [x])
     \<and> (\<forall>q. queue_pop E q = None \<longleftrightarrow> items q = [])
     \<and> (\<forall>q x q'. queue_pop E q = Some (x, q') \<longrightarrow> items q = x # items q')
     \<and> (\<forall>q. queue_is_empty E q \<longleftrightarrow> items q = [])"

lemma fifo_pop_Cons:
  "fifo E items \<Longrightarrow> items q = x # xs \<Longrightarrow> \<exists>q'. queue_pop E q = Some (x, q') \<and> items q' = xs"
  by (cases "queue_pop E q") (auto simp: fifo_def)

lemma fifo_pop_Nil: "fifo E items \<Longrightarrow> items q = [] \<Longrightarrow> queue_pop E q = None"
  by (simp add: fifo_def)

section \<open>Merging one object\<close>

definition merged_header :: "RawBrcHeader \<Rightarrow> RawBrcHeader" where
  "merged_header h =
     \<lparr>shared_word = SharedWord_to_raw ((shared_of h)\<lparr>shared_count := word_of_int (logical_count h), merged := True\<rparr>),
      biased_word = BiasedWord_to_raw BiasedWord_UNOWNED\<rparr>"

definition mergeable_header :: "ShortThreadId \<Rightarrow> RawBrcHeader \<Rightarrow> bool" where
  "mergeable_header sid h \<longleftrightarrow> header_ok h \<and> owner_id (biased_of h) = Some sid \<and> shared_value h < 2 ^ 60"

lemma word_of_int_sint_62: "word_of_int (sint c) = (c :: 62 word)"
  by simp

lemma explicit_merge_header_exact:
  assumes "mergeable_header sid h"
  shows "explicit_merge_header sid [] h = Inr (logical_count h = 0, merged_header h)"
proof -
  have ok: "header_ok h" "owner_id (biased_of h) = Some sid" "shared_value h < 2 ^ 60"
    using assms by (simp_all add: mergeable_header_def)
  then have um: "\<not> merged (shared_of h)" by (auto simp: header_ok_def)
  then have nonneg: "0 \<le> logical_count h" "logical_count h = biased_value h + shared_value h"
    using ok(1) by (auto simp: header_ok_def logical_count_def)
  obtain raw where raw: "explicit_merge_next (biased_word h) (shared_word h) = Inr raw"
    using explicit_merge_next_Inl [of "biased_word h" "shared_word h"] um ok(3)
    by (cases "explicit_merge_next (biased_word h) (shared_word h)") auto
  obtain c where c: "SharedWord_from_raw raw = (shared_of h)\<lparr>shared_count := c, merged := True\<rparr>"
    "SharedCount_value c = logical_count h"
    using explicit_merge_next_Inr [OF raw] nonneg(2) by auto
  have "c = word_of_int (logical_count h)"
    using c(2) by (metis SharedCount_value_def word_of_int_sint_62)
  then have "raw = shared_word (merged_header h)"
    using c(1) by (simp add: merged_header_def) (metis SharedWord_to_from)
  moreover have "biased_word (merged_header h) = BiasedWord_to_raw BiasedWord_UNOWNED"
    by (simp add: merged_header_def)
  ultimately show ?thesis
    using raw c nonneg ok(2)
    by (cases "merged_header h") (simp add: explicit_merge_header_def explicit_merge_result_def Let_def)
qed

lemma merged_header_ok:
  assumes "mergeable_header sid h"
  shows "header_ok (merged_header h)" "merged (shared_of (merged_header h))"
    "logical_count (merged_header h) = logical_count h"
  using explicit_merge_header_ok [of h sid, OF _ _ explicit_merge_header_exact [OF assms]] assms
  by (simp_all add: mergeable_header_def)

text \<open>What is left of an object after its merge: nothing, a shell kept by weak references, or the object.\<close>

definition after_merge :: "'v object \<Rightarrow> 'v object option" where
  "after_merge ob =
     (if logical_count (strong ob) = 0
      then (if weak_count ob = 1 then None
            else Some (ob\<lparr>strong := merged_header (strong ob), contents := None,
                          weak_count := weak_count ob - 1\<rparr>))
      else Some (ob\<lparr>strong := merged_header (strong ob)\<rparr>))"

definition mergeable :: "('q, 'v) env \<Rightarrow> ShortThreadId \<Rightarrow> ('q, 'v) world \<Rightarrow> QueuedObject \<Rightarrow> bool" where
  "mergeable E sid w q \<longleftrightarrow>
     (\<exists>ob m offset. heap w (header_ptr q) = Some ob \<and> drop_info q = erase m offset
        \<and> typed E m offset ob \<and> contents ob \<noteq> None \<and> mergeable_header sid (strong ob))"

lemma explicit_merge_calm:
  assumes "calm E" "mergeable E sid w q"
  shows "explicit_merge E sid q w =
     Return () (w\<lparr>heap := (heap w)(header_ptr q := Option.bind (heap w (header_ptr q)) after_merge)\<rparr>)"
proof -
  obtain ob m offset v where ob: "heap w (header_ptr q) = Some ob" "drop_info q = erase m offset"
    "typed E m offset ob" "contents ob = Some v" "mergeable_header sid (strong ob)"
    using assms(2) by (auto simp: mergeable_def)
  let ?ob = "ob\<lparr>strong := merged_header (strong ob)\<rparr>"
  let ?w = "store (header_ptr q) ?ob w"
  have m: "on_header (header_ptr q) (explicit_merge_header sid []) w
      = Return (logical_count (strong ob) = 0) ?w"
    using on_header_ok [of w "header_ptr q" ob "explicit_merge_header sid []"] ob(1)
      explicit_merge_header_exact [OF ob(5)] by simp
  have d: "drop_context_dealloc E m offset (header_ptr q) ?w =
      Return () (if weak_count ob = 1 then ?w\<lparr>heap := (heap ?w)(header_ptr q := None)\<rparr>
               else store (header_ptr q) (?ob\<lparr>contents := None, weak_count := weak_count ob - 1\<rparr>) ?w)"
    using erased_dealloc_calm [OF assms(1), of ?w "header_ptr q" ?ob v m offset] ob by simp
  show ?thesis
    using m d ob(1,2) by (simp add: explicit_merge_def erased_and_typed_dealloc after_merge_def store_def)
qed

section \<open>Processing a queue\<close>

lemma entry_set_entry [simp]: "entry (set_entry i info w) i = Some info"
  by (simp add: entry_def set_entry_def)

lemma set_entry_fields [simp]:
  "heap (set_entry i info w) = heap w" "fast (set_entry i info w) = fast w" "tls (set_entry i info w) = tls w"
  "ids_exhausted (set_entry i info w) = ids_exhausted w"
  "threads (set_entry i info w) = (threads w)(i \<mapsto> Inr info)"
  by (simp_all add: set_entry_def)

lemma set_entry_twice [simp]: "set_entry i info (set_entry i info' w) = set_entry i info w"
  by (simp add: set_entry_def)

lemma set_entry_heap: "set_entry i info w\<lparr>heap := H\<rparr> = set_entry i info (w\<lparr>heap := H\<rparr>)"
  by (simp add: set_entry_def)

lemma entry_heap [simp]: "entry (w\<lparr>heap := H\<rparr>) i = entry w i"
  by (simp add: entry_def)

lemma mergeable_frame:
  "heap w' (header_ptr q) = heap w (header_ptr q) \<Longrightarrow> mergeable E sid w' q = mergeable E sid w q"
  by (simp add: mergeable_def)

definition merge_all :: "QueuedObject list \<Rightarrow> (addr \<Rightarrow> 'v object option) \<Rightarrow> addr \<Rightarrow> 'v object option" where
  "merge_all qs H = (\<lambda>a. if a \<in> header_ptr ` set qs then Option.bind (H a) after_merge else H a)"

lemma process_loop_fifo:
  assumes "calm E" "fifo E items"
  shows "entry w i = Some info \<Longrightarrow> items (queue_inner info) = qs \<Longrightarrow> distinct (map header_ptr qs) \<Longrightarrow>
    (\<forall>q \<in> set qs. mergeable E (queue_short_id info) w q) \<Longrightarrow>
    \<exists>rest. items rest = [] \<and> process_loop E i w
      = Some (Return () (if qs = [] then w
                         else set_entry i (info\<lparr>queue_inner := rest\<rparr>) (w\<lparr>heap := merge_all qs (heap w)\<rparr>)))"
proof (induction qs arbitrary: w info)
  case Nil
  then have "queue_pop E (queue_inner info) = None" using fifo_pop_Nil [OF assms(2)] by simp
  then have "process_loop E i w = Some (Return () w)"
    using Nil by (simp add: process_loop.simps [of E i w])
  then show ?case using assms(2) by (auto simp: fifo_def)
next
  case (Cons q qs)
  obtain rest where pop: "queue_pop E (queue_inner info) = Some (q, rest)" "items rest = qs"
    using fifo_pop_Cons [OF assms(2) Cons.prems(2)] by blast
  let ?info = "info\<lparr>queue_inner := rest\<rparr>"
  let ?w1 = "set_entry i ?info w"
  let ?H = "(heap w)(header_ptr q := Option.bind (heap w (header_ptr q)) after_merge)"
  let ?w2 = "?w1\<lparr>heap := ?H\<rparr>"
  have "mergeable E (queue_short_id info) ?w1 q"
    using Cons.prems(4) mergeable_frame [of ?w1 q w E "queue_short_id info"] by simp
  then have m: "explicit_merge E (queue_short_id info) q ?w1 = Return () ?w2"
    using explicit_merge_calm [OF assms(1)] by simp
  have step: "process_loop E i w = process_loop E i ?w2"
    by (subst process_loop.simps) (simp add: Cons.prems(1) pop(1) m)
  have notin: "header_ptr q \<notin> header_ptr ` set qs" using Cons.prems(3) by auto
  have "\<forall>q' \<in> set qs. mergeable E (queue_short_id ?info) ?w2 q'"
  proof
    fix q' assume q': "q' \<in> set qs"
    then have "header_ptr q' \<noteq> header_ptr q" using notin by (metis image_eqI)
    then have "mergeable E (queue_short_id ?info) ?w2 q' = mergeable E (queue_short_id ?info) w q'"
      by (intro mergeable_frame) simp
    then show "mergeable E (queue_short_id ?info) ?w2 q'" using Cons.prems(4) q' by simp
  qed
  then obtain rest' where IH: "items rest' = []" "process_loop E i ?w2
      = Some (Return () (if qs = [] then ?w2
                         else set_entry i (?info\<lparr>queue_inner := rest'\<rparr>) (?w2\<lparr>heap := merge_all qs (heap ?w2)\<rparr>)))"
    using Cons.IH [of ?w2 ?info] pop(2) Cons.prems(3) by auto
  have H: "merge_all qs ?H = merge_all (q # qs) (heap w)"
    using notin by (auto simp: merge_all_def fun_eq_iff)
  show ?case
  proof (cases "qs = []")
    case True
    then have "?w2 = set_entry i ?info (w\<lparr>heap := merge_all (q # qs) (heap w)\<rparr>)"
      by (auto simp: set_entry_def merge_all_def fun_eq_iff)
    then show ?thesis using IH(2) step True pop(2) by auto
  next
    case False
    then have "set_entry i (?info\<lparr>queue_inner := rest'\<rparr>) (?w2\<lparr>heap := merge_all qs (heap ?w2)\<rparr>)
        = set_entry i (info\<lparr>queue_inner := rest'\<rparr>) (w\<lparr>heap := merge_all (q # qs) (heap w)\<rparr>)"
      using H by (simp add: set_entry_def)
    then show ?thesis using IH step False by auto
  qed
qed

lemma entry_threads: "entry w i = Some info \<longleftrightarrow> threads w i = Some (Inr info)"
  by (auto simp: entry_def split: option.splits sum.splits)

lemma set_entry_same: "entry w i = Some info \<Longrightarrow> set_entry i info w = w"
  by (cases w) (simp add: set_entry_def entry_threads fun_upd_idem)

lemma merge_all_Nil [simp]: "merge_all [] H = H"
  by (simp add: merge_all_def fun_eq_iff)

text \<open>Everything the processing of one thread's queue needs.\<close>

definition queue_ready ::
  "('q, 'v) env \<Rightarrow> ('q \<Rightarrow> QueuedObject list) \<Rightarrow> nat \<Rightarrow> ('q, 'v) world \<Rightarrow> bool" where
  "queue_ready E items i w \<longleftrightarrow>
     (case entry w i of
        None \<Rightarrow> False
      | Some info \<Rightarrow> distinct (map header_ptr (items (queue_inner info)))
          \<and> (\<forall>q \<in> set (items (queue_inner info)). mergeable E (queue_short_id info) w q))"

lemma do_process_fifo:
  assumes "calm E" "fifo E items" "entry w i = Some info" "queue_ready E items i w"
  shows "\<exists>rest. items rest = [] \<and> do_process E i w
    = Return () (set_entry i (info\<lparr>queue_inner := rest\<rparr>)
        (w\<lparr>heap := merge_all (items (queue_inner info)) (heap w)\<rparr>))"
proof -
  have r: "distinct (map header_ptr (items (queue_inner info)))"
    "\<forall>q \<in> set (items (queue_inner info)). mergeable E (queue_short_id info) w q"
    using assms(3,4) by (simp_all add: queue_ready_def)
  obtain rest where rest: "items rest = []" "process_loop E i w
      = Some (Return () (if items (queue_inner info) = [] then w
           else set_entry i (info\<lparr>queue_inner := rest\<rparr>) (w\<lparr>heap := merge_all (items (queue_inner info)) (heap w)\<rparr>)))"
    using process_loop_fifo [OF assms(1-3) refl r] by blast
  show ?thesis
  proof (cases "items (queue_inner info) = []")
    case True
    have "set_entry i (info\<lparr>queue_inner := queue_inner info\<rparr>)
        (w\<lparr>heap := merge_all (items (queue_inner info)) (heap w)\<rparr>) = w"
      using True assms(3) by (simp add: set_entry_same)
    then show ?thesis using rest True by (auto simp: do_process_def finite_run_def intro!: exI [of _ "queue_inner info"])
  next
    case False
    then show ?thesis using rest by (auto simp: do_process_def finite_run_def)
  qed
qed

lemma queue_ready_update:
  assumes "queue_inner info' = queue_inner info" "queue_short_id info' = queue_short_id info"
    "entry w i = Some info" "queue_ready E items i w"
  shows "queue_ready E items i (set_entry i info' w)"
  using assms by (simp add: queue_ready_def mergeable_def)

section \<open>Collecting\<close>

lemma collect_loop_fifo:
  assumes "calm E" "fifo E items" "entry w i = Some info" "queue_ready E items i w"
  shows "\<exists>rest. items rest = [] \<and> collect_loop E i w
    = Some (Return () (set_entry i (info\<lparr>queue_inner := rest,
          state_flag := (if state_flag info = QueuedObjects then Live else state_flag info)\<rparr>)
        (w\<lparr>heap := merge_all (items (queue_inner info)) (heap w)\<rparr>)))"
proof -
  obtain rest where rest: "items rest = []" "do_process E i w
    = Return () (set_entry i (info\<lparr>queue_inner := rest\<rparr>) (w\<lparr>heap := merge_all (items (queue_inner info)) (heap w)\<rparr>))"
    using do_process_fifo [OF assms] by blast
  have "queue_is_empty E rest" using rest(1) assms(2) by (simp add: fifo_def)
  then have "collect_loop E i w
    = Some (Return () (set_entry i (info\<lparr>queue_inner := rest,
          state_flag := (if state_flag info = QueuedObjects then Live else state_flag info)\<rparr>)
        (w\<lparr>heap := merge_all (items (queue_inner info)) (heap w)\<rparr>)))"
    by (subst collect_loop.simps) (simp add: rest(2) swap_flag_def with_entry_def)
  then show ?thesis using rest(1) by blast
qed

lemma local_collect_fifo:
  assumes "calm E" "fifo E items" "entry w (shared_info st) = Some info"
    "queue_ready E items (shared_info st) w" "is_live (state_flag info)" "0 < queue_strong info"
  shows "\<exists>rest. items rest = [] \<and> local_collect_force E st w
    = Return () (set_entry (shared_info st) (info\<lparr>queue_inner := rest, state_flag := Live\<rparr>)
        (w\<lparr>heap := merge_all (items (queue_inner info)) (heap w)\<rparr>))"
proof -
  let ?i = "shared_info st"
  let ?info = "info\<lparr>queue_strong := queue_strong info + 1\<rparr>"
  let ?w = "set_entry ?i ?info w"
  have r: "queue_ready E items ?i ?w" by (rule queue_ready_update [OF _ _ assms(3,4)]) simp_all
  have flag: "(if state_flag ?info = QueuedObjects then Live else state_flag ?info) = Live"
    using assms(5) by (cases "state_flag info") auto
  obtain rest where rest: "items rest = []" "collect_loop E ?i ?w
    = Some (Return () (set_entry ?i (?info\<lparr>queue_inner := rest, state_flag := Live\<rparr>)
        (?w\<lparr>heap := merge_all (items (queue_inner info)) (heap ?w)\<rparr>)))"
    using collect_loop_fifo [OF assms(1,2) _ r, of ?info] unfolding flag by auto
  have "local_collect_force E st w
    = Return () (set_entry ?i (info\<lparr>queue_inner := rest, state_flag := Live\<rparr>)
        (w\<lparr>heap := merge_all (items (queue_inner info)) (heap w)\<rparr>))"
    using assms(3,5,6) rest(2)
    by (simp add: local_collect_force_def with_entry_def upgrade_queue_def finite_run_def drop_queue_arc_def
        set_entry_heap [symmetric] Let_def)
  then show ?thesis using rest(1) by blast
qed

lemma alive_facts:
  assumes "runtime_ok w" "tls w t = Tls_alive (Inr st)"
  shows "fast w t = \<lparr>status = Active, fast_short_id = Some (local_short_id st), shared_state_flag = Some (shared_info st)\<rparr>"
    "\<exists>info. entry w (shared_info st) = Some info \<and> info_short_id info = local_short_id st
      \<and> is_live (state_flag info) \<and> 0 < queue_strong info"
  using thread_ok_alive [OF runtime_okD(1) [OF assms(1)] assms(2)] by (auto simp: alive_entry_def entry_threads)

lemma with_current_alive:
  "tls w t = Tls_alive (Inr st) \<Longrightarrow>
     with_current_state E t f w = bind_outcome (f st w) (\<lambda>x w. Return (Inr x) w)"
  by (simp add: with_current_state_def with_current_def)

lemma collect_with_fifo:
  assumes "calm E" "fifo E items" "runtime_ok w" "tls w t = Tls_alive (Inr st)" "\<not> thread_panicking E t"
    "entry w (shared_info st) = Some info" "state_flag info = QueuedObjects"
    "queue_ready E items (shared_info st) w"
  shows "\<exists>rest. items rest = [] \<and> collect_with E pol t w
    = Return () (set_entry (shared_info st) (info\<lparr>queue_inner := rest, state_flag := Live\<rparr>)
        (w\<lparr>heap := merge_all (items (queue_inner info)) (heap w)\<rparr>))"
proof -
  note A = alive_facts [OF assms(3,4)]
  have pos: "0 < queue_strong info" using A(2) assms(6) by auto
  have need: "currently_needs_collect t w"
    using A(1) assms(6,7) by (simp add: currently_needs_collect_def flag_at_def entry_threads)
  obtain rest where rest: "items rest = []" "local_collect_force E st w
    = Return () (set_entry (shared_info st) (info\<lparr>queue_inner := rest, state_flag := Live\<rparr>)
        (w\<lparr>heap := merge_all (items (queue_inner info)) (heap w)\<rparr>))"
    using local_collect_fifo [OF assms(1,2,6,8) _ pos] assms(7) by auto
  have "collect_with E pol t w
    = Return () (set_entry (shared_info st) (info\<lparr>queue_inner := rest, state_flag := Live\<rparr>)
        (w\<lparr>heap := merge_all (items (queue_inner info)) (heap w)\<rparr>))"
    using need assms(5-7) rest(2)
    by (cases pol) (simp_all add: collect_with_def collect_slow_def with_current_alive [OF assms(4)] with_entry_def)
  then show ?thesis using rest(1) by blast
qed

text \<open>
  C21. \<open>collect\<close> on a thread that is alive, not panicking and flagged \<open>QueuedObjects\<close> processes the whole
  queue and marks the thread live again: every queued object is merged, the ones without references
  are destroyed and freed (or left to their weak references), everything else stays as it is. The queued
  objects are different, well formed and waiting for this thread (\<open>queue_ready\<close>), and the
  destructors of their values return and leave the library alone (\<open>calm\<close>). Destructors that drop pointers
  or panic are the subject of \<open>Client_Theorems\<close>, and the lost wake-up after a panic that of
  \<open>panic_loses_wakeup\<close>.
\<close>

theorem collect_empties_queue:
  assumes "calm E" "fifo E items" "runtime_ok w" "tls w t = Tls_alive (Inr st)" "\<not> thread_panicking E t"
    "entry w (shared_info st) = Some info" "state_flag info = QueuedObjects"
    "queue_ready E items (shared_info st) w"
  shows "\<exists>rest. items rest = [] \<and> collect_with E pol t w
    = Return () (set_entry (shared_info st) (info\<lparr>queue_inner := rest, state_flag := Live\<rparr>)
        (w\<lparr>heap := merge_all (items (queue_inner info)) (heap w)\<rparr>))"
  by (rule collect_with_fifo [OF assms])

text \<open>
  \<open>collect\<close> does nothing on a thread that has no queued objects, or while the thread panics.
\<close>

theorem collect_nothing_to_do:
  assumes "runtime_ok w" "tls w t = Tls_alive (Inr st)" "entry w (shared_info st) = Some info"
    "state_flag info = Live \<or> thread_panicking E t"
  shows "collect_with E pol t w = Return () w"
  using assms alive_facts(1) [OF assms(1,2)]
  by (cases pol) (auto simp: collect_with_def collect_slow_def currently_needs_collect_def flag_at_def
      entry_threads with_current_alive [OF assms(2)])

section \<open>The end of a thread\<close>

lemma thread_exit_fifo:
  assumes "calm E" "fifo E items" "runtime_ok w" "tls w t = Tls_alive (Inr st)"
    "entry w (shared_info st) = Some info" "queue_strong info = 1" "queue_ready E items (shared_info st) w"
  shows "\<exists>rest. items rest = [] \<and> thread_exit E t w = Return ()
    (set_entry (shared_info st) (info\<lparr>queue_strong := 0, queue_inner := rest, state_flag := Dead\<rparr>)
      (w\<lparr>tls := (tls w)(t := Tls_destroyed),
         fast := (fast w)(t := \<lparr>status = DeadOrDying, fast_short_id = None, shared_state_flag = None\<rparr>),
         heap := merge_all (items (queue_inner info)) (heap w)\<rparr>))"
proof -
  let ?i = "shared_info st"
  note A = alive_facts [OF assms(3,4)]
  have live: "is_live (state_flag info)" using A(2) assms(5) by auto
  define w0 where "w0 = w\<lparr>tls := (tls w)(t := Tls_destroyed),
    fast := (fast w)(t := \<lparr>status = DeadOrDying, fast_short_id = None, shared_state_flag = None\<rparr>)\<rparr>"
  let ?info = "info\<lparr>state_flag := Dying, queue_strong := 0\<rparr>"
  have e0: "entry w0 ?i = Some info" using assms(5) by (simp add: w0_def entry_def)
  have "queue_ready E items ?i w0"
    using assms(5,7) e0 by (simp add: queue_ready_def mergeable_def w0_def)
  then have "queue_ready E items ?i (set_entry ?i ?info w0)"
    using queue_ready_update [OF _ _ e0, of ?info] by simp
  then obtain rest where rest: "items rest = []" "do_process E ?i (set_entry ?i ?info w0)
    = Return () (set_entry ?i (?info\<lparr>queue_inner := rest\<rparr>)
        (set_entry ?i ?info w0\<lparr>heap := merge_all (items (queue_inner info)) (heap w0)\<rparr>))"
    using do_process_fifo [OF assms(1,2), of "set_entry ?i ?info w0" ?i ?info] by auto
  have "thread_exit E t w = abort_unwind (drop_local_state E t st (w\<lparr>tls := (tls w)(t := Tls_destroyed)\<rparr>))"
    using assms(4) by (simp add: thread_exit_def Let_def)
  also have "\<dots> = Return () (set_entry ?i (info\<lparr>queue_strong := 0, queue_inner := rest, state_flag := Dead\<rparr>)
      (w0\<lparr>heap := merge_all (items (queue_inner info)) (heap w)\<rparr>))"
    using A(1) e0 live assms(6) rest(2)
    by (simp add: drop_local_state_def with_entry_def drop_queue_arc_def w0_def Let_def set_entry_heap [symmetric])
  finally show ?thesis using rest(1) by (auto simp: w0_def)
qed

text \<open>
  C22. When a thread ends while no \<open>queue_object\<close> holds its queue (\<open>queue_strong\<close> is 1), its queue is
  processed as by a collection, it is marked dead, and it has no short id any more; the queued objects are
  ready to be merged (\<open>queue_ready\<close>), and the destructors of their values return and leave the
  library alone (\<open>calm\<close>). An end that overlaps with \<open>queue_object\<close> is the subject of
  \<open>no_object_lost\<close>, where the last holder of the queue processes it.
\<close>

theorem exit_processes_queue:
  assumes "calm E" "fifo E items" "runtime_ok w" "tls w t = Tls_alive (Inr st)"
    "entry w (shared_info st) = Some info" "queue_strong info = 1" "queue_ready E items (shared_info st) w"
  shows "\<exists>rest w'. items rest = [] \<and> thread_exit E t w = Return () w'
    \<and> heap w' = merge_all (items (queue_inner info)) (heap w)
    \<and> entry w' (shared_info st) = Some (info\<lparr>queue_strong := 0, queue_inner := rest, state_flag := Dead\<rparr>)
    \<and> existing_short_id t w' = Inr (Inl AccessDead) \<and> tls w' t = Tls_destroyed"
  using thread_exit_fifo [OF assms] by (auto simp: existing_short_id_def)

section \<open>Handing an object to its owner\<close>

lemma queue_object_live:
  assumes "entry w i = Some info" "0 < queue_strong info"
  shows "queue_object E i q w = Return () (set_entry i
     (info\<lparr>queue_inner := queue_push E q (queue_inner info),
           state_flag := (if state_flag info = Live then QueuedObjects else state_flag info)\<rparr>) w)"
  using assms
  by (simp add: queue_object_def upgrade_queue_def with_entry_def swap_flag_def drop_queue_arc_def Let_def)

text \<open>
  An object queued for a thread that still has its queue is appended to the queue, and a live
  thread is told that it has something to collect; nothing is merged and nothing else changes.
\<close>

theorem queued_for_live_owner:
  assumes "fifo E items" "entry w i = Some info" "0 < queue_strong info"
  shows "\<exists>info'. queue_object E i q w = Return () (set_entry i info' w)
    \<and> items (queue_inner info') = items (queue_inner info) @ [q]
    \<and> queue_strong info' = queue_strong info
    \<and> state_flag info' \<noteq> Live \<and> (state_flag info \<noteq> Live \<longrightarrow> state_flag info' = state_flag info)"
  unfolding queue_object_live [OF assms(2,3)] using assms(1) by (auto simp: fifo_def)

text \<open>
  An object queued for a thread that is dead is merged at once by the thread that queues it.
\<close>

theorem queued_for_dead_owner:
  assumes "calm E" "entry w i = Some info" "queue_strong info = 0" "is_dead_or_dying (state_flag info)"
    "mergeable E (info_short_id info) w q"
  shows "queue_object E i q w
    = Return () (w\<lparr>heap := (heap w)(header_ptr q := Option.bind (heap w (header_ptr q)) after_merge)\<rparr>)"
  using assms explicit_merge_calm [OF assms(1,5)]
  by (simp add: queue_object_def upgrade_queue_def with_entry_def)

section \<open>A concrete environment\<close>

text \<open>
  A list as queue, a destructor that does nothing, values of eight bytes, and one thread that owns a
  queued object whose last reference another thread has dropped.
\<close>

definition list_env :: "(QueuedObject list, nat) env" where
  "list_env =
     \<lparr>debug_assertions = True, panic_unwind = True, implicit_collect_disable = False,
      no_implicit_collect = False, no_implicit_collect_clone = False, no_implicit_collect_drop = False,
      queue_new = [], queue_push = (\<lambda>x q. q @ [x]),
      queue_pop = (\<lambda>q. case q of [] \<Rightarrow> None | x # xs \<Rightarrow> Some (x, xs)), queue_is_empty = (\<lambda>q. q = []),
      next_index = (\<lambda>_. 0), thread_panicking = (\<lambda>_. False), needs_drop = True,
      drop_in_place = (\<lambda>v w. Return () w), layout_for = (\<lambda>_. \<lparr>size_of = 8, align_of = 8\<rparr>),
      allocator_layout = Global_layout, allocate = (\<lambda>_ _. Some 64)\<rparr>"

definition demo_sid :: ShortThreadId where
  "demo_sid = ShortThreadId 1"

definition demo_info :: "QueuedObject list \<Rightarrow> QueuedObject list SharedThreadInfo" where
  "demo_info q =
     \<lparr>info_id = UniqueThreadId 1, info_short_id = demo_sid,
      state_flag = (if q = [] then Live else QueuedObjects), queue_strong = 1,
      queue_short_id = demo_sid, queue_inner = q\<rparr>"

definition demo_state :: LocalThreadState where
  "demo_state = \<lparr>shared_info = 0, local_short_id = demo_sid\<rparr>"

definition demo_world :: "QueuedObject list \<Rightarrow> (addr \<Rightarrow> nat object option) \<Rightarrow> (QueuedObject list, nat) world" where
  "demo_world q H =
     \<lparr>threads = [0 \<mapsto> Inr (demo_info q)], ids_exhausted = False,
      fast = (\<lambda>_. fast_init)(0 := \<lparr>status = Active, fast_short_id = Some demo_sid, shared_state_flag = Some 0\<rparr>),
      tls = (\<lambda>_. Tls_uninit)(0 := Tls_alive (Inr demo_state)), heap = H\<rparr>"

definition demo_header :: RawBrcHeader where
  "demo_header =
     \<lparr>shared_word = SharedWord_to_raw \<lparr>shared_count = - 1, merged = False, queued = True\<rparr>,
      biased_word = BiasedWord_to_raw \<lparr>owner_id = Some demo_sid, biased_count = 1\<rparr>\<rparr>"

definition demo_object :: "RawBrcHeader \<Rightarrow> nat object" where
  "demo_object h = \<lparr>strong = h, weak_count = 1, contents = Some 5, block = \<lparr>size_of = 32, align_of = 8\<rparr>\<rparr>"

definition demo_queued :: QueuedObject where
  "demo_queued = \<lparr>header_ptr = 64, drop_info = erase Thin 24\<rparr>"

lemma demo_sid_ok [simp]: "short_id_ok demo_sid" "short_id_nat demo_sid = 1"
  by (simp_all add: demo_sid_def)

lemma demo_layout:
  "LayoutInfo_new Global_layout \<lparr>size_of = 8, align_of = 8\<rparr>
     = Some \<lparr>value_offset = 24, full_layout = \<lparr>size_of = 32, align_of = 8\<rparr>\<rparr>"
  by (simp add: layout_evaluate)

lemma calm_list_env [simp]: "calm list_env"
  by (simp add: calm_def list_env_def)

lemma fifo_list_env [simp]: "fifo list_env (\<lambda>q. q)"
  by (auto simp: fifo_def list_env_def split: list.splits)

lemma typed_demo [simp]: "typed list_env m 24 (demo_object h)"
  by (simp add: typed_def list_env_def demo_layout demo_object_def)

lemma runtime_ok_demo [simp]: "runtime_ok (demo_world q H)"
  by (auto simp: runtime_ok_def thread_ok_def table_ok_def entries_distinct_def alive_entry_def
      demo_world_def demo_info_def demo_state_def split: if_splits)

lemma entry_demo [simp]: "entry (demo_world q H) 0 = Some (demo_info q)"
  by (simp add: entry_def demo_world_def)

lemma biased_word_packed:
  "short_id_ok s \<Longrightarrow> BiasedWord_from_raw (BiasedWord_to_raw \<lparr>owner_id = Some s, biased_count = c\<rparr>)
     = \<lparr>owner_id = Some s, biased_count = c\<rparr>"
  by (simp add: BiasedWord_from_to biased_word_ok_def)

lemma demo_header_facts [simp]:
  "shared_of demo_header = \<lparr>shared_count = - 1, merged = False, queued = True\<rparr>"
  "biased_of demo_header = \<lparr>owner_id = Some demo_sid, biased_count = 1\<rparr>"
  "logical_count demo_header = 0" "mergeable_header demo_sid demo_header"
  by (simp_all add: demo_header_def biased_word_packed logical_count_def mergeable_header_def header_ok_def
      SharedCount_value_def)

lemma mergeable_demo [simp]: "mergeable list_env demo_sid (demo_world q [64 \<mapsto> demo_object demo_header]) demo_queued"
  unfolding mergeable_def
  by (intro exI [of _ "demo_object demo_header"] exI [of _ Thin] exI [of _ 24])
    (simp add: demo_world_def demo_queued_def, simp add: demo_object_def)

lemma queue_ready_demo [simp]:
  "queue_ready list_env (\<lambda>q. q) 0 (demo_world [demo_queued] [64 \<mapsto> demo_object demo_header])"
  by (simp add: queue_ready_def) (simp add: demo_info_def)

lemma merge_all_demo: "merge_all [demo_queued] [64 \<mapsto> demo_object demo_header] = (\<lambda>_. None)"
  by (auto simp: merge_all_def demo_queued_def after_merge_def demo_object_def fun_eq_iff)

lemma demo_facts [simp]:
  "tls (demo_world q H) 0 = Tls_alive (Inr demo_state)" "shared_info demo_state = 0"
  "\<not> thread_panicking list_env t" "heap (demo_world q H) = H"
  "state_flag (demo_info q) = (if q = [] then Live else QueuedObjects)" "queue_inner (demo_info q) = q"
  "queue_strong (demo_info q) = 1" "queue_short_id (demo_info q) = demo_sid" "info_short_id (demo_info q) = demo_sid"
  by (simp_all add: demo_world_def demo_state_def list_env_def demo_info_def)

theorem collect_empties_queue_witness:
  "\<exists>w'. collect_with list_env MayPanic 0 (demo_world [demo_queued] [64 \<mapsto> demo_object demo_header]) = Return () w'
     \<and> heap w' = (\<lambda>_. None)"
  using collect_empties_queue [OF calm_list_env fifo_list_env runtime_ok_demo demo_facts(1,3),
      of "[demo_queued]" "[64 \<mapsto> demo_object demo_header]" "demo_info [demo_queued]" MayPanic]
  by (auto simp: merge_all_demo)

theorem collect_nothing_to_do_witness:
  "collect_with list_env MayPanic 0 (demo_world [] Map.empty) = Return () (demo_world [] Map.empty)"
  by (rule collect_nothing_to_do [OF runtime_ok_demo demo_facts(1), where info = "demo_info []"]) simp_all

theorem exit_processes_queue_witness:
  "\<exists>w'. thread_exit list_env 0 (demo_world [demo_queued] [64 \<mapsto> demo_object demo_header]) = Return () w'
     \<and> heap w' = (\<lambda>_. None) \<and> existing_short_id 0 w' = Inr (Inl AccessDead)"
  using exit_processes_queue [OF calm_list_env fifo_list_env runtime_ok_demo demo_facts(1),
      of "[demo_queued]" "[64 \<mapsto> demo_object demo_header]" "demo_info [demo_queued]"]
  by (auto simp: merge_all_demo)

theorem queued_for_live_owner_witness:
  "\<exists>info'. queue_object list_env 0 demo_queued (demo_world [] Map.empty)
       = Return () (set_entry 0 info' (demo_world [] Map.empty))
     \<and> queue_inner info' = [demo_queued]"
  using queued_for_live_owner [OF fifo_list_env entry_demo, of "[]" demo_queued Map.empty] by auto

text \<open>The same world after its thread has ended.\<close>

definition dead_info :: "QueuedObject list SharedThreadInfo" where
  "dead_info = (demo_info [])\<lparr>state_flag := Dead, queue_strong := 0\<rparr>"

definition dead_world :: "(QueuedObject list, nat) world" where
  "dead_world = set_entry 0 dead_info (demo_world [] [64 \<mapsto> demo_object demo_header])"

theorem queued_for_dead_owner_witness:
  "\<exists>w'. queue_object list_env 0 demo_queued dead_world = Return () w' \<and> heap w' 64 = None"
proof -
  have m: "mergeable list_env (info_short_id dead_info) dead_world demo_queued"
    using mergeable_demo [of "[]"] by (simp add: dead_world_def dead_info_def mergeable_def)
  have e: "entry dead_world 0 = Some dead_info" by (simp add: dead_world_def)
  have "queue_strong dead_info = 0" "is_dead_or_dying (state_flag dead_info)"
    by (simp_all add: dead_info_def is_dead_or_dying_def)
  note queued_for_dead_owner [OF calm_list_env e this m]
  then show ?thesis
    by (simp add: dead_world_def demo_queued_def after_merge_def demo_object_def)
qed

end
