(* ===== verification/Queue_Invariant.thy ===== *)
theory Queue_Invariant
  imports Queue_Protocol Collector_Facts
begin

text \<open>
  The invariant of the interleaved queue: the strong count of the queue's \<open>Arc\<close> counts the frames
  that hold one, the state flag tells how far the owner's end has come, a queue that is gone is
  empty or being emptied, no queued object is lost, and a queue that is not empty is announced by
  the flag or about to be looked at. The proof works on the multiset of all frames of all threads:
  a step takes one frame out and puts others in.
\<close>

section \<open>Frames as a multiset\<close>

definition frames :: "'q station \<Rightarrow> frame multiset" where
  "frames s = mset (concat (stacks s))"

definition tally :: "(frame \<Rightarrow> bool) \<Rightarrow> frame multiset \<Rightarrow> nat" where
  "tally P M = size (filter_mset P M)"

lemma tally_simps [simp]:
  "tally P {#} = 0" "tally P (add_mset c M) = (if P c then Suc (tally P M) else tally P M)"
  "tally P (M + N) = tally P M + tally P N"
  by (simp_all add: tally_def)

lemma tally_0: "tally P M = 0 \<longleftrightarrow> (\<forall>c \<in># M. \<not> P c)"
  by (induction M) auto

lemma mset_concat_update:
  "t < length xs \<Longrightarrow> mset (concat (xs[t := ys])) + mset (xs ! t) = mset ys + mset (concat xs)"
  by (induction xs arbitrary: t) (auto split: nat.split simp: nth_Cons)

lemma frames_put_stack:
  "t < length (stacks s) \<Longrightarrow> frames (put_stack t fs s) + mset (stacks s ! t) = mset fs + frames s"
  by (simp add: frames_def put_stack_def mset_concat_update)

lemma frames_call:
  "t < length (stacks s) \<Longrightarrow> frames (put_stack t (c # stacks s ! t) s) = add_mset c (frames s)"
  using frames_put_stack [of t s "c # stacks s ! t"] by simp

lemma frame_in_frames: "running t s \<Longrightarrow> hd (stacks s ! t) \<in># frames s"
  by (auto simp: running_def frames_def in_set_conv_nth [symmetric] intro!: bexI [of _ "stacks s ! t"])

lemma frames_replace_top:
  assumes "running t s" "stacks s' = stacks s" "frames s = add_mset (hd (stacks s ! t)) M"
  shows "frames (put_stack t (fs @ tl (stacks s ! t)) s') = mset fs + M"
proof -
  have t: "t < length (stacks s)" and c: "mset (stacks s ! t) = add_mset (hd (stacks s ! t)) (mset (tl (stacks s ! t)))"
    using assms(1) by (auto simp: running_def) (metis list.exhaust_sel mset.simps(2))
  have "frames (put_stack t (fs @ tl (stacks s ! t)) s') + mset (stacks s ! t)
      = mset fs + mset (tl (stacks s ! t)) + frames s"
    using frames_put_stack [of t s' "fs @ tl (stacks s ! t)"] t assms(2) by (simp add: frames_def)
  then show ?thesis using assms(3) c by (simp add: add.commute add.left_commute)
qed

section \<open>What a frame stands for\<close>

text \<open>A frame that holds a strong reference to the queue.\<close>

fun holds_arc :: "frame \<Rightarrow> bool" where
  "holds_arc (Qo_push _) = True"
| "holds_arc Qo_flag = True"
| "holds_arc Qo_release = True"
| "holds_arc (Co_pop _) = True"
| "holds_arc (Co_merge _ _) = True"
| "holds_arc (Co_flag _) = True"
| "holds_arc (Co_empty _) = True"
| "holds_arc (Co_release _) = True"
| "holds_arc _ = False"

fun exiting :: "frame \<Rightarrow> bool" where
  "exiting Ex_swap = True"
| "exiting Ex_drop = True"
| "exiting Ex_dead = True"
| "exiting _ = False"

text \<open>Between the two, the \<open>LocalThreadState\<close> that is being destroyed still holds its own reference.\<close>

fun before_release :: "frame \<Rightarrow> bool" where
  "before_release Ex_swap = True"
| "before_release Ex_drop = True"
| "before_release _ = False"

fun is_dying :: "frame \<Rightarrow> bool" where
  "is_dying Ex_drop = True"
| "is_dying Ex_dead = True"
| "is_dying _ = False"

text \<open>A frame of \<open>collect_force\<close>, and one that will still look whether the queue is empty.\<close>

fun collecting :: "frame \<Rightarrow> bool" where
  "collecting (Co_state _) = True"
| "collecting (Co_upgrade _) = True"
| "collecting (Co_pop _) = True"
| "collecting (Co_merge _ _) = True"
| "collecting (Co_flag _) = True"
| "collecting (Co_empty _) = True"
| "collecting (Co_release _) = True"
| "collecting _ = False"

text \<open>The frames that only the owner has.\<close>

fun for_owner :: "frame \<Rightarrow> bool" where
  "for_owner (Need_collect _) = True"
| "for_owner (Slow_collect _) = True"
| "for_owner c = (collecting c \<or> exiting c)"

fun will_look :: "frame \<Rightarrow> bool" where
  "will_look Qo_flag = True"
| "will_look (Co_pop _) = True"
| "will_look (Co_merge _ _) = True"
| "will_look (Co_flag _) = True"
| "will_look (Co_empty _) = True"
| "will_look _ = False"

fun draining :: "frame \<Rightarrow> bool" where
  "draining (Drain_pop _) = True"
| "draining (Drain_merge _ _) = True"
| "draining _ = False"

text \<open>Under \<open>MayPanic\<close> the queue's destructor could leave objects behind.\<close>

fun lossy :: "frame \<Rightarrow> bool" where
  "lossy (Drain_pop pol) = (pol = MayPanic)"
| "lossy (Drain_merge pol _) = (pol = MayPanic)"
| "lossy _ = False"

text \<open>A frame that merges, or is about to, because the queue is gone.\<close>

fun orphaned :: "frame \<Rightarrow> bool" where
  "orphaned (Qo_state _) = True"
| "orphaned (Qo_merge _) = True"
| "orphaned (Drain_pop _) = True"
| "orphaned (Drain_merge _ _) = True"
| "orphaned _ = False"

text \<open>The object that an operation in progress is responsible for.\<close>

fun carried :: "frame \<Rightarrow> QueuedObject multiset" where
  "carried (Qo_upgrade ob) = {#ob#}"
| "carried (Qo_push ob) = {#ob#}"
| "carried (Qo_state ob) = {#ob#}"
| "carried (Qo_merge ob) = {#ob#}"
| "carried (Drain_merge _ ob) = {#ob#}"
| "carried (Co_merge _ ob) = {#ob#}"
| "carried _ = {#}"

definition in_flight :: "frame multiset \<Rightarrow> QueuedObject multiset" where
  "in_flight M = \<Sum>\<^sub># (image_mset carried M)"

lemma in_flight_simps [simp]:
  "in_flight {#} = {#}" "in_flight (add_mset c M) = carried c + in_flight M"
  "in_flight (M + N) = in_flight M + in_flight N"
  by (simp_all add: in_flight_def)

section \<open>The invariant\<close>

text \<open>
  One conjunct per concern, each on the fields of the owner's entry and the frames \<open>M\<close>.
\<close>

definition arcs_ok :: "'q station \<Rightarrow> frame multiset \<Rightarrow> bool" where
  "arcs_ok s M \<longleftrightarrow>
     queue_strong (info s) = (if local_dead s then tally before_release M else 1) + tally holds_arc M"

definition exit_ok :: "'q station \<Rightarrow> frame multiset \<Rightarrow> bool" where
  "exit_ok s M \<longleftrightarrow>
     (if local_dead s then tally exiting M \<le> 1 \<and> tally collecting M = 0 else tally exiting M = 0)"

definition flag_ok :: "'q station \<Rightarrow> frame multiset \<Rightarrow> bool" where
  "flag_ok s M \<longleftrightarrow>
     (is_live (state_flag (info s)) \<longleftrightarrow> (local_dead s \<longrightarrow> Ex_swap \<in># M))
     \<and> (state_flag (info s) = Dying \<longleftrightarrow> 0 < tally is_dying M)"

definition drain_ok :: "('q \<Rightarrow> QueuedObject list) \<Rightarrow> 'q station \<Rightarrow> frame multiset \<Rightarrow> bool" where
  "drain_ok items s M \<longleftrightarrow>
     tally draining M \<le> 1 \<and> tally lossy M = 0
     \<and> (0 < tally orphaned M \<longrightarrow> queue_strong (info s) = 0)
     \<and> (queue_strong (info s) = 0 \<and> tally draining M = 0 \<longrightarrow> items (queue_inner (info s)) = [])"

definition kept_ok :: "('q \<Rightarrow> QueuedObject list) \<Rightarrow> 'q station \<Rightarrow> frame multiset \<Rightarrow> bool" where
  "kept_ok items s M \<longleftrightarrow>
     requested s = merged_obs s + mset (items (queue_inner (info s))) + in_flight M"

definition wake_ok :: "('q \<Rightarrow> QueuedObject list) \<Rightarrow> 'q station \<Rightarrow> frame multiset \<Rightarrow> bool" where
  "wake_ok items s M \<longleftrightarrow>
     (\<not> unwound s \<and> items (queue_inner (info s)) \<noteq> [] \<and> state_flag (info s) = Live \<longrightarrow> 0 < tally will_look M)"

definition owner_ok :: "nat \<Rightarrow> 'q station \<Rightarrow> bool" where
  "owner_ok own s \<longleftrightarrow> own < length (stacks s)
     \<and> (\<forall>t < length (stacks s). t \<noteq> own \<longrightarrow> (\<forall>c \<in> set (stacks s ! t). \<not> for_owner c))"

definition station_ok :: "('q \<Rightarrow> QueuedObject list) \<Rightarrow> 'q station \<Rightarrow> frame multiset \<Rightarrow> bool" where
  "station_ok items s M \<longleftrightarrow>
     arcs_ok s M \<and> exit_ok s M \<and> flag_ok s M \<and> drain_ok items s M \<and> kept_ok items s M \<and> wake_ok items s M"

lemmas station_defs = arcs_ok_def exit_ok_def flag_ok_def drain_ok_def kept_ok_def wake_ok_def

section \<open>Steps keep the invariant\<close>

lemma tally_mono: "(\<And>c. P c \<Longrightarrow> Q c) \<Longrightarrow> tally P M \<le> tally Q M"
  by (induction M) auto

lemma tally_parts:
  "tally before_release M \<le> tally exiting M" "tally is_dying M \<le> tally exiting M"
  "tally draining M \<le> tally orphaned M" "Ex_swap \<in># M \<Longrightarrow> 0 < tally before_release M"
  by (auto intro!: tally_mono elim: before_release.elims is_dying.elims draining.elims)
    (metis before_release.simps(1) gr0I tally_0)

lemma set_fields [simp]:
  "queue_strong (info (set_strong n s)) = n" "state_flag (info (set_strong n s)) = state_flag (info s)"
  "queue_inner (info (set_strong n s)) = queue_inner (info s)"
  "queue_strong (info (set_flag f s)) = queue_strong (info s)" "state_flag (info (set_flag f s)) = f"
  "queue_inner (info (set_flag f s)) = queue_inner (info s)"
  "queue_strong (info (set_inner q s)) = queue_strong (info s)" "state_flag (info (set_inner q s)) = state_flag (info s)"
  "queue_inner (info (set_inner q s)) = q" "info (did_merge ob s) = info s"
  "info (put_stack t fs s) = info s"
  by (simp_all add: set_strong_def set_flag_def set_inner_def did_merge_def put_stack_def)

lemma set_other_fields [simp]:
  "local_dead (set_strong n s) = local_dead s" "local_dead (set_flag f s) = local_dead s"
  "local_dead (set_inner q s) = local_dead s" "local_dead (did_merge ob s) = local_dead s"
  "requested (set_strong n s) = requested s" "requested (set_flag f s) = requested s"
  "requested (set_inner q s) = requested s" "requested (did_merge ob s) = requested s"
  "merged_obs (set_strong n s) = merged_obs s" "merged_obs (set_flag f s) = merged_obs s"
  "merged_obs (set_inner q s) = merged_obs s" "merged_obs (did_merge ob s) = add_mset ob (merged_obs s)"
  "unwound (set_strong n s) = unwound s" "unwound (set_flag f s) = unwound s"
  "unwound (set_inner q s) = unwound s" "unwound (did_merge ob s) = unwound s"
  "stacks (set_strong n s) = stacks s" "stacks (set_flag f s) = stacks s"
  "stacks (set_inner q s) = stacks s" "stacks (did_merge ob s) = stacks s"
  by (simp_all add: set_strong_def set_flag_def set_inner_def did_merge_def)

lemma put_stack_fields [simp]:
  "local_dead (put_stack t fs s) = local_dead s" "requested (put_stack t fs s) = requested s"
  "merged_obs (put_stack t fs s) = merged_obs s" "unwound (put_stack t fs s) = unwound s"
  by (simp_all add: put_stack_def)

lemmas access_cases = release_arc_def exchange_flag_def is_dead_or_dying_def

lemma station_okD:
  assumes "station_ok items s (add_mset c M)"
  shows "exiting c \<Longrightarrow> local_dead s" "collecting c \<Longrightarrow> \<not> local_dead s" "collecting c \<Longrightarrow> is_live (state_flag (info s))"
    "orphaned c \<Longrightarrow> queue_strong (info s) = 0" "holds_arc c \<Longrightarrow> 0 < queue_strong (info s)"
    "before_release c \<Longrightarrow> 0 < queue_strong (info s)" "\<not> lossy c"
    "collecting c \<Longrightarrow> holds_arc c \<Longrightarrow> queue_strong (info s) \<noteq> 1"
  using assms by (auto simp: station_ok_def station_defs split: if_splits)

lemma fifo_facts:
  assumes "fifo E items"
  shows "items (queue_push E x q) = items q @ [x]" "queue_is_empty E q \<longleftrightarrow> items q = []"
    "queue_pop E q = None \<Longrightarrow> items q = []" "queue_pop E q = Some (x, q') \<Longrightarrow> items q = x # items q'"
  using assms by (auto simp: fifo_def)

lemma arcs_step:
  assumes "station_ok items s (add_mset c M)" "frame_access E c s = Inr (fs, s')"
  shows "arcs_ok s' (mset fs + M)"
proof -
  have "arcs_ok s (add_mset c M)" using assms(1) by (simp add: station_ok_def)
  with station_okD(1) [OF assms(1)] assms(2) show ?thesis
    by (cases c) (auto simp: access_cases arcs_ok_def split: if_splits option.splits)
qed

lemma exit_step:
  assumes "station_ok items s (add_mset c M)" "frame_access E c s = Inr (fs, s')"
  shows "exit_ok s' (mset fs + M)"
proof -
  have "exit_ok s (add_mset c M)" using assms(1) by (simp add: station_ok_def)
  with assms(2) show ?thesis
    by (cases c) (auto simp: access_cases exit_ok_def split: if_splits option.splits)
qed

lemma flag_step:
  assumes "station_ok items s (add_mset c M)" "frame_access E c s = Inr (fs, s')"
  shows "flag_ok s' (mset fs + M)"
proof -
  have "flag_ok s (add_mset c M)" "exit_ok s (add_mset c M)" using assms(1) by (simp_all add: station_ok_def)
  with assms(2) show ?thesis using tally_parts(1,2,4) [of M]
    by (cases c) (auto simp: access_cases exit_ok_def flag_ok_def split: if_splits option.splits)
qed

lemma kept_step:
  assumes "fifo E items" "station_ok items s (add_mset c M)" "frame_access E c s = Inr (fs, s')"
  shows "kept_ok items s' (mset fs + M)"
proof -
  have "kept_ok items s (add_mset c M)" using assms(2) by (simp_all add: station_ok_def)
  with assms(3) show ?thesis 
    by (cases c) (auto simp: access_cases kept_ok_def fifo_facts [OF assms(1)] split: if_splits option.splits)
qed

lemma wake_step:
  assumes "fifo E items" "station_ok items s (add_mset c M)" "frame_access E c s = Inr (fs, s')"
  shows "wake_ok items s' (mset fs + M)"
proof -
  have "wake_ok items s (add_mset c M)" using assms(2) by (simp_all add: station_ok_def)
  with assms(3) show ?thesis 
    by (cases c) (auto simp: access_cases wake_ok_def fifo_facts [OF assms(1)] split: if_splits option.splits)
qed

lemma drain_step:
  assumes "fifo E items" "station_ok items s (add_mset c M)" "frame_access E c s = Inr (fs, s')"
  shows "drain_ok items s' (mset fs + M)"
proof -
  have "drain_ok items s (add_mset c M)" using assms(2) by (simp_all add: station_ok_def)
  with assms(3) station_okD [OF assms(2)] show ?thesis using tally_parts(3)[of M]
    by (cases c) (auto simp: access_cases drain_ok_def fifo_facts [OF assms(1)] split: if_splits option.splits)
qed

lemma access_keeps:
  assumes "fifo E items" "station_ok items s (add_mset c M)" "frame_access E c s = Inr (fs, s')"
  shows "station_ok items s' (mset fs + M)"
  unfolding station_ok_def
  by (intro conjI arcs_step [OF assms(2,3)] exit_step [OF assms(2,3)] flag_step [OF assms(2,3)]
    drain_step [OF assms] kept_step [OF assms] wake_step [OF assms])

text \<open>Nothing that the queue asserts can fail.\<close>

lemma access_no_fault:
  assumes "station_ok items s (add_mset c M)"
  shows "frame_access E c s \<noteq> Inl e"
proof -
  have "flag_ok s (add_mset c M)" "arcs_ok s (add_mset c M)" "exit_ok s (add_mset c M)"
    using assms by (simp_all add: station_ok_def)
  moreover have "is_live (state_flag (info s)) \<Longrightarrow> Ex_swap \<in># M \<or> \<not> local_dead s" if "Qo_state ob = c" for ob
    using calculation(1) that by (auto simp: flag_ok_def)
  ultimately show ?thesis
    using station_okD [OF assms] tally_parts(4) [of M]
    by (cases c) (auto simp: flag_ok_def arcs_ok_def is_dead_or_dying_def split: if_splits)
qed

lemma panic_keeps:
  assumes "station_ok items s (add_mset c M)" "frame_panic c s = Some (Inr (fs, s'))"
  shows "station_ok items s' (mset fs + M)"
proof -
  obtain ob where c: "c = Co_merge MayPanic ob" "fs = [Co_release MayPanic]" "s' = (did_merge ob s)\<lparr>unwound := True\<rparr>"
    using assms(2) station_okD(7) [OF assms(1)] by (cases "(c, s)" rule: frame_panic.cases) auto
  show ?thesis using assms(1) by (auto simp: c station_ok_def station_defs split: if_splits)
qed

lemma panic_fault: "frame_panic c s = Some (Inl e) \<Longrightarrow> e = Nounwind_abort"
  by (cases "(c, s)" rule: frame_panic.cases) auto

text \<open>The frames with which an operation starts.\<close>

fun starting :: "frame \<Rightarrow> bool" where
  "starting (Need_collect _) = True"
| "starting (Co_state _) = True"
| "starting _ = False"

lemma call_keeps:
  assumes "station_ok items s M" "starting c" "collecting c \<Longrightarrow> \<not> local_dead s"
  shows "station_ok items s (add_mset c M)"
  using assms by (cases c) (auto simp: station_ok_def station_defs split: if_splits)

lemma queue_keeps:
  assumes "station_ok items s M"
  shows "station_ok items (s\<lparr>requested := add_mset ob (requested s)\<rparr>) (add_mset (Qo_upgrade ob) M)"
  using assms by (auto simp: station_ok_def station_defs split: if_splits)

lemma exit_keeps:
  assumes "station_ok items s M" "\<not> local_dead s" "tally collecting M = 0"
  shows "station_ok items (s\<lparr>local_dead := True\<rparr>) (add_mset Ex_swap M)"
  using assms tally_parts [of M] by (auto simp: station_ok_def station_defs split: if_splits)

end
