(* ===== verification/Queue_Theorems.thy ===== *)
theory Queue_Theorems
  imports Queue_Invariant
begin

text \<open>
  What the invariant of the interleaved queue gives: no assertion of the queue fails, merges happen
  only where they may, no queued object is lost, and an object that was queued for a live owner is
  merged by the owner's next collection. The last section shows how a panicking destructor can leave
  objects behind that the next collections do not see.
\<close>

section \<open>Reachable states\<close>

lemma owner_ok_put:
  assumes "owner_ok own s" "stacks s' = stacks s" "t = own \<or> (\<forall>c \<in> set fs. \<not> for_owner c)"
  shows "owner_ok own (put_stack t fs s')"
proof -
  have "\<not> for_owner c" if "u < length (stacks s)" "u \<noteq> own" "c \<in> set ((stacks s)[t := fs] ! u)" for u c
    using that assms by (cases "u = t") (auto simp: owner_ok_def)
  then show ?thesis using assms(1,2) by (auto simp: owner_ok_def put_stack_def)
qed

lemma access_for_owner:
  "frame_access E c s = Inr (fs, s') \<Longrightarrow> \<not> for_owner c \<Longrightarrow> d \<in> set fs \<Longrightarrow> \<not> for_owner d"
  by (cases c) (auto simp: access_cases split: if_splits option.splits)

lemma panic_for_owner:
  "frame_panic c s = Some (Inr (fs, s')) \<Longrightarrow> \<not> for_owner c \<Longrightarrow> d \<in> set fs \<Longrightarrow> \<not> for_owner d"
  by (cases "(c, s)" rule: frame_panic.cases) auto

lemma access_stacks: "frame_access E c s = Inr (fs, s') \<Longrightarrow> stacks s' = stacks s"
  by (cases c) (auto simp: access_cases split: if_splits option.splits)

lemma panic_stacks: "frame_panic c s = Some (Inr (fs, s')) \<Longrightarrow> stacks s' = stacks s"
  by (cases "(c, s)" rule: frame_panic.cases) auto

lemma station_ok_put [simp]: "station_ok items (put_stack t fs s) M = station_ok items s M"
  by (simp add: station_ok_def station_defs)

lemma running_cases:
  assumes "running t s"
  obtains c rest M where "stacks s ! t = c # rest" "t < length (stacks s)" "frames s = add_mset c M"
  using assms frame_in_frames [OF assms]
  by (auto simp: running_def neq_Nil_conv dest!: multi_member_split)

lemma replace_ok:
  assumes "running t s" "owner_ok own s" "stacks s' = stacks s" "frames s = add_mset (hd (stacks s ! t)) M"
    "station_ok items s' (mset fs + M)" "\<And>d. \<not> for_owner (hd (stacks s ! t)) \<Longrightarrow> d \<in> set fs \<Longrightarrow> \<not> for_owner d"
  shows "station_ok items (put_stack t (fs @ tl (stacks s ! t)) s') (frames (put_stack t (fs @ tl (stacks s ! t)) s'))
    \<and> owner_ok own (put_stack t (fs @ tl (stacks s ! t)) s')"
proof -
  have t: "t < length (stacks s)" and c: "stacks s ! t = hd (stacks s ! t) # tl (stacks s ! t)"
    using assms(1) by (auto simp: running_def)
  have "\<not> for_owner d" if "t \<noteq> own" "d \<in> set (stacks s ! t)" for d
    using assms(2) t that by (auto simp: owner_ok_def)
  then have "\<forall>d \<in> set (fs @ tl (stacks s ! t)). \<not> for_owner d" if "t \<noteq> own"
    using that assms(6) c by (cases "stacks s ! t") auto
  then have "owner_ok own (put_stack t (fs @ tl (stacks s ! t)) s')"
    using owner_ok_put [OF assms(2,3)] by blast
  then show ?thesis using assms(5) by (simp add: frames_replace_top [OF assms(1,3,4)])
qed

lemma collecting_for_owner: "collecting c \<Longrightarrow> for_owner c"
  by (cases c) auto

lemma not_collecting:
  assumes "owner_ok own s" "stacks s ! own = []"
  shows "tally collecting (frames s) = 0"
proof -
  have "\<not> for_owner c" if fs: "fs \<in> set (stacks s)" and c: "c \<in> set fs" for fs c
  proof (cases "fs = stacks s ! own")
    case True
    then show ?thesis using assms(2) c by simp
  next
    case False
    then obtain t where "t < length (stacks s)" "t \<noteq> own" "fs = stacks s ! t"
      using fs by (auto simp: in_set_conv_nth)
    then show ?thesis using assms(1) c by (simp add: owner_ok_def)
  qed
  then have "\<not> collecting c" if "c \<in># frames s" for c
    using that collecting_for_owner [of c] by (auto simp: frames_def)
  then show ?thesis by (auto simp: tally_0)
qed

lemma queue_reachable_ok:
  assumes "fifo E items" "queue_reachable E own s"
  shows "station_ok items s (frames s) \<and> owner_ok own s"
  using assms(2)
proof induction
  case (queue_reachable_start n uid sid)
  have "frames (queue_start E n uid sid) = {#}"
    by (simp add: frames_def queue_start_def)
  then show ?case
    using queue_reachable_start assms(1)
    by (simp add: queue_start_def station_ok_def station_defs owner_ok_def fifo_def)
next
  case (queue_reachable_step s a s')
  note ok = queue_reachable_step.IH
  show ?case
  proof (cases a)
    case (Advance t)
    then obtain fs s0 where a: "running t s" "frame_access E (hd (stacks s ! t)) s = Inr (fs, s0)"
      "s' = put_stack t (fs @ tl (stacks s ! t)) s0"
      using queue_reachable_step.hyps(2) by (auto simp: replace_top_def checked_simps split: if_splits)
    obtain M where M: "frames s = add_mset (hd (stacks s ! t)) M"
      using frame_in_frames [OF a(1)] by (auto dest: multi_member_split)
    show ?thesis
      unfolding a(3)
      using ok M access_keeps [OF assms(1) _ a(2), of M] access_stacks [OF a(2)] access_for_owner [OF a(2)]
      by (intro replace_ok [OF a(1) _ _ M]) auto
  next
    case (Panic t)
    then obtain fs s0 where a: "running t s" "frame_panic (hd (stacks s ! t)) s = Some (Inr (fs, s0))"
      "s' = put_stack t (fs @ tl (stacks s ! t)) s0"
      using queue_reachable_step.hyps(2) by (auto simp: replace_top_def checked_simps split: if_splits)
    obtain M where M: "frames s = add_mset (hd (stacks s ! t)) M"
      using frame_in_frames [OF a(1)] by (auto dest: multi_member_split)
    show ?thesis
      unfolding a(3)
      using ok M panic_keeps [OF _ a(2), of items M] panic_stacks [OF a(2)] panic_for_owner [OF a(2)]
      by (intro replace_ok [OF a(1) _ _ M]) auto
  next
    case (Skip t)
    then obtain pol where a: "running t s" "hd (stacks s ! t) = Slow_collect pol"
      "s' = put_stack t ([] @ tl (stacks s ! t)) s"
      using queue_reachable_step.hyps(2) by (auto simp: replace_top_def split: if_splits)
    obtain M where M: "frames s = add_mset (hd (stacks s ! t)) M"
      using frame_in_frames [OF a(1)] by (auto dest: multi_member_split)
    have "station_ok items s M"
      using ok M a(2) by (auto simp: station_ok_def station_defs split: if_splits)
    then show ?thesis
      unfolding a(3) using ok by (intro replace_ok [OF a(1) _ _ M]) auto
  next
    case (Queue t ob)
    let ?s = "s\<lparr>requested := add_mset ob (requested s)\<rparr>"
    have t: "t < length (stacks s)" and s': "s' = put_stack t (Qo_upgrade ob # stacks ?s ! t) ?s"
      using Queue queue_reachable_step.hyps(2) by (auto simp: call_def split: if_splits)
    have "owner_ok own s'"
      unfolding s' using ok t by (intro owner_ok_put [of own s]) (auto simp: owner_ok_def)
    moreover have "frames s' = add_mset (Qo_upgrade ob) (frames s)"
      using s' frames_call [of t ?s "Qo_upgrade ob"] t by (simp add: frames_def)
    ultimately show ?thesis using ok queue_keeps s' by auto
  next
    case (Begin_collect pol)
    then have t: "own < length (stacks s)" and s': "s' = put_stack own (Need_collect pol # stacks s ! own) s"
      using queue_reachable_step.hyps(2) by (auto simp: call_def split: if_splits)
    show ?thesis
      unfolding s' frames_call [OF t] using ok by (auto intro!: call_keeps owner_ok_put)
  next
    case Begin_force
    then have t: "own < length (stacks s)" "\<not> local_dead s" and s': "s' = put_stack own (Co_state MayPanic # stacks s ! own) s"
      using queue_reachable_step.hyps(2) by (auto simp: call_def split: if_splits)
    show ?thesis
      unfolding s' frames_call [OF t(1)] using ok t by (auto intro!: call_keeps owner_ok_put)
  next
    case Exit
    let ?s = "s\<lparr>local_dead := True\<rparr>"
    have t: "own < length (stacks s)" "stacks s ! own = []" "\<not> local_dead s" and s': "s' = put_stack own [Ex_swap] ?s"
      using Exit queue_reachable_step.hyps(2) by (auto split: if_splits)
    have "frames s' = add_mset Ex_swap (frames s)"
      using s' frames_call [of own ?s Ex_swap] t by (simp add: frames_def)
    moreover have "station_ok items ?s (add_mset Ex_swap (frames s))"
      using ok t by (intro exit_keeps not_collecting) auto
    ultimately show ?thesis using ok s' by (auto intro!: owner_ok_put)
  qed
qed


section \<open>The end of a collection\<close>

text \<open>The owner runs alone: a step of its top frame.\<close>

lemma advance_owner:
  assumes "stacks s ! own = c # rest" "own < length (stacks s)" "frame_access E c s = Inr (fs, s0)"
  shows "queue_act E own (Advance own) s = Some (Inr (put_stack own (fs @ rest) s0))"
  using assms by (simp add: running_def replace_top_def)

lemma pop_access:
  assumes "fifo E items"
  shows "items (queue_inner (info s)) = [] \<Longrightarrow> frame_access E (Co_pop pol) s = Inr ([Co_flag pol], s)"
    "items (queue_inner (info s)) = ob # obs \<Longrightarrow>
      \<exists>q. items q = obs \<and> frame_access E (Co_pop pol) s = Inr ([Co_merge pol ob], set_inner q s)"
  using assms fifo_pop_Nil [OF assms] fifo_pop_Cons [OF assms] by fastforce+

text \<open>\<open>collect_force\<close> from its first pop on, with the queue's content left.\<close>

lemma pops_all:
  assumes "fifo E items" "stacks s ! own = Co_pop pol # rest" "own < length (stacks s)"
    "length (items (queue_inner (info s))) = n"
  shows "\<exists>s'. queue_run E own (replicate (2 * n + 1) (Advance own)) s = Some (Inr s')
    \<and> stacks s' = (stacks s)[own := Co_flag pol # rest] \<and> items (queue_inner (info s')) = []
    \<and> merged_obs s' = merged_obs s + mset (items (queue_inner (info s)))
    \<and> state_flag (info s') = state_flag (info s) \<and> queue_strong (info s') = queue_strong (info s)
    \<and> requested s' = requested s \<and> local_dead s' = local_dead s"
  using assms(2-)
proof (induction n arbitrary: s)
  case 0
  then have "queue_act E own (Advance own) s = Some (Inr (put_stack own ([Co_flag pol] @ rest) s))"
    using pop_access(1) [OF assms(1)] by (intro advance_owner) auto
  then show ?case using 0 by (auto simp: put_stack_def simp del: queue_act.simps)
next
  case (Suc n)
  obtain ob obs where obs: "items (queue_inner (info s)) = ob # obs" "length obs = n"
    using Suc.prems(3) by (auto simp: length_Suc_conv)
  obtain q where q: "items q = obs" "frame_access E (Co_pop pol) s = Inr ([Co_merge pol ob], set_inner q s)"
    using pop_access(2) [OF assms(1) obs(1)] by blast
  let ?s1 = "put_stack own ([Co_merge pol ob] @ rest) (set_inner q s)"
  let ?s2 = "put_stack own ([Co_pop pol] @ rest) (did_merge ob ?s1)"
  have 1: "queue_act E own (Advance own) s = Some (Inr ?s1)"
    by (rule advance_owner [OF Suc.prems(1,2) q(2)])
  have 2: "queue_act E own (Advance own) ?s1 = Some (Inr ?s2)"
    using Suc.prems by (intro advance_owner) (auto simp: put_stack_def)
  have "\<exists>s'. queue_run E own (replicate (2 * n + 1) (Advance own)) ?s2 = Some (Inr s')
    \<and> stacks s' = (stacks ?s2)[own := Co_flag pol # rest] \<and> items (queue_inner (info s')) = []
    \<and> merged_obs s' = merged_obs ?s2 + mset (items (queue_inner (info ?s2)))
    \<and> state_flag (info s') = state_flag (info ?s2) \<and> queue_strong (info s') = queue_strong (info ?s2)
    \<and> requested s' = requested ?s2 \<and> local_dead s' = local_dead ?s2"
    using Suc.prems q obs by (intro Suc.IH) (auto simp: put_stack_def)
  moreover have "queue_run E own (replicate (2 * Suc n + 1) (Advance own)) s
      = queue_run E own (replicate (2 * n + 1) (Advance own)) ?s2"
    using 1 2 by (simp del: queue_act.simps)
  ultimately show ?case using q obs by (simp add: put_stack_def did_merge_def set_inner_def)
qed


lemma queue_run_append:
  "queue_run E own as s = Some (Inr s') \<Longrightarrow> queue_run E own (as @ bs) s = queue_run E own bs s'"
  by (induction as arbitrary: s) (auto split: option.splits sum.splits)

lemma put_stack_simps [simp]:
  "put_stack t fs (put_stack t gs s) = put_stack t fs s"
  "t < length (stacks s) \<Longrightarrow> stacks (put_stack t fs s) ! t = fs"
  "length (stacks (put_stack t fs s)) = length (stacks s)"
  "set_strong n (put_stack t fs s) = put_stack t fs (set_strong n s)"
  "set_flag f (put_stack t fs s) = put_stack t fs (set_flag f s)"
  by (simp_all add: put_stack_def set_strong_def set_flag_def)

lemma stacks_put: "stacks (put_stack t fs s) = (stacks s)[t := fs]"
  by (simp add: put_stack_def)

definition idle :: "'q station \<Rightarrow> bool" where
  "idle s \<longleftrightarrow> (\<forall>fs \<in> set (stacks s). fs = [])"

lemma idle_frames: "idle s \<Longrightarrow> frames s = {#}"
  by (auto simp: idle_def frames_def concat_eq_Nil_conv)

lemma collect_alone:
  assumes "fifo E items" "queue_reachable E own s" "idle s" "\<not> local_dead s" "state_flag (info s) = QueuedObjects"
  shows "\<exists>n s'. queue_run E own (Begin_collect pol # replicate n (Advance own)) s = Some (Inr s')
    \<and> idle s' \<and> \<not> local_dead s' \<and> items (queue_inner (info s')) = [] \<and> state_flag (info s') = Live
    \<and> requested s' = requested s \<and> merged_obs s' = merged_obs s + mset (items (queue_inner (info s)))"
proof -
  let ?n = "length (items (queue_inner (info s)))"
  have ok: "station_ok items s {#}" "owner_ok own s"
    using queue_reachable_ok [OF assms(1,2)] idle_frames [OF assms(3)] by auto
  then have own: "own < length (stacks s)" "stacks s ! own = []"
    using assms(3) by (auto simp: owner_ok_def idle_def)
  have one: "queue_strong (info s) = 1" using ok(1) assms(4) by (simp add: station_ok_def arcs_ok_def)
  let ?s1 = "put_stack own [Co_pop pol] (set_strong 2 s)"
  have 1: "queue_run E own (Begin_collect pol # replicate 4 (Advance own)) s = Some (Inr ?s1)"
    using own one assms(4,5) by (simp add: call_def in_user_code_def running_def replace_top_def numeral_eq_Suc)
  obtain s2 where s2: "queue_run E own (replicate (2 * ?n + 1) (Advance own)) ?s1 = Some (Inr s2)"
    "stacks s2 = (stacks ?s1)[own := [Co_flag pol]]" "items (queue_inner (info s2)) = []"
    "merged_obs s2 = merged_obs ?s1 + mset (items (queue_inner (info ?s1)))"
    "state_flag (info s2) = state_flag (info ?s1)" "queue_strong (info s2) = queue_strong (info ?s1)"
    "requested s2 = requested ?s1" "local_dead s2 = local_dead ?s1"
    using pops_all [OF assms(1), of ?s1 own pol "[]" ?n] own by (auto simp: stacks_put)
  have own2: "own < length (stacks s2)" "stacks s2 ! own = [Co_flag pol]" "stacks s2 = (stacks s)[own := [Co_flag pol]]"
    using s2(2) own by (simp_all add: stacks_put)
  let ?s3 = "put_stack own [] (set_strong 1 (set_flag Live s2))"
  have 3: "queue_run E own (replicate 3 (Advance own)) s2 = Some (Inr ?s3)"
    using own2 s2(3,5,6) assms(1,5)
    by (simp add: running_def replace_top_def numeral_eq_Suc access_cases fifo_facts(2) [OF assms(1)])
  have "queue_run E own (Begin_collect pol # replicate (4 + (2 * ?n + 1 + 3)) (Advance own)) s = Some (Inr ?s3)"
    using queue_run_append [OF 1, of "replicate (2 * ?n + 1 + 3) (Advance own)"]
      queue_run_append [OF s2(1), of "replicate 3 (Advance own)"] 3
    by (simp only: replicate_add append_Cons)
  moreover have "idle ?s3"
    using own2(3) assms(3) set_update_subset_insert [of "stacks s" own "[]"] by (auto simp: idle_def stacks_put)
  ultimately show ?thesis
    using s2(3,4,7,8) assms(4) by (intro exI [of _ "4 + (2 * ?n + 1 + 3)"] exI [of _ ?s3]) auto
qed

section \<open>Properties\<close>

text \<open>
  C13. However the threads interleave \<open>queue_object\<close>, the collections and the end of the owner, and
  however collections nest inside destructors, no assertion of the queue fails and no exchange of the
  final state change fails; the only way to stop is a panic where panics abort.
\<close>

theorem queue_never_fails:
  assumes "fifo E items" "queue_reachable E own s" "queue_act E own a s = Some (Inl e)"
  shows "e = Nounwind_abort"
proof (cases a)
  case (Advance t)
  then have a: "running t s" "frame_access E (hd (stacks s ! t)) s = Inl e"
    using assms(3) by (auto simp: replace_top_def checked_simps split: if_splits)
  then obtain M where "frames s = add_mset (hd (stacks s ! t)) M"
    using frame_in_frames [OF a(1)] by (auto dest: multi_member_split)
  then show ?thesis using queue_reachable_ok [OF assms(1,2)] access_no_fault a(2) by metis
next
  case (Panic t)
  then show ?thesis
    using assms(3) panic_fault by (auto simp: replace_top_def checked_simps split: if_splits)
qed (use assms(3) in \<open>auto simp: call_def replace_top_def split: if_splits\<close>)

text \<open>
  C14. A merge of a queued object never races with the owner: as long as the owner's thread-local
  state is alive only the owner merges, and once another thread or the queue's destructor merges, the
  owner is dying or dead and its queue is gone for good.
\<close>

theorem merged_exclusively:
  assumes "fifo E items" "queue_reachable E own s" "t < length (stacks s)" "c \<in> set (stacks s ! t)" "merging c"
  shows "if local_dead s then is_dead_or_dying (state_flag (info s)) \<and> queue_strong (info s) = 0 else t = own"
proof -
  note ok = queue_reachable_ok [OF assms(1,2)]
  have "c \<in># frames s" using assms(3,4) by (auto simp: frames_def)
  then obtain M where M: "frames s = add_mset c M" by (auto dest: multi_member_split)
  have ok': "station_ok items s (add_mset c M)" using ok M by simp
  show ?thesis
  proof (cases "local_dead s")
    case True
    then have "\<not> collecting c" using station_okD(2) [OF ok'] by blast
    then have "orphaned c" using assms(5) by (cases c) auto
    then have "queue_strong (info s) = 0" using station_okD(4) [OF ok'] by blast
    moreover have "\<not> is_live (state_flag (info s))"
      using ok True calculation tally_parts(4) [of "frames s"]
      by (auto simp: station_ok_def arcs_ok_def flag_ok_def)
    ultimately show ?thesis using True by (simp add: is_dead_or_dying_def)
  next
    case False
    then have "0 < queue_strong (info s)" using ok' by (auto simp: station_ok_def arcs_ok_def)
    then have "\<not> orphaned c" using station_okD(4) [OF ok'] by auto
    then have "for_owner c" using assms(5) by (cases c) auto
    then show ?thesis using False ok assms(3,4) by (auto simp: owner_ok_def)
  qed
qed


text \<open>
  C16. No wake-up is lost: when no operation is in progress, the owner is alive and no destructor has
  panicked out of a collection, one \<open>collect\<close> or \<open>collect_nounwind\<close> of the owner that is left alone
  returns, and then everything that was ever queued has been merged.
\<close>

theorem queued_objects_get_merged:
  assumes "fifo E items" "queue_reachable E own s" "idle s" "\<not> local_dead s" "\<not> unwound s"
  shows "\<exists>n s'. queue_run E own (Begin_collect pol # replicate n (Advance own)) s = Some (Inr s')
    \<and> idle s' \<and> merged_obs s' = requested s \<and> items (queue_inner (info s')) = []"
proof -
  have ok: "station_ok items s {#}" "owner_ok own s"
    using queue_reachable_ok [OF assms(1,2)] idle_frames [OF assms(3)] by auto
  have all: "requested s = merged_obs s + mset (items (queue_inner (info s)))"
    using ok(1) by (simp add: station_ok_def kept_ok_def)
  show ?thesis
  proof (cases "state_flag (info s) = QueuedObjects")
    case True
    then show ?thesis using collect_alone [OF assms(1-4) True, of pol] all by fastforce
  next
    case False
    then have live: "state_flag (info s) = Live"
      using ok(1) assms(4) by (cases "state_flag (info s)") (auto simp: station_ok_def flag_ok_def)
    then have "items (queue_inner (info s)) = []"
      using ok(1) assms(5) by (simp add: station_ok_def wake_ok_def)
    moreover have own: "own < length (stacks s)" "stacks s ! own = []"
      using ok(2) assms(3) by (auto simp: owner_ok_def idle_def)
    then have "queue_run E own (Begin_collect pol # replicate 1 (Advance own)) s = Some (Inr (put_stack own [] s))"
      using live assms(4) by (simp add: call_def in_user_code_def running_def replace_top_def)
    moreover have "idle (put_stack own [] s)"
      using assms(3) set_update_subset_insert [of "stacks s" own "[]"] by (auto simp: idle_def stacks_put)
    ultimately show ?thesis using all by (intro exI [of _ 1] exI [of _ "put_stack own [] s"]) simp
  qed
qed

section \<open>A panic in a collection\<close>

definition demo_station :: "QueuedObject list station" where
  "demo_station = queue_start list_env 3 (info_id (demo_info [])) demo_sid"

lemma reachable_run:
  "queue_run list_env 0 as demo_station = Some (Inr s) \<Longrightarrow> queue_reachable list_env 0 s"
  unfolding demo_station_def by (rule queue_run_reachable [OF queue_reachable_start]) simp_all

abbreviation queues :: "nat \<Rightarrow> QueuedObject \<Rightarrow> queue_action list" where
  "queues t ob \<equiv> [Queue t ob, Advance t, Advance t, Advance t, Advance t]"

text \<open>
  The owner (thread 0) collects one object; before it resets the flag, two more are queued, by
  threads that find the flag raised already; the owner resets the flag, finds the queue not empty,
  and the destructor of the first of the two panics.
\<close>

definition panic_schedule :: "QueuedObject \<Rightarrow> QueuedObject \<Rightarrow> QueuedObject \<Rightarrow> queue_action list" where
  "panic_schedule ob1 ob2 ob3 =
     queues 1 ob1 @ [Begin_collect MayPanic] @ replicate 7 (Advance 0) @ queues 1 ob2 @ queues 2 ob3
     @ replicate 3 (Advance 0) @ [Panic 0, Advance 0]"

text \<open>Three objects with headers at different addresses.\<close>

definition queued_at :: "nat \<Rightarrow> QueuedObject" where
  "queued_at n = demo_queued\<lparr>header_ptr := n\<rparr>"

lemma queued_at_eq [simp]: "queued_at n = queued_at m \<longleftrightarrow> n = m"
  by (simp add: queued_at_def demo_queued_def)

lemmas evaluate_queue =
  panic_schedule_def demo_station_def queue_start_def list_env_def call_def in_user_code_def put_stack_def
  running_def replace_top_def set_strong_def set_inner_def set_flag_def did_merge_def exchange_flag_def
  release_arc_def is_dead_or_dying_def numeral_eq_Suc

text \<open>
  C40. A destructor that panics out of \<open>collect\<close> can leave an object in the queue with the flag at
  \<open>Live\<close>. Three different objects are queued, each once; the first is merged, and the destructor of the
  second panics out of the collection. Then nothing is in progress and the owner is alive, the third object is
  still in the queue, the flag is \<open>Live\<close>, and the owner's next \<open>collect\<close>, under any policy, returns
  without looking at the queue.
\<close>

theorem panic_loses_wakeup:
  "\<exists>before after s. panic_schedule (queued_at 1) (queued_at 2) (queued_at 3) = before @ Panic 0 # after
     \<and> queue_run list_env 0 (before @ Panic 0 # after) demo_station = Some (Inr s)
     \<and> unwound s \<and> idle s \<and> \<not> local_dead s
     \<and> distinct [queued_at 1, queued_at 2, queued_at 3]
     \<and> requested s = {#queued_at 1, queued_at 2, queued_at 3#}
     \<and> merged_obs s = {#queued_at 1, queued_at 2#}
     \<and> queue_inner (info s) = [queued_at 3] \<and> state_flag (info s) = Live
     \<and> (\<forall>pol. queue_run list_env 0 [Begin_collect pol, Advance 0] s = Some (Inr s))"
proof -
  let ?sched = "panic_schedule (queued_at 1) (queued_at 2) (queued_at 3)"
  have "Panic 0 \<in> set ?sched" by (simp add: panic_schedule_def)
  then obtain before after where p: "?sched = before @ Panic 0 # after" by (meson split_list)
  obtain s where "queue_run list_env 0 ?sched demo_station = Some (Inr s)"
    "unwound s" "idle s" "\<not> local_dead s" "requested s = {#queued_at 1, queued_at 2, queued_at 3#}"
    "merged_obs s = {#queued_at 1, queued_at 2#}" "queue_inner (info s) = [queued_at 3]" "state_flag (info s) = Live"
    "\<forall>pol. queue_run list_env 0 [Begin_collect pol, Advance 0] s = Some (Inr s)"
    by (simp add: evaluate_queue idle_def)
  moreover have "distinct [queued_at 1, queued_at 2, queued_at 3]" by simp
  ultimately show ?thesis using p by metis
qed

section \<open>Instances\<close>

text \<open>The owner is ending, and another thread merges an object that it could not queue any more.\<close>

definition orphan_schedule :: "queue_action list" where
  "orphan_schedule = [Exit, Advance 0, Advance 0, Queue 2 demo_queued, Advance 2, Advance 2]"

lemma orphan_state:
  obtains s where "queue_reachable list_env 0 s" "stacks s = [[Drain_pop NeverPanic, Ex_dead], [], [Qo_merge demo_queued]]"
    "local_dead s" "queue_inner (info s) = []" "requested s = {#demo_queued#}" "merged_obs s = {#}"
proof -
  obtain s where "queue_run list_env 0 orphan_schedule demo_station = Some (Inr s)"
    "stacks s = [[Drain_pop NeverPanic, Ex_dead], [], [Qo_merge demo_queued]]" "local_dead s"
    "queue_inner (info s) = []" "requested s = {#demo_queued#}" "merged_obs s = {#}"
    by (simp add: orphan_schedule_def evaluate_queue)
  then show thesis using reachable_run that by blast
qed

theorem queue_never_fails_witness:
  "\<exists>s. queue_reachable list_env 0 s \<and> queue_act list_env 0 (Panic 2) s = Some (Inl Nounwind_abort)"
proof -
  obtain s where s: "queue_reachable list_env 0 s" "stacks s = [[Drain_pop NeverPanic, Ex_dead], [], [Qo_merge demo_queued]]"
    using orphan_state by blast
  then obtain e where e: "queue_act list_env 0 (Panic 2) s = Some (Inl e)"
    by (simp add: running_def replace_top_def)
  then show ?thesis using s(1) queue_never_fails [OF fifo_list_env s(1) e] by blast
qed

theorem merged_exclusively_witness:
  "\<exists>s. queue_reachable list_env 0 s \<and> stacks s ! 2 = [Qo_merge demo_queued]
     \<and> is_dead_or_dying (state_flag (info s)) \<and> queue_strong (info s) = 0"
proof -
  obtain s where s: "queue_reachable list_env 0 s" "stacks s = [[Drain_pop NeverPanic, Ex_dead], [], [Qo_merge demo_queued]]"
    "local_dead s"
    using orphan_state by blast
  then show ?thesis
    using merged_exclusively [OF fifo_list_env s(1), of 2 "Qo_merge demo_queued"] by (auto simp: numeral_eq_Suc)
qed


theorem queued_objects_get_merged_witness:
  "\<exists>n s s'. queue_reachable list_env 0 s \<and> queue_inner (info s) = [demo_queued]
     \<and> queue_run list_env 0 (Begin_collect NeverPanic # replicate n (Advance 0)) s = Some (Inr s')
     \<and> merged_obs s' = {#demo_queued#}"
proof -
  obtain s where s: "queue_run list_env 0 (queues 1 demo_queued) demo_station = Some (Inr s)" "idle s" "\<not> local_dead s"
    "\<not> unwound s" "queue_inner (info s) = [demo_queued]" "requested s = {#demo_queued#}"
    by (simp add: evaluate_queue idle_def)
  have r: "queue_reachable list_env 0 s" using reachable_run [OF s(1)] .
  then show ?thesis
    using queued_objects_get_merged [OF fifo_list_env r s(2-4), of NeverPanic] s(5,6) by fastforce
qed

end
