(* ===== verification/Queue_Refinement.thy ===== *)
theory Queue_Refinement
  imports Queue_Theorems Protocol_Theorems
begin

text \<open>
  The two interleaved models fit together. \<open>Protocol\<close> follows one object and leaves the queue of its
  owner to three flags; \<open>Queue_Protocol\<close> follows the queue and leaves the objects alone. Seen on one
  object, every step of the queue either changes none of the flags or is an action of \<open>Protocol\<close>, with
  the guard that \<open>Protocol\<close> puts on it. So the facts about one object hold with the real queue.
\<close>

section \<open>What one object sees\<close>

text \<open>Whether the owner's thread-local state is gone, whether its queue can be upgraded, and whether the object is in it.\<close>

type_synonym view = "bool \<times> bool \<times> bool"

definition object_view :: "('q \<Rightarrow> QueuedObject list) \<Rightarrow> QueuedObject \<Rightarrow> 'q station \<Rightarrow> view" where
  "object_view items ob s =
     (local_dead s, 0 < queue_strong (info s), ob \<in> set (items (queue_inner (info s))))"

definition state_view :: "state \<Rightarrow> view" where
  "state_view p = (owner_dead p, queue_alive p, in_queue p)"

text \<open>The thread that takes a step of the queue.\<close>

fun actor :: "nat \<Rightarrow> queue_action \<Rightarrow> thread" where
  "actor own (Advance t) = t"
| "actor own (Panic t) = t"
| "actor own (Skip t) = t"
| "actor own (Queue t _) = t"
| "actor own _ = own"

text \<open>The action of \<open>Protocol\<close> for a change of the flags by thread \<open>t\<close>.\<close>

fun counterpart :: "thread \<Rightarrow> view \<Rightarrow> view \<Rightarrow> action" where
  "counterpart t (d, q, i) (d', q', i') =
     (if d \<noteq> d' then Die else if q \<noteq> q' then Close else if i then Collect t else Step t)"

text \<open>Where the thread has to be in \<open>Protocol\<close>: about to push the object, or between operations.\<close>

fun placed :: "thread \<Rightarrow> view \<Rightarrow> view \<Rightarrow> state \<Rightarrow> bool" where
  "placed t (d, q, i) (d', q', i') p =
     (if d \<noteq> d' then pcs p t = Idle else if q \<noteq> q' then True
      else if i then pcs p t = Idle else \<exists>sid. pcs p t = Dec_push sid)"

text \<open>The changes of the flags that \<open>Protocol\<close> allows.\<close>

inductive allowed_change :: "thread \<Rightarrow> thread \<Rightarrow> view \<Rightarrow> view \<Rightarrow> bool" for own :: thread where
  unchanged: "allowed_change own t v v"
| died: "allowed_change own own (False, q, i) (True, q, i)"
| closed: "allowed_change own t (True, True, i) (True, False, i)"
| pushed: "allowed_change own t (d, True, False) (d, True, True)"
| collected: "t = own \<or> d \<Longrightarrow> allowed_change own t (d, q, True) (d, q, False)"

lemma change_is_action:
  assumes "allowed_change (owner P) t v v'" "v \<noteq> v'" "state_view p = v" "placed t v v' p"
  shows "\<exists>p'. act P (counterpart t v v') p = Some (Inr p') \<and> state_view p' = v'"
  using assms
  by cases (auto simp: state_view_def begin_op_def advance_def goto_def)

section \<open>Steps of the queue\<close>

lemma once_queued:
  assumes "station_ok items s (add_mset c M)" "count (requested s) ob \<le> 1"
  shows "count (mset (items (queue_inner (info s)))) ob + count (carried c) ob \<le> 1"
  using assms by (auto simp: station_ok_def kept_ok_def)

lemma last_release:
  assumes "station_ok items s (add_mset c M)" "holds_arc c \<or> before_release c" "queue_strong (info s) = 1"
  shows "local_dead s"
  using assms station_okD(1) [OF assms(1)] by (cases c) (auto simp: station_ok_def arcs_ok_def split: if_splits)

lemma release_change:
  assumes "station_ok items s (add_mset c M)" "holds_arc c \<or> before_release c"
  shows "allowed_change own t (object_view items ob s) (object_view items ob (snd (release_arc pol after s)))"
proof (cases "queue_strong (info s) = 1")
  case True
  then show ?thesis
    using last_release [OF assms True] by (simp add: object_view_def release_arc_def closed)
next
  case False
  moreover have "0 < queue_strong (info s)" using station_okD(5,6) [OF assms(1)] assms(2) by blast
  ultimately show ?thesis by (auto simp: object_view_def release_arc_def intro: unchanged)
qed

lemma pop_change:
  assumes "fifo E items" "station_ok items s (add_mset c M)" "count (requested s) ob \<le> 1"
    "queue_pop E (queue_inner (info s)) = Some (x, rest)" "t = own \<or> local_dead s"
  shows "allowed_change own t (object_view items ob s) (object_view items ob (set_inner rest s))"
proof -
  have i: "items (queue_inner (info s)) = x # items rest" using fifo_facts(4) [OF assms(1,4)] .
  show ?thesis
  proof (cases "x = ob")
    case True
    then have "ob \<notin> set (items rest)" using once_queued [OF assms(2,3)] i by (auto simp: count_mset_0_iff)
    then show ?thesis using True i assms(5) by (auto simp: object_view_def intro: collected)
  next
    case False
    then show ?thesis using i by (auto simp: object_view_def intro: unchanged)
  qed
qed

lemma access_change:
  assumes "fifo E items" "station_ok items s (add_mset c M)" "count (requested s) ob \<le> 1"
    "frame_access E c s = Inr (fs, s')" "for_owner c \<Longrightarrow> t = own"
  shows "allowed_change own t (object_view items ob s) (object_view items ob s')"
proof (cases c)
  case (Qo_push x)
  then have s': "s' = set_inner (queue_push E x (queue_inner (info s))) s" using assms(4) by simp
  have i: "items (queue_push E x (queue_inner (info s))) = items (queue_inner (info s)) @ [x]"
    by (rule fifo_facts(1) [OF assms(1)])
  have pos: "0 < queue_strong (info s)" using station_okD(5) [OF assms(2)] Qo_push by simp
  show ?thesis
  proof (cases "x = ob")
    case True
    then have "ob \<notin> set (items (queue_inner (info s)))"
      using once_queued [OF assms(2,3)] Qo_push by (auto simp: count_mset_0_iff)
    then show ?thesis using True i pos by (simp add: s' object_view_def pushed)
  next
    case False
    then show ?thesis using i by (auto simp: s' object_view_def intro: unchanged)
  qed
next
  case Qo_release
  then show ?thesis using assms(4) release_change [OF assms(2), of own t ob NeverPanic "[]"] by simp
next
  case (Co_release pol)
  then show ?thesis using assms(4) release_change [OF assms(2), of own t ob pol "[]"] by simp
next
  case Ex_drop
  then show ?thesis using assms(4) release_change [OF assms(2), of own t ob NeverPanic "[Ex_dead]"] by simp
next
  case (Drain_pop pol)
  then have "queue_strong (info s) = 0" using station_okD(4) [OF assms(2)] by simp
  then have "local_dead s" using assms(2) by (auto simp: station_ok_def arcs_ok_def split: if_splits)
  then show ?thesis
    using assms(4) Drain_pop pop_change [OF assms(1-3)] by (auto intro: unchanged split: option.splits)
next
  case (Co_pop pol)
  then show ?thesis
    using assms(4,5) pop_change [OF assms(1-3)] by (auto intro: unchanged split: option.splits)
qed (use assms(4) in \<open>auto simp: object_view_def exchange_flag_def intro: unchanged split: if_splits\<close>)

lemma panic_change:
  "frame_panic c s = Some (Inr (fs, s')) \<Longrightarrow> allowed_change own t (object_view items ob s) (object_view items ob s')"
  by (cases "(c, s)" rule: frame_panic.cases) (auto simp: object_view_def intro: unchanged)

lemma view_put [simp]: "object_view items ob (put_stack t fs s) = object_view items ob s"
  by (simp add: object_view_def)

lemma queue_change:
  assumes "fifo E items" "queue_reachable E own s" "queue_act E own a s = Some (Inr s')" "count (requested s) ob \<le> 1"
  shows "allowed_change own (actor own a) (object_view items ob s) (object_view items ob s')"
proof -
  note ok = queue_reachable_ok [OF assms(1,2)]
  show ?thesis
  proof (cases a)
    case (Advance t)
    then obtain fs s0 where a: "running t s" "frame_access E (hd (stacks s ! t)) s = Inr (fs, s0)"
      "s' = put_stack t (fs @ tl (stacks s ! t)) s0"
      using assms(3) by (auto simp: replace_top_def checked_simps split: if_splits)
    obtain M where M: "frames s = add_mset (hd (stacks s ! t)) M"
      using frame_in_frames [OF a(1)] by (auto dest: multi_member_split)
    have "for_owner (hd (stacks s ! t)) \<Longrightarrow> t = own"
      using ok a(1) by (auto simp: owner_ok_def running_def)
    then show ?thesis
      using access_change [OF assms(1) _ assms(4) a(2), of M t own] ok M a(3) Advance by simp
  next
    case (Panic t)
    then obtain fs s0 where "frame_panic (hd (stacks s ! t)) s = Some (Inr (fs, s0))"
      "s' = put_stack t (fs @ tl (stacks s ! t)) s0"
      using assms(3) by (auto simp: replace_top_def checked_simps split: if_splits)
    then show ?thesis using panic_change by fastforce
  next
    case Exit
    then show ?thesis using assms(3) by (auto simp: object_view_def intro: died split: if_splits)
  qed (use assms(3) in \<open>auto simp: call_def replace_top_def object_view_def intro: unchanged split: if_splits\<close>)
qed

text \<open>
  C17. The queue does to an object what the model of one object assumes, for an object that was handed
  to \<open>queue_object\<close> at most once. A step of the interleaved queue that changes what the object sees of it
  is one of four, with what \<open>Protocol\<close> requires of the queue, the owner and the acting thread: the owner
  ends, once; the queue goes away, after the owner; the object is pushed into a queue that is still there, and was
  not in it; or it is taken out, by the owner, or by anyone after the owner's end. And wherever
  the object is in \<open>Protocol\<close>, with the same view of the queue, the corresponding action is possible and
  has the same effect on the view, given that the acting thread is at the corresponding point of its
  program there: about to push for a push, between operations for the owner's end and for taking the object out.
\<close>

theorem queue_refines_protocol:
  assumes "fifo E items" "queue_reachable E (owner P) s" "queue_act E (owner P) a s = Some (Inr s')"
    "count (requested s) ob \<le> 1" "object_view items ob s \<noteq> object_view items ob s'"
  shows "(case (object_view items ob s, object_view items ob s') of ((d, q, i), (d', q', i')) \<Rightarrow>
      actor (owner P) a = owner P \<and> \<not> d \<and> d' \<and> q' = q \<and> i' = i
      \<or> d \<and> q \<and> d' \<and> \<not> q' \<and> i' = i
      \<or> q \<and> \<not> i \<and> d' = d \<and> q' \<and> i'
      \<or> (actor (owner P) a = owner P \<or> d) \<and> i \<and> d' = d \<and> q' = q \<and> \<not> i')
    \<and> (\<forall>p. state_view p = object_view items ob s
        \<and> placed (actor (owner P) a) (object_view items ob s) (object_view items ob s') p \<longrightarrow>
      (\<exists>p'. act P (counterpart (actor (owner P) a) (object_view items ob s) (object_view items ob s')) p = Some (Inr p')
        \<and> state_view p' = object_view items ob s'))"
proof -
  note ch = queue_change [OF assms(1-4)]
  from ch assms(5) have "case (object_view items ob s, object_view items ob s') of ((d, q, i), (d', q', i')) \<Rightarrow>
      actor (owner P) a = owner P \<and> \<not> d \<and> d' \<and> q' = q \<and> i' = i
      \<or> d \<and> q \<and> d' \<and> \<not> q' \<and> i' = i
      \<or> q \<and> \<not> i \<and> d' = d \<and> q' \<and> i'
      \<or> (actor (owner P) a = owner P \<or> d) \<and> i \<and> d' = d \<and> q' = q \<and> \<not> i'"
    by cases auto
  then show ?thesis using change_is_action [OF ch assms(5)] by blast
qed

theorem queue_refines_protocol_witness:
  "\<exists>s s' p'. queue_reachable list_env 0 s \<and> queue_act list_env 0 (Advance 1) s = Some (Inr s')
     \<and> queue_inner (info s') = [demo_queued] 
     \<and> act duo (Step 1) (goto 1 (Dec_push sid1) (start duo)) = Some (Inr p') \<and> in_queue p'"
proof -
  let ?p = "goto 1 (Dec_push sid1) (start duo)"
  have o': "owner duo = 0" by (simp add: duo_def)
  obtain s where s: "queue_run list_env 0 [Queue 1 demo_queued, Advance 1] demo_station = Some (Inr s)"
    "stacks s = [[], [Qo_push demo_queued], []]" "\<not> local_dead s" "queue_strong (info s) = 2" "queue_inner (info s) = []"
    "requested s = {#demo_queued#}"
    by (simp add: evaluate_queue)
  have r: "queue_reachable list_env (owner duo) s" using reachable_run [OF s(1)] o' by simp
  obtain s' where s': "queue_act list_env (owner duo) (Advance 1) s = Some (Inr s')" "\<not> local_dead s'"
    "queue_strong (info s') = 2" "queue_inner (info s') = [demo_queued]"
    using s by (auto simp: o' running_def replace_top_def put_stack_def set_inner_def list_env_def)
  have v: "object_view (\<lambda>q. q) demo_queued s = (False, True, False)" "object_view (\<lambda>q. q) demo_queued s' = (False, True, True)"
    using s s' by (simp_all add: object_view_def)
  have "state_view ?p = (False, True, False)" by (simp add: state_view_def goto_def start_def)
  moreover have "actor (owner duo) (Advance 1) = 1" "pcs ?p 1 = Dec_push sid1" by (simp_all add: goto_def)
  moreover have "count (requested s) demo_queued \<le> 1" using s(6) by simp
  ultimately obtain p' where "act duo (Step 1) ?p = Some (Inr p')" "state_view p' = (False, True, True)"
    using queue_refines_protocol [OF fifo_list_env r s'(1), of demo_queued] by (auto simp: v simp del: act.simps)
  then show ?thesis
    using r s'(1,4) unfolding o' by (auto simp: state_view_def simp del: act.simps queue_act.simps)
qed

end
