(* ===== verification/Brc_Pointers.thy ===== *)
theory Brc_Pointers
  imports Collector
begin

text \<open>
  The strong pointer \<open>Brc\<close> (\<open>strong.rs\<close>): construction, cloning, dropping, the counts, exclusive
  access and raw pointers. A \<open>Brc\<close> is the address of its value and the pointer metadata; the header
  is found from it through the layout. Borrowed and owned arguments are the same here: that a
  consumed pointer is not used again is what Rust guarantees.
\<close>

record Brc =
  value_ptr :: int
  meta :: metadata

section \<open>Raw pointers\<close>

definition Brc_from_raw :: "int \<Rightarrow> metadata \<Rightarrow> Brc" where
  "Brc_from_raw p m = \<lparr>value_ptr = p, meta = m\<rparr>"

definition Brc_into_raw :: "Brc \<Rightarrow> int \<times> metadata" where
  "Brc_into_raw b = (value_ptr b, meta b)"

definition Brc_as_ptr :: "Brc \<Rightarrow> int \<times> metadata" where
  "Brc_as_ptr b = (value_ptr b, meta b)"

text \<open>
  With an allocator: \<open>from_raw_in\<close> drops the one it is given, as the object keeps its own, and
  \<open>into_raw_with_allocator\<close> clones the one of the object. Both may run user code.
\<close>

definition Brc_from_raw_in :: "('q, 'v, unit) action \<Rightarrow> int \<Rightarrow> metadata \<Rightarrow> ('q, 'v, Brc) action" where
  "Brc_from_raw_in drop_alloc p m w = bind_outcome (drop_alloc w) (\<lambda>_. Return (Brc_from_raw p m))"

definition Brc_into_raw_with_allocator ::
  "('q, 'v, 'al) action \<Rightarrow> Brc \<Rightarrow> ('q, 'v, (int \<times> metadata) \<times> 'al) action" where
  "Brc_into_raw_with_allocator clone_alloc b w =
     bind_outcome (clone_alloc w) (\<lambda>al. Return ((value_ptr b, meta b), al))"

text \<open>\<open>get_mut_unchecked\<close>: the address of the value, to be written through.\<close>

definition Brc_get_mut_unchecked :: "Brc \<Rightarrow> int" where
  "Brc_get_mut_unchecked b = value_ptr b"

text \<open>\<open>ptr_eq\<close> compares addresses only.\<close>

definition Brc_ptr_eq :: "Brc \<Rightarrow> Brc \<Rightarrow> bool" where
  "Brc_ptr_eq b c \<longleftrightarrow> fst (Brc_as_ptr b) = fst (Brc_as_ptr c)"

section \<open>From the value to the header\<close>

definition Brc_layout :: "('q, 'v) env \<Rightarrow> Brc \<Rightarrow> LayoutInfo checked" where
  "Brc_layout E b = or_fault Unchecked_violation (LayoutInfo_new (allocator_layout E) (layout_for E (meta b)))"

definition header_ptr_for :: "int \<Rightarrow> LayoutInfo \<Rightarrow> addr" where
  "header_ptr_for p info = nat (p + header_offset info)"

definition Brc_header_ptr :: "('q, 'v) env \<Rightarrow> Brc \<Rightarrow> addr checked" where
  "Brc_header_ptr E b = bind_checked (Brc_layout E b) (\<lambda>info. Inr (header_ptr_for (value_ptr b) info))"

definition Brc_object :: "('q, 'v) env \<Rightarrow> Brc \<Rightarrow> ('q, 'v, 'v object) action" where
  "Brc_object E b w = bind_outcome (lift_checked (Brc_header_ptr E b) w) load"

text \<open>\<open>Deref\<close>: the value, which must still be there.\<close>

definition Brc_deref :: "('q, 'v) env \<Rightarrow> Brc \<Rightarrow> ('q, 'v, 'v) action" where
  "Brc_deref E b w =
     bind_outcome (Brc_object E b w) (\<lambda>ob w.
       case contents ob of Some v \<Rightarrow> Return v w | None \<Rightarrow> Halt Use_after_free)"

section \<open>Construction\<close>

text \<open>
  \<open>alloc_with_in\<close>: collect, compute the layout, allocate, build the header, count one weak
  reference, let the callback write the value, and keep the allocator. When the callback panics and
  the policy provides a guard, the memory is given back.
\<close>

definition alloc_with_in ::
  "('q, 'v) env \<Rightarrow> unwind_policy \<Rightarrow> thread \<Rightarrow> Layout \<Rightarrow> metadata \<Rightarrow> ('q, 'v, 'v) action \<Rightarrow> ('q, 'v, Brc) action" where
  "alloc_with_in E pol t layout m func w =
     bind_outcome (if no_implicit_collect E then Return () w else collect_implicit E t w) (\<lambda>_ w.
     bind_outcome (LayoutInfo_new_or_panic (allocator_layout E) layout w) (\<lambda>info w.
       case allocate E (full_layout info) w of
         None \<Rightarrow> Halt Alloc_error
       | Some a \<Rightarrow>
           (case init (queue_new E) (next_index E (threads w)) t w of
              Inl e \<Rightarrow> Halt e
            | Inr (h, w) \<Rightarrow>
                (let w = store a \<lparr>strong = h, weak_count = 1, contents = None, block = full_layout info\<rparr> w in
                 case func w of
                   Return v w \<Rightarrow>
                     bind_outcome (load a w) (\<lambda>ob w.
                       Return (Brc_from_raw (int a + value_offset info) m) (store a (ob\<lparr>contents := Some v\<rparr>) w))
                 | Unwind w \<Rightarrow>
                     if may_unwind E pol
                     then bind_outcome (deallocate a (full_layout info) w) (\<lambda>_ w. Unwind w)
                     else Unwind w
                 | Halt e \<Rightarrow> Halt e))))"

text \<open>\<open>Brc::new\<close> and \<open>Brc::new_in\<close>: the callback cannot panic, so there is no guard.\<close>

definition Brc_new_in :: "('q, 'v) env \<Rightarrow> thread \<Rightarrow> 'v \<Rightarrow> ('q, 'v, Brc) action" where
  "Brc_new_in E t v = alloc_with_in E NeverPanic t (layout_for E Thin) Thin (Return v)"

definition Brc_new :: "('q, 'v) env \<Rightarrow> thread \<Rightarrow> 'v \<Rightarrow> ('q, 'v, Brc) action" where
  "Brc_new E t v = Brc_new_in E t v"

definition Brc_new_with_in :: "('q, 'v) env \<Rightarrow> thread \<Rightarrow> ('q, 'v, 'v) action \<Rightarrow> ('q, 'v, Brc) action" where
  "Brc_new_with_in E t func = alloc_with_in E MayPanic t (layout_for E Thin) Thin func"

definition Brc_new_with :: "('q, 'v) env \<Rightarrow> thread \<Rightarrow> ('q, 'v, 'v) action \<Rightarrow> ('q, 'v, Brc) action" where
  "Brc_new_with E t func = alloc_with_in E MayPanic t (layout_for E Thin) Thin func"

text \<open>\<open>Pin\<close> is transparent.\<close>

definition Brc_pin_in :: "('q, 'v) env \<Rightarrow> thread \<Rightarrow> 'v \<Rightarrow> ('q, 'v, Brc) action" where
  "Brc_pin_in E t v = Brc_new_in E t v"

definition Brc_pin :: "('q, 'v) env \<Rightarrow> thread \<Rightarrow> 'v \<Rightarrow> ('q, 'v, Brc) action" where
  "Brc_pin E t v = Brc_pin_in E t v"

section \<open>Cloning\<close>

definition Brc_clone_no_collect :: "('q, 'v) env \<Rightarrow> thread \<Rightarrow> Brc \<Rightarrow> ('q, 'v, Brc) action" where
  "Brc_clone_no_collect E t b w =
     bind_outcome (lift_checked (Brc_header_ptr E b) w) (\<lambda>a w.
     bind_outcome (my_short_id t w) (\<lambda>me w.
     bind_outcome (on_header a (\<lambda>h. bind_checked (increment_strong (debug_assertions E) me h) (\<lambda>h. Inr ((), h))) w)
       (\<lambda>_ w. Return (Brc_from_raw (value_ptr b) (meta b)) w)))"

definition Brc_clone :: "('q, 'v) env \<Rightarrow> thread \<Rightarrow> Brc \<Rightarrow> ('q, 'v, Brc) action" where
  "Brc_clone E t b w =
     bind_outcome (if no_implicit_collect_clone E then Return () w else collect_implicit E t w)
       (\<lambda>_. Brc_clone_no_collect E t b)"

definition Brc_clone_shared :: "('q, 'v) env \<Rightarrow> Brc \<Rightarrow> ('q, 'v, Brc) action" where
  "Brc_clone_shared E b w =
     bind_outcome (lift_checked (Brc_header_ptr E b) w) (\<lambda>a w.
     bind_outcome (on_header a (\<lambda>h. bind_checked (increment_strong_shared (shared_word h))
         (\<lambda>raw. Inr ((), h\<lparr>shared_word := raw\<rparr>))) w)
       (\<lambda>_ w. Return (Brc_from_raw (value_ptr b) (meta b)) w))"

section \<open>Dropping\<close>

definition drop_no_collect_in_place :: "('q, 'v) env \<Rightarrow> thread \<Rightarrow> Brc \<Rightarrow> ('q, 'v, unit) action" where
  "drop_no_collect_in_place E t b w =
     bind_outcome (lift_checked (Brc_layout E b) w) (\<lambda>info w.
       let a = header_ptr_for (value_ptr b) info in
       bind_outcome (decrement_strong_at E t a (meta b) (value_offset info) w) (\<lambda>should_drop w.
         if should_drop then drop_context_dealloc E (meta b) (value_offset info) a w else Return () w))"

definition Brc_drop_no_collect :: "('q, 'v) env \<Rightarrow> thread \<Rightarrow> Brc \<Rightarrow> ('q, 'v, unit) action" where
  "Brc_drop_no_collect E t b = drop_no_collect_in_place E t b"

definition Brc_drop :: "('q, 'v) env \<Rightarrow> thread \<Rightarrow> Brc \<Rightarrow> ('q, 'v, unit) action" where
  "Brc_drop E t b w =
     bind_outcome (if no_implicit_collect_drop E then Return () w else collect_implicit E t w)
       (\<lambda>_. drop_no_collect_in_place E t b)"

definition Brc_increment_strong_count :: "('q, 'v) env \<Rightarrow> thread \<Rightarrow> int \<Rightarrow> metadata \<Rightarrow> ('q, 'v, unit) action" where
  "Brc_increment_strong_count E t p m w =
     bind_outcome (Brc_clone_no_collect E t (Brc_from_raw p m) w) (\<lambda>_ w. Return () w)"

definition Brc_decrement_strong_count :: "('q, 'v) env \<Rightarrow> thread \<Rightarrow> int \<Rightarrow> metadata \<Rightarrow> ('q, 'v, unit) action" where
  "Brc_decrement_strong_count E t p m = Brc_drop_no_collect E t (Brc_from_raw p m)"

section \<open>Counts\<close>

definition Brc_strong_count :: "('q, 'v) env \<Rightarrow> thread \<Rightarrow> Brc \<Rightarrow> ('q, 'v, ImpreciseRefCountError + 64 word) action" where
  "Brc_strong_count E t b w =
     bind_outcome (Brc_object E b w) (\<lambda>ob w.
     bind_outcome (my_short_id t w) (\<lambda>me.
     lift_checked (strong_count (debug_assertions E) me (strong ob))))"

text \<open>The weak count without the one that all strong references share.\<close>

definition Brc_weak_count :: "('q, 'v) env \<Rightarrow> Brc \<Rightarrow> ('q, 'v, ImpreciseRefCountError + 64 word) action" where
  "Brc_weak_count E b w =
     bind_outcome (Brc_object E b w) (\<lambda>ob w.
       if weak_count ob = WEAK_LOCKED_COUNT then Return (Inr 0) w
       else if weak_count ob = 0 \<and> debug_assertions E then Unwind w
       else Return (Inr (ucast (weak_count ob - 1))) w)"

definition Brc_biased_and_shared_counts ::
  "('q, 'v) env \<Rightarrow> thread \<Rightarrow> Brc \<Rightarrow> ('q, 'v, (BiasedCountError + 64 word) \<times> int) action" where
  "Brc_biased_and_shared_counts E t b w =
     bind_outcome (Brc_object E b w) (\<lambda>ob w.
     bind_outcome (my_short_id t w) (\<lambda>me w.
     Return (biased_count_result me (strong ob), shared_count_result (strong ob)) w))"

section \<open>Exclusive access\<close>

text \<open>\<open>Brc::is_unique\<close>: a quick negative answer, then the count under the lock of the weak count.\<close>

definition Brc_is_unique :: "('q, 'v) env \<Rightarrow> thread \<Rightarrow> Brc \<Rightarrow> ('q, 'v, bool) action" where
  "Brc_is_unique E t b w =
     bind_outcome (lift_checked (Brc_header_ptr E b) w) (\<lambda>a w.
     bind_outcome (my_short_id t w) (\<lambda>me w.
     bind_outcome (load a w) (\<lambda>ob w.
       if is_definitely_not_unique me (biased_word (strong ob)) then Return False w
       else if weak_count ob = 1 then
         (let w = store a (ob\<lparr>weak_count := WEAK_LOCKED_COUNT\<rparr>) w in
          bind_outcome (load a w) (\<lambda>ob w.
          bind_outcome (lift_checked (is_unique (debug_assertions E) me (strong ob)) w) (\<lambda>actually_unique w.
          Return actually_unique (store a (ob\<lparr>weak_count := 1\<rparr>) w))))
       else Return False w)))"

text \<open>\<open>get_mut\<close>: the address of the value that may be written through, if any.\<close>

definition Brc_get_mut :: "('q, 'v) env \<Rightarrow> thread \<Rightarrow> Brc \<Rightarrow> ('q, 'v, int option) action" where
  "Brc_get_mut E t b w =
     bind_outcome (Brc_is_unique E t b w) (\<lambda>unique w.
       Return (if unique then Some (Brc_get_mut_unchecked b) else None) w)"

text \<open>
  \<open>make_mut\<close>: clones the value into a new object when this one is not known to be unique, and lets the
  pointer refer to that. The assignment drops what the pointer referred to before; should this panic,
  the pointer has its new value nevertheless.
\<close>

definition make_mut_copy ::
  "('q, 'v) env \<Rightarrow> thread \<Rightarrow> ('v \<Rightarrow> ('q, 'v, 'v) action) \<Rightarrow> Brc \<Rightarrow> ('q, 'v, Brc option) action" where
  "make_mut_copy E t clone_value b w =
     bind_outcome (Brc_is_unique E t b w) (\<lambda>unique w.
       if unique then Return None w
       else
         bind_outcome (Brc_deref E b w) (\<lambda>v w.
         bind_outcome (Brc_new_with_in E t (clone_value v) w) (\<lambda>b'. Return (Some b'))))"

definition Brc_make_mut ::
  "('q, 'v) env \<Rightarrow> thread \<Rightarrow> ('v \<Rightarrow> ('q, 'v, 'v) action) \<Rightarrow> Brc \<Rightarrow> ('q, 'v, Brc) action" where
  "Brc_make_mut E t clone_value b w =
     bind_outcome (make_mut_copy E t clone_value b w) (\<lambda>copy w.
       case copy of
         None \<Rightarrow> Return b w
       | Some b' \<Rightarrow> bind_outcome (Brc_drop E t b w) (\<lambda>_ w. Return b' w))"

text \<open>
  \<open>try_unwrap\<close>: reads the value out of a unique object; the object itself stays as it is, with a
  strong reference that nobody owns any more.
\<close>

definition Brc_try_unwrap :: "('q, 'v) env \<Rightarrow> thread \<Rightarrow> Brc \<Rightarrow> ('q, 'v, Brc + 'v) action" where
  "Brc_try_unwrap E t b w =
     bind_outcome (Brc_is_unique E t b w) (\<lambda>unique w.
       if unique then
         bind_outcome (lift_checked (Brc_header_ptr E b) w) (\<lambda>a w.
         bind_outcome (Brc_deref E b w) (\<lambda>v w.
         bind_outcome (load a w) (\<lambda>ob w.
         Return (Inr v) (store a (ob\<lparr>contents := None\<rparr>) w))))
       else Return (Inl b) w)"

text \<open>\<open>try_unwrap(..).ok()\<close>: a pointer that comes back is dropped.\<close>

definition Brc_into_inner :: "('q, 'v) env \<Rightarrow> thread \<Rightarrow> Brc \<Rightarrow> ('q, 'v, 'v option) action" where
  "Brc_into_inner E t b w =
     bind_outcome (Brc_try_unwrap E t b w) (\<lambda>r w.
       case r of
         Inr v \<Rightarrow> Return (Some v) w
       | Inl b \<Rightarrow> bind_outcome (Brc_drop E t b w) (\<lambda>_ w. Return None w))"

end
