(* ===== verification/Weak_Pointers.thy ===== *)
theory Weak_Pointers
  imports Brc_Pointers
begin

text \<open>
  The weak pointer (\<open>weak.rs\<close>) and \<open>Brc::downgrade\<close>. A \<open>Weak\<close> holds the address where the value
  is or was, or the reserved address \<open>usize::MAX\<close> of \<open>Weak::new\<close>, which refers to no object.
\<close>

record Weak =
  value_ptr_or_reserved :: int
  weak_meta :: metadata

section \<open>Finding the header\<close>

definition Weak_from_raw :: "int \<Rightarrow> metadata \<Rightarrow> Weak" where
  "Weak_from_raw p m = \<lparr>value_ptr_or_reserved = p, weak_meta = m\<rparr>"

definition Weak_into_raw :: "Weak \<Rightarrow> int \<times> metadata" where
  "Weak_into_raw b = (value_ptr_or_reserved b, weak_meta b)"

definition Weak_new :: Weak where
  "Weak_new = Weak_from_raw (int usize_MAX) Thin"

text \<open>\<open>Default\<close>.\<close>

definition Weak_default :: Weak where
  "Weak_default = Weak_new"

definition Weak_ptr_eq :: "Weak \<Rightarrow> Weak \<Rightarrow> bool" where
  "Weak_ptr_eq b c \<longleftrightarrow> value_ptr_or_reserved b = value_ptr_or_reserved c"

text \<open>\<open>Weak::real\<close>: \<open>None\<close> for the reserved value; a debug build checks that the address is even.\<close>

definition Weak_real :: "bool \<Rightarrow> Weak \<Rightarrow> Weak option checked" where
  "Weak_real dbg b =
     (if value_ptr_or_reserved b \<noteq> int usize_MAX
      then bind_checked (debug_assert dbg (even (value_ptr_or_reserved b))) (\<lambda>_. Inr (Some b))
      else Inr None)"

text \<open>\<open>WeakReal\<close>: the layout comes from the metadata, as the value may be gone.\<close>

definition WeakReal_layout_info :: "('q, 'v) env \<Rightarrow> Weak \<Rightarrow> LayoutInfo checked" where
  "WeakReal_layout_info E b =
     or_fault Unchecked_violation (LayoutInfo_new (allocator_layout E) (layout_for E (weak_meta b)))"

definition WeakReal_header_ptr :: "('q, 'v) env \<Rightarrow> Weak \<Rightarrow> addr checked" where
  "WeakReal_header_ptr E b =
     bind_checked (WeakReal_layout_info E b) (\<lambda>info. Inr (header_ptr_for (value_ptr_or_reserved b) info))"

text \<open>What an operation does for a real pointer, and otherwise.\<close>

definition on_real ::
  "('q, 'v) env \<Rightarrow> Weak \<Rightarrow> 'a \<Rightarrow> (addr \<Rightarrow> ('q, 'v, 'a) action) \<Rightarrow> ('q, 'v, 'a) action" where
  "on_real E b dummy f w =
     bind_outcome (lift_checked (Weak_real (debug_assertions E) b) w) (\<lambda>r w.
       case r of
         None \<Rightarrow> Return dummy w
       | Some b \<Rightarrow> bind_outcome (lift_checked (WeakReal_header_ptr E b) w) f)"

section \<open>Counts\<close>

definition Weak_strong_count :: "('q, 'v) env \<Rightarrow> thread \<Rightarrow> Weak \<Rightarrow> ('q, 'v, ImpreciseRefCountError + 64 word) action" where
  "Weak_strong_count E t b =
     on_real E b (Inr 0) (\<lambda>a w.
       bind_outcome (load a w) (\<lambda>ob w.
       bind_outcome (my_short_id t w) (\<lambda>me.
       lift_checked (strong_count (debug_assertions E) me (strong ob)))))"

definition Weak_weak_count :: "('q, 'v) env \<Rightarrow> thread \<Rightarrow> Weak \<Rightarrow> ('q, 'v, ImpreciseRefCountError + 64 word) action" where
  "Weak_weak_count E t b =
     on_real E b (Inr 0) (\<lambda>a w.
       bind_outcome (load a w) (\<lambda>ob w.
       bind_outcome (my_short_id t w) (\<lambda>me w.
       bind_outcome (lift_checked (strong_count (debug_assertions E) me (strong ob)) w) (\<lambda>r w.
         if r = Inr 0 then Return (Inr 0) w
         else if r = Inl (ImpreciseRefCountError 0) then Return (Inl (ImpreciseRefCountError 0)) w
         else if weak_count ob = 0 then Unwind w
         else Return (Inr (ucast (weak_count ob - 1))) w))))"

section \<open>Upgrading, cloning, dropping\<close>

definition Weak_upgrade :: "('q, 'v) env \<Rightarrow> thread \<Rightarrow> Weak \<Rightarrow> ('q, 'v, Brc option) action" where
  "Weak_upgrade E t b =
     on_real E b None (\<lambda>a w.
       bind_outcome (my_short_id t w) (\<lambda>me w.
       bind_outcome (on_header a (\<lambda>h.
           bind_checked (increment_strong_unless_zero (debug_assertions E) me [] h) (\<lambda>r.
             Inr (case r of Inr h' \<Rightarrow> (True, h') | Inl ZeroReferenceCountError \<Rightarrow> (False, h)))) w) (\<lambda>upgraded w.
       Return (if upgraded then Some (Brc_from_raw (value_ptr_or_reserved b) (weak_meta b)) else None) w)))"

definition Weak_clone :: "('q, 'v) env \<Rightarrow> Weak \<Rightarrow> ('q, 'v, Weak) action" where
  "Weak_clone E b =
     on_real E b b (\<lambda>a w.
       bind_outcome (load a w) (\<lambda>ob w.
         if weak_count ob > WEAK_OVERFLOW_THRESHOLD then Halt (Fatal Weak_refcnt_overflow)
         else Return b (store a (ob\<lparr>weak_count := weak_count ob + 1\<rparr>) w)))"

definition Weak_drop :: "('q, 'v) env \<Rightarrow> Weak \<Rightarrow> ('q, 'v, unit) action" where
  "Weak_drop E b =
     on_real E b () (\<lambda>a w.
       bind_outcome (lift_checked (WeakReal_layout_info E b) w) (\<lambda>info. drop_weak a info))"

text \<open>
  \<open>Brc::downgrade\<close>. While the count is locked it spins; nobody else can release the lock in a
  sequential run, so that is divergence here (the interleaved model treats the waiting).
\<close>

definition Brc_downgrade :: "('q, 'v) env \<Rightarrow> Brc \<Rightarrow> ('q, 'v, Weak) action" where
  "Brc_downgrade E b w =
     bind_outcome (lift_checked (Brc_header_ptr E b) w) (\<lambda>a w.
     bind_outcome (load a w) (\<lambda>ob w.
       if weak_count ob = WEAK_LOCKED_COUNT then Halt Diverges
       else if weak_count ob > WEAK_OVERFLOW_THRESHOLD then Halt (Fatal Weak_refcnt_overflow)
       else Return (Weak_from_raw (value_ptr b) (meta b)) (store a (ob\<lparr>weak_count := weak_count ob + 1\<rparr>) w)))"

end
