(* ===== verification/Pointer_Facts.thy ===== *)
theory Pointer_Facts
  imports Weak_Pointers Collector_Facts
begin

text \<open>
  What the operations on \<open>Brc\<close> and \<open>Weak\<close> do to the object they point to, on every branch, when no
  other thread interferes: the counts change by one, the value is destroyed with the last strong
  reference, the memory is freed with the last reference of either kind, and an object whose count
  another thread brings below zero goes to its owner's queue.
\<close>

section \<open>Pointers and objects\<close>

definition points_to :: "('q, 'v) env \<Rightarrow> Brc \<Rightarrow> addr \<Rightarrow> 'v object \<Rightarrow> bool" where
  "points_to E b a ob \<longleftrightarrow> typed E (meta b) (value_ptr b - int a) ob"

lemma points_to_info:
  assumes "points_to E b a ob"
  shows "\<exists>info. LayoutInfo_new (allocator_layout E) (layout_for E (meta b)) = Some info
     \<and> value_ptr b = int a + value_offset info \<and> block ob = full_layout info
     \<and> Brc_layout E b = Inr info \<and> header_ptr_for (value_ptr b) info = a \<and> Brc_header_ptr E b = Inr a"
  using typed_info [OF assms [unfolded points_to_def]]
  by (auto simp: Brc_layout_def Brc_header_ptr_def header_ptr_for_def header_offset_def)

lemma points_to_update [simp]:
  "points_to E b a (ob\<lparr>strong := h\<rparr>) = points_to E b a ob"
  "points_to E b a (ob\<lparr>weak_count := n\<rparr>) = points_to E b a ob"
  by (simp_all add: points_to_def)

text \<open>The object, the header it has, and the caller's answer from \<open>existing_short_id\<close>.\<close>

definition at_object ::
  "('q, 'v) env \<Rightarrow> thread \<Rightarrow> Brc \<Rightarrow> ('q, 'v) world \<Rightarrow> addr \<Rightarrow> 'v object \<Rightarrow> access \<Rightarrow> bool" where
  "at_object E t b w a ob me \<longleftrightarrow> heap w a = Some ob \<and> points_to E b a ob \<and> header_ok (strong ob)
     \<and> existing_short_id t w = Inr me"

lemma at_objectD:
  assumes "at_object E t b w a ob me"
  shows "heap w a = Some ob" "points_to E b a ob" "header_ok (strong ob)" "my_short_id t w = Return me w"
    "Brc_header_ptr E b = Inr a"
  using assms points_to_info [of E b a ob] by (auto simp: at_object_def my_short_id_def)

section \<open>Cloning\<close>

text \<open>
  \<open>Brc::clone\<close> gives the same pointer and counts one reference more, and changes nothing else,
  unless the shared count is \<open>-1\<close> (where the addition carries into the flags) or too large.
\<close>

theorem clone_counts_one:
  assumes "at_object E t b w a ob me" "carry_free (strong ob)" "shared_value (strong ob) < 2 ^ 60"
  shows "\<exists>h. Brc_clone_no_collect E t b w = Return b (store a (ob\<lparr>strong := h\<rparr>) w)
    \<and> header_ok h \<and> logical_count h = logical_count (strong ob) + 1"
proof -
  note A = at_objectD [OF assms(1)]
  obtain h where h: "increment_strong (debug_assertions E) me (strong ob) = Inr h"
    using increment_strong_error [OF A(3), of "debug_assertions E" me] assms(3)
    by (cases "increment_strong (debug_assertions E) me (strong ob)") auto
  show ?thesis
    using increment_strong_ok [OF A(3) assms(2) h] A h
    by (auto simp: Brc_clone_no_collect_def on_header_def Brc_from_raw_def)
qed

text \<open>The same for \<open>clone_shared\<close>, which never touches the biased count.\<close>

lemma clone_shared_counts_one:
  assumes "at_object E t b w a ob me" "carry_free (strong ob)" "shared_value (strong ob) < 2 ^ 60"
  shows "\<exists>h. Brc_clone_shared E b w = Return b (store a (ob\<lparr>strong := h\<rparr>) w) \<and> header_ok h
    \<and> logical_count h = logical_count (strong ob) + 1 \<and> biased_word h = biased_word (strong ob)"
proof -
  note A = at_objectD [OF assms(1)]
  have raw: "increment_strong_shared (shared_word (strong ob)) = Inr (shared_word (strong ob) + 1)"
    using assms(3) by (simp add: increment_strong_shared_Inr)
  obtain c where "SharedWord_from_raw (shared_word (strong ob) + 1) = (shared_of (strong ob))\<lparr>shared_count := c\<rparr>"
    "SharedCount_value c = shared_value (strong ob) + 1"
    using shared_after_fetch_add [of "shared_word (strong ob)"] assms(2,3) by (auto simp: carry_free_def)
  from header_ok_shared_bump [OF A(3) this] show ?thesis
    using A raw by (auto simp: Brc_clone_shared_def on_header_def Brc_from_raw_def)
qed

section \<open>Dropping\<close>

lemma decrement_at:
  assumes "at_object E t b w a ob me" "0 < logical_count (strong ob)"
  shows "\<exists>r h. decrement_strong (debug_assertions E) me [] (strong ob) = Inr (r, h) \<and> decrement_post (strong ob) r h
    \<and> on_header a (decrement_strong (debug_assertions E) me []) w = Return r (store a (ob\<lparr>strong := h\<rparr>) w)"
  using decrement_strong_ok [of "strong ob" "debug_assertions E" me] assms at_objectD [OF assms(1)]
  by (auto simp: on_header_def)

text \<open>The part of a drop that hands the object to its owner's queue does not happen.\<close>

definition drops_directly :: "access \<Rightarrow> RawBrcHeader \<Rightarrow> bool" where
  "drops_directly me h \<longleftrightarrow> merged (shared_of h) \<or> queued (shared_of h) \<or> 0 < shared_value h
     \<or> owner_id (biased_of h) = result_ok me"

lemma decrement_not_queued:
  assumes "header_ok h" "drops_directly me h" "decrement_strong dbg me [] h = Inr (r, h')" "decrement_post h r h'"
  shows "r = Shared_done (is_dead h')"
proof (cases r)
  case (Shared_done d)
  then show ?thesis using assms(4) by (simp add: decrement_post_def)
next
  case Do_queue
  then have q: "\<not> queued (shared_of h)" "\<not> merged (shared_of h')" "shared_value h' = - 1"
    "header_ok h'" "logical_count h' = logical_count h - 1"
    using assms(4) by (simp_all add: decrement_post_def)
  obtain x where x: "decrement_biased dbg me h = Inr x"
    using assms(3) by (auto simp: decrement_strong_def checked_simps)
  have "x = None" using assms(3) Do_queue x by (cases x) (auto simp: decrement_strong_def)
  then have bn: "decrement_biased dbg me h = Inr None" using x by simp
  then obtain y where y: "decrement_biased_next dbg me (biased_word h) = Inr y"
    by (auto simp: decrement_biased_def checked_simps)
  have "y = None"
    using bn y by (auto simp: decrement_biased_def checked_simps split: option.split_asm biased_decrement.split_asm)
  then have b: "decrement_biased_next dbg me (biased_word h) = Inr None" using y by simp
  have sh: "decrement_shared dbg [] h = Inr (Do_queue, h')"
    using assms(3) Do_queue bn by (simp add: decrement_strong_def)
  then obtain raw where raw: "decrement_shared_next (shared_word h) = Inr raw" "h' = h\<lparr>shared_word := raw\<rparr>"
    by (auto simp: decrement_shared_def checked_simps)
  then have "merged (shared_of h') = merged (shared_of h)" "shared_value h' = shared_value h - 1"
    using decrement_shared_next_Inr [OF raw(1)] by auto
  then have um: "\<not> merged (shared_of h)" "shared_value h = 0" using q by auto
  then have "owner_id (biased_of h) = result_ok me" using assms(2) q(1) by (simp add: drops_directly_def)
  moreover have "owner_id (biased_of h) \<noteq> None" using assms(1) um by (simp add: header_ok_def)
  ultimately have False using decrement_biased_next_None [OF b] by (cases me) auto
  then show ?thesis ..
qed

lemma dead_after:
  assumes "decrement_post h r h'" "drops_directly me h" "r = Shared_done (is_dead h')"
    "decrement_strong dbg me [] h = Inr (r, h')" "header_ok h"
  shows "is_dead h' \<Longrightarrow> logical_count h = 1"
  using assms(1) header_ok_dead [of h'] by (simp add: decrement_post_def)

text \<open>
  Dropping a reference that is not the last one only counts one less: the value, the weak count
  and everything else stay as they are.
\<close>

theorem drop_not_last:
  assumes "at_object E t b w a ob me" "1 < logical_count (strong ob)" "drops_directly me (strong ob)"
  shows "\<exists>h. Brc_drop_no_collect E t b w = Return () (store a (ob\<lparr>strong := h\<rparr>) w)
    \<and> header_ok h \<and> logical_count h = logical_count (strong ob) - 1"
proof -
  note A = at_objectD [OF assms(1)]
  obtain r h where r: "decrement_strong (debug_assertions E) me [] (strong ob) = Inr (r, h)"
    "decrement_post (strong ob) r h"
    "on_header a (decrement_strong (debug_assertions E) me []) w = Return r (store a (ob\<lparr>strong := h\<rparr>) w)"
    using decrement_at [OF assms(1)] assms(2) by auto
  have d: "r = Shared_done (is_dead h)" by (rule decrement_not_queued [OF A(3) assms(3) r(1,2)])
  then have nd: "\<not> is_dead h"
    using dead_after [OF r(2) assms(3) d r(1) A(3)] assms(2) by auto
  obtain info where "Brc_layout E b = Inr info" "header_ptr_for (value_ptr b) info = a"
    using points_to_info [OF A(2)] by blast
  then have "Brc_drop_no_collect E t b w = Return () (store a (ob\<lparr>strong := h\<rparr>) w)"
    using A(4) r(3) d nd
    by (simp add: Brc_drop_no_collect_def drop_no_collect_in_place_def decrement_strong_at_def Let_def)
  then show ?thesis using r(2) by (auto simp: decrement_post_def)
qed

text \<open>The last reference, dropped where the count is known: merged, or on the owner with nothing shared.\<close>

definition last_directly :: "access \<Rightarrow> RawBrcHeader \<Rightarrow> bool" where
  "last_directly me h \<longleftrightarrow> logical_count h = 1
     \<and> (merged (shared_of h) \<or> owner_id (biased_of h) = result_ok me \<and> shared_value h = 0)"

lemma decrement_last:
  assumes ok: "header_ok h" and last: "last_directly me h"
  shows "\<exists>h'. decrement_strong dbg me [] h = Inr (Shared_done True, h') \<and> is_dead h' \<and> header_ok h'"
proof -
  have pos: "0 < logical_count h" using last by (simp add: last_directly_def)
  obtain r h' where r: "decrement_strong dbg me [] h = Inr (r, h')" "decrement_post h r h'"
    using decrement_strong_ok [OF ok pos] by blast
  have zero: "logical_count h' = 0" and ok': "header_ok h'"
    using r(2) last by (simp_all add: decrement_post_def last_directly_def)
  have dir: "drops_directly me h" using last by (auto simp: drops_directly_def last_directly_def)
  have m: "merged (shared_of h')"
  proof (cases "merged (shared_of h)")
    case True
    then have "decrement_biased_next dbg me (biased_word h) = Inr None"
      using ok by (simp add: header_ok_def decrement_biased_next_def Let_def)
    then have "decrement_shared dbg [] h = Inr (r, h')"
      using r(1) by (simp add: decrement_strong_def decrement_biased_def)
    then obtain raw where "decrement_shared_next (shared_word h) = Inr raw" "h' = h\<lparr>shared_word := raw\<rparr>"
      by (auto simp: decrement_shared_def checked_simps)
    then show ?thesis using decrement_shared_next_Inr [of "shared_word h" raw] True by auto
  next
    case False
    then have own: "owner_id (biased_of h) = result_ok me" and one: "biased_value h = 1"
      using last by (auto simp: last_directly_def logical_count_def)
    then obtain sid where me: "me = Inr sid" "owner_id (biased_of h) = Some sid"
      using ok False by (cases me) (auto simp: header_ok_def)
    have "biased_count (biased_of h) = 1" using one by (simp add: word_uint_eq_iff)
    then have "decrement_biased_next dbg me (biased_word h) = Inr (Some Biased_slow)"
      using me by (simp add: decrement_biased_next_def Let_def)
    then obtain d where "decrement_biased_slow dbg h = Inr (d, h')"
      using r(1) by (auto simp: decrement_strong_def decrement_biased_def checked_simps)
    then show ?thesis by (auto simp: decrement_biased_slow_def checked_simps SharedWord_fetch_or)
  qed
  then have dead: "is_dead h'" using ok' zero by (auto simp: is_dead_def header_ok_def logical_count_def)
  have "r = Shared_done (is_dead h')" by (rule decrement_not_queued [OF ok dir r])
  then show ?thesis using r(1) dead ok' by auto
qed

text \<open>
  Dropping the last strong reference destroys the value and gives the shared weak reference
  back: the memory is freed, with the layout it was allocated with, unless a weak pointer is left.
\<close>

theorem drop_last_destroys:
  assumes "at_object E t b w a ob me" "last_directly me (strong ob)" "calm E" "contents ob = Some v"
  shows "\<exists>w'. Brc_drop_no_collect E t b w = Return () w'
    \<and> (if weak_count ob = 1 then heap w' a = None
       else \<exists>h. heap w' a = Some (ob\<lparr>strong := h, contents := None, weak_count := weak_count ob - 1\<rparr>) \<and> is_dead h)
    \<and> (\<forall>c. c \<noteq> a \<longrightarrow> heap w' c = heap w c) \<and> threads w' = threads w"
proof -
  note A = at_objectD [OF assms(1)]
  obtain h where h: "decrement_strong (debug_assertions E) me [] (strong ob) = Inr (Shared_done True, h)" "is_dead h"
    using decrement_last [OF A(3) assms(2)] by blast
  let ?w = "store a (ob\<lparr>strong := h\<rparr>) w"
  obtain info where i: "Brc_layout E b = Inr info" "header_ptr_for (value_ptr b) info = a"
    "value_ptr b = int a + value_offset info"
    using points_to_info [OF A(2)] by blast
  have "typed E (meta b) (value_offset info) (ob\<lparr>strong := h\<rparr>)"
    using A(2) i(3) by (simp add: points_to_def)
  then have d: "drop_context_dealloc E (meta b) (value_offset info) a ?w
    = Return () (if weak_count ob = 1 then ?w\<lparr>heap := (heap ?w)(a := None)\<rparr>
        else store a (ob\<lparr>strong := h, contents := None, weak_count := weak_count ob - 1\<rparr>) ?w)"
    using erased_dealloc_calm [OF assms(3), of ?w a "ob\<lparr>strong := h\<rparr>" v "meta b" "value_offset info"] assms(4)
    by simp
  have "Brc_drop_no_collect E t b w = drop_context_dealloc E (meta b) (value_offset info) a ?w"
    using A(1,4) i h by (simp add: Brc_drop_no_collect_def drop_no_collect_in_place_def decrement_strong_at_def
        Let_def on_header_def)
  then show ?thesis using d h(2) by auto
qed

lemma decrement_queues:
  assumes ok: "header_ok h" and pos: "0 < logical_count h" and nd: "\<not> drops_directly me h"
  shows "\<exists>h'. decrement_strong dbg me [] h = Inr (Do_queue, h') \<and> header_ok h' \<and> biased_word h' = biased_word h
    \<and> logical_count h' = logical_count h - 1"
proof -
  have h: "\<not> merged (shared_of h)" "\<not> queued (shared_of h)" "shared_value h \<le> 0" "owner_id (biased_of h) \<noteq> result_ok me"
    using nd by (auto simp: drops_directly_def)
  have zero: "shared_value h = 0" using ok h(1-3) by (auto simp: header_ok_def)
  obtain r h' where r: "decrement_strong dbg me [] h = Inr (r, h')" "decrement_post h r h'"
    using decrement_strong_ok [OF ok pos] by blast
  have "decrement_biased_next dbg me (biased_word h) = Inr None"
    using h(4) by (cases me) (auto simp: decrement_biased_next_def Let_def split: option.splits)
  then have sh: "decrement_shared dbg [] h = Inr (r, h')"
    using r(1) by (simp add: decrement_strong_def decrement_biased_def)
  then obtain raw where raw: "decrement_shared_next (shared_word h) = Inr raw"
    "decrement_shared_result dbg (shared_word h) raw = Inr r" "h' = h\<lparr>shared_word := raw\<rparr>"
    by (auto simp: decrement_shared_def checked_simps)
  have "queued (SharedWord_from_raw raw)" using decrement_shared_next_Inr [OF raw(1)] zero by auto
  then have "r = Do_queue" using raw(2) h(2) by (cases r) (auto simp: decrement_shared_result_Inr)
  then show ?thesis using r raw(3) by (auto simp: decrement_post_def)
qed

text \<open>Another thread drops a reference, and the shared count falls below zero.\<close>

lemma drop_queues:
  assumes at: "at_object E t b w a ob me" "0 < logical_count (strong ob)" "\<not> drops_directly me (strong ob)"
    and owner: "get_by_id (the (owner_id (biased_of (strong ob)))) w = Inr (Some (i, info))"
  obtains h where "drop_no_collect_in_place E t b w
      = queue_object E i \<lparr>header_ptr = a, drop_info = erase (meta b) (value_ptr b - int a)\<rparr> (store a (ob\<lparr>strong := h\<rparr>) w)"
    "header_ok h" "logical_count h = logical_count (strong ob) - 1"
    "owner_id (biased_of h) = owner_id (biased_of (strong ob))"
    "typed E (meta b) (value_ptr b - int a) (ob\<lparr>strong := h\<rparr>)"
proof -
  note A = at_objectD [OF at(1)]
  obtain h where h: "decrement_strong (debug_assertions E) me [] (strong ob) = Inr (Do_queue, h)" "header_ok h"
    "biased_word h = biased_word (strong ob)" "logical_count h = logical_count (strong ob) - 1"
    using decrement_queues [OF A(3) at(2,3)] by blast
  let ?w = "store a (ob\<lparr>strong := h\<rparr>) w"
  obtain lay where l: "Brc_layout E b = Inr lay" "header_ptr_for (value_ptr b) lay = a"
    "value_offset lay = value_ptr b - int a"
    using points_to_info [OF A(2)] by auto
  obtain sid where sid: "owner_id (biased_of (strong ob)) = Some sid"
    using A(3) at(3) by (auto simp: drops_directly_def header_ok_def)
  have found: "get_by_id sid ?w = Inr (Some (i, info))"
    using owner sid by (simp add: get_by_id_def)
  let ?q = "\<lparr>header_ptr = a, drop_info = erase (meta b) (value_ptr b - int a)\<rparr>"
  have "drop_no_collect_in_place E t b w = queue_object E i ?q ?w"
    using A(1,4) l h sid found
    by (cases "queue_object E i ?q ?w")
      (simp_all add: drop_no_collect_in_place_def decrement_strong_at_def Let_def on_header_def
        decrement_shared_do_queue_def)
  moreover have "typed E (meta b) (value_ptr b - int a) (ob\<lparr>strong := h\<rparr>)"
    using A(2) by (simp add: points_to_def)
  ultimately show thesis using that h(2-4) by simp
qed

lemma negative_is_small: "header_ok h \<Longrightarrow> logical_count h < 2 ^ 60 \<Longrightarrow> shared_value h < 2 ^ 60"
  using biased_value_range(1) [of h] by (auto simp: header_ok_def logical_count_def split: if_splits)

text \<open>
  C23. A thread that is not the owner drops a reference of an object that is neither merged nor queued, and
  the shared count falls below zero. When the queue of the owner is still there, the object is appended
  to it with its drop information, the owner's flag does not stay \<open>Live\<close>, and nothing is
  destroyed. When the queue is gone, because the owner has ended, the dropping thread merges the
  object at once, and destroys it if no reference is left; here the destructor of the value is one that
  returns and leaves the library alone.
\<close>

theorem drop_hands_to_owner:
  assumes "at_object E t b w a ob me" "0 < logical_count (strong ob)" "\<not> drops_directly me (strong ob)"
    "fifo E items" "owner_id (biased_of (strong ob)) = Some sid" "get_by_id sid w = Inr (Some (i, info))"
    "entry w i = Some info"
    "queue_strong info = 0 \<Longrightarrow> calm E \<and> is_dead_or_dying (state_flag info) \<and> info_short_id info = sid
      \<and> contents ob \<noteq> None \<and> logical_count (strong ob) < 2 ^ 60"
  shows "\<exists>h. header_ok h \<and> logical_count h = logical_count (strong ob) - 1
    \<and> (if 0 < queue_strong info
       then \<exists>info'. Brc_drop_no_collect E t b w = Return () (set_entry i info' (store a (ob\<lparr>strong := h\<rparr>) w))
         \<and> items (queue_inner info') = items (queue_inner info)
             @ [\<lparr>header_ptr = a, drop_info = erase (meta b) (value_ptr b - int a)\<rparr>]
         \<and> state_flag info' \<noteq> Live
       else Brc_drop_no_collect E t b w = Return () (w\<lparr>heap := (heap w)(a := after_merge (ob\<lparr>strong := h\<rparr>))\<rparr>))"
proof -
  obtain h where h: "drop_no_collect_in_place E t b w
      = queue_object E i \<lparr>header_ptr = a, drop_info = erase (meta b) (value_ptr b - int a)\<rparr> (store a (ob\<lparr>strong := h\<rparr>) w)"
    "header_ok h" "logical_count h = logical_count (strong ob) - 1" "owner_id (biased_of h) = Some sid"
    "typed E (meta b) (value_ptr b - int a) (ob\<lparr>strong := h\<rparr>)"
    by (rule drop_queues [OF assms(1-3), of i info]) (use assms(5,6) in auto)
  let ?w = "store a (ob\<lparr>strong := h\<rparr>) w"
  let ?q = "\<lparr>header_ptr = a, drop_info = erase (meta b) (value_ptr b - int a)\<rparr>"
  have e: "entry ?w i = Some info" using assms(7) by (simp add: entry_def)
  have d: "Brc_drop_no_collect E t b w = queue_object E i ?q ?w"
    using h(1) by (cases "queue_object E i ?q ?w") (simp_all add: Brc_drop_no_collect_def)
  show ?thesis
  proof (cases "0 < queue_strong info")
    case True
    then show ?thesis
      using queued_for_live_owner [OF assms(4) e True, of ?q] d h(2,3) by (intro exI [of _ h]) auto
  next
    case False
    then have dead: "calm E" "is_dead_or_dying (state_flag info)" "info_short_id info = sid" "contents ob \<noteq> None"
      "shared_value h < 2 ^ 60"
      using assms(8) h(2,3) negative_is_small [of h] by auto
    then have "mergeable E (info_short_id info) ?w ?q"
      using h(2,4,5) by (auto simp: mergeable_def mergeable_header_def)
    then show ?thesis
      using queued_for_dead_owner [OF dead(1) e _ dead(2)] False d h(2,3)
      by (intro exI [of _ h]) (simp add: store_def)
  qed
qed

section \<open>Weak pointers\<close>

definition weak_points_to :: "('q, 'v) env \<Rightarrow> Weak \<Rightarrow> addr \<Rightarrow> 'v object \<Rightarrow> bool" where
  "weak_points_to E b a ob \<longleftrightarrow> typed E (weak_meta b) (value_ptr_or_reserved b - int a) ob
     \<and> value_ptr_or_reserved b \<noteq> int usize_MAX \<and> even (value_ptr_or_reserved b)"

lemma on_real_object:
  assumes "weak_points_to E b a ob"
  shows "on_real E b dummy f w = f a w"
    "\<exists>info. WeakReal_layout_info E b = Inr info \<and> block ob = full_layout info"
proof -
  obtain info where i: "LayoutInfo_new (allocator_layout E) (layout_for E (weak_meta b)) = Some info"
    "value_offset info = value_ptr_or_reserved b - int a" "block ob = full_layout info"
    using typed_info [of E "weak_meta b" "value_ptr_or_reserved b - int a" ob] assms
    by (auto simp: weak_points_to_def)
  have "WeakReal_header_ptr E b = Inr a"
    using i by (simp add: WeakReal_header_ptr_def WeakReal_layout_info_def header_ptr_for_def header_offset_def)
  then show "on_real E b dummy f w = f a w"
    using assms by (simp add: on_real_def Weak_real_def weak_points_to_def)
  show "\<exists>info. WeakReal_layout_info E b = Inr info \<and> block ob = full_layout info"
    using i by (simp add: WeakReal_layout_info_def)
qed

text \<open>
  C24. \<open>Weak::upgrade\<close> fails, without changing anything, exactly when the header is dead: the counts
  are merged and the shared count is zero. Otherwise it gives a \<open>Brc\<close> to the same value and counts one
  strong reference more, also for an object that has no reference left and waits in the queue of
  its owner to be merged.
\<close>

theorem upgrade_iff_alive:
  assumes "heap w a = Some ob" "weak_points_to E b a ob" "header_ok (strong ob)" "existing_short_id t w = Inr me"
    "shared_value (strong ob) < 2 ^ 60"
  shows "if is_dead (strong ob) then Weak_upgrade E t b w = Return None w
    else \<exists>h. Weak_upgrade E t b w
           = Return (Some (Brc_from_raw (value_ptr_or_reserved b) (weak_meta b))) (store a (ob\<lparr>strong := h\<rparr>) w)
         \<and> header_ok h \<and> logical_count h = logical_count (strong ob) + 1"
proof -
  obtain x where x: "increment_strong_unless_zero (debug_assertions E) me [] (strong ob) = Inr x"
    using increment_strong_unless_zero_no_error [OF assms(3,5)] by blast
  note inc = increment_strong_unless_zero_ok [OF assms(3) x]
  have up: "Weak_upgrade E t b w = (case x of
      Inl _ \<Rightarrow> Return None (store a ob w)
    | Inr h \<Rightarrow> Return (Some (Brc_from_raw (value_ptr_or_reserved b) (weak_meta b))) (store a (ob\<lparr>strong := h\<rparr>) w))"
    using assms(1,4) x by (cases x)
      (simp_all add: Weak_upgrade_def on_real_object(1) [OF assms(2)] my_short_id_def on_header_def
        split: ZeroReferenceCountError.split)
  have same: "store a ob w = w" using assms(1) by (cases w) (simp add: store_def fun_upd_idem)
  show ?thesis using inc up same by (cases x) auto
qed

lemma weak_drop_effect:
  assumes "heap w a = Some ob" "weak_points_to E b a ob"
  shows "Weak_drop E b w = Return ()
    (if weak_count ob = 1 then w\<lparr>heap := (heap w)(a := None)\<rparr>
     else store a (ob\<lparr>weak_count := weak_count ob - 1\<rparr>) w)"
proof -
  obtain info where i: "WeakReal_layout_info E b = Inr info" "block ob = full_layout info"
    using on_real_object(2) [OF assms(2)] by blast
  have "Weak_drop E b w = drop_weak a info w"
    unfolding Weak_drop_def on_real_object(1) [OF assms(2)] using i(1) by simp
  then show ?thesis
    using drop_weak_last [OF assms(1) _ i(2)] drop_weak_other [OF assms(1), of info] by simp
qed

text \<open>
  Dropping a weak pointer counts one weak reference less, and frees the memory, with the layout
  it was allocated with, when it was the last reference of any kind; the value is never touched.
\<close>

theorem weak_drop_frees_last:
  assumes "heap w a = Some ob" "weak_points_to E b a ob"
  shows "Weak_drop E b w = Return ()
    (if weak_count ob = 1 then w\<lparr>heap := (heap w)(a := None)\<rparr>
     else store a (ob\<lparr>weak_count := weak_count ob - 1\<rparr>) w)"
  by (rule weak_drop_effect [OF assms])

text \<open>
  The reserved pointer of \<open>Weak::new\<close> refers to nothing: it cannot be upgraded, counts nothing,
  and cloning or dropping it changes nothing.
\<close>

theorem weak_new_is_empty:
  "Weak_upgrade E t Weak_new w = Return None w \<and> Weak_strong_count E t Weak_new w = Return (Inr 0) w
   \<and> Weak_weak_count E t Weak_new w = Return (Inr 0) w
   \<and> Weak_clone E Weak_new w = Return Weak_new w \<and> Weak_drop E Weak_new w = Return () w"
  by (simp add: Weak_upgrade_def Weak_strong_count_def Weak_weak_count_def Weak_clone_def Weak_drop_def
      on_real_def Weak_real_def Weak_new_def Weak_from_raw_def)

lemma store_same: "heap w a = Some ob \<Longrightarrow> store a ob w = w"
  by (cases w) (simp add: store_def fun_upd_idem)

section \<open>Construction\<close>

text \<open>\<open>alloc_with_in\<close> with a callback that writes \<open>v\<close> and does not panic.\<close>

lemma alloc_creates:
  assumes "collect_implicit E t w = Return () w0" "runtime_ok w0"
    "tls w0 t = Tls_uninit \<Longrightarrow> fresh_index (next_index E (threads w0)) w0"
    "LayoutInfo_new (allocator_layout E) L = Some info"
    "allocate E (full_layout info) w0 = Some a"
  shows "\<exists>w' ob. alloc_with_in E pol t L m (Return v) w = Return (Brc_from_raw (int a + value_offset info) m) w'
    \<and> heap w' = (heap w0)(a \<mapsto> ob) \<and> contents ob = Some v \<and> weak_count ob = 1
    \<and> block ob = full_layout info \<and> header_ok (strong ob) \<and> logical_count (strong ob) = 1
    \<and> runtime_ok w'"
proof -
  obtain this_id w1 where i: "init (queue_new E) (next_index E (threads w0)) t w0 = Inr (init_for this_id, w1)"
    "runtime_ok w1" "\<And>s. this_id = Some s \<Longrightarrow> short_id_ok s" "heap w1 = heap w0"
    by (rule init_ok [OF assms(2), of t "next_index E (threads w0)" "queue_new E"])
      (use assms(3) heap_more in auto)
  have c: "(if no_implicit_collect E then Return () w else collect_implicit E t w) = Return () w0"
    using assms(1) by (auto simp: collect_implicit_def split: if_splits)
  let ?ob = "\<lparr>strong = init_for this_id, weak_count = 1, contents = Some v, block = full_layout info\<rparr>"
  have "alloc_with_in E pol t L m (Return v) w = Return (Brc_from_raw (int a + value_offset info) m) (store a ?ob w1)"
    using assms(4,5) unfolding alloc_with_in_def c
    by (simp add: LayoutInfo_new_or_panic_def i(1) Let_def)
  then show ?thesis
    using i(2,4) init_for_counts_one [of this_id] i(3)
    by (intro exI [of _ "store a ?ob w1"] exI [of _ ?ob]) simp
qed

text \<open>
  C26. \<open>Brc::new\<close> allocates one block of the layout of header and value, and returns a pointer to
  the value in it: one strong reference, one weak one, and the library's state stays consistent.
\<close>

theorem new_creates:
  assumes "collect_implicit E t w = Return () w0" "runtime_ok w0"
    "tls w0 t = Tls_uninit \<Longrightarrow> fresh_index (next_index E (threads w0)) w0"
    "LayoutInfo_new (allocator_layout E) (layout_for E Thin) = Some info"
    "allocate E (full_layout info) w0 = Some a"
  shows "\<exists>w' ob. Brc_new E t v w = Return (Brc_from_raw (int a + value_offset info) Thin) w'
    \<and> heap w' = (heap w0)(a \<mapsto> ob) \<and> contents ob = Some v \<and> weak_count ob = 1
    \<and> block ob = full_layout info \<and> header_ok (strong ob) \<and> logical_count (strong ob) = 1
    \<and> runtime_ok w'"
  unfolding Brc_new_def Brc_new_in_def by (rule alloc_creates [OF assms])

text \<open>
  C27. When the closure of \<open>Brc::new_with\<close> panics, the memory allocated for the value is given back
  with the layout it was allocated with, and the panic goes on.
\<close>

theorem new_with_frees_on_panic:
  assumes "collect_implicit E t w = Return () w0" "runtime_ok w0"
    "tls w0 t = Tls_uninit \<Longrightarrow> fresh_index (next_index E (threads w0)) w0"
    "LayoutInfo_new (allocator_layout E) (layout_for E Thin) = Some info"
    "allocate E (full_layout info) w0 = Some a" "panic_unwind E"
    "\<And>w'. \<exists>w''. func w' = Unwind w'' \<and> heap w'' = heap w'"
  shows "\<exists>w'. Brc_new_with E t func w = Unwind w' \<and> heap w' = (heap w0)(a := None)"
proof -
  obtain this_id w1 where i: "init (queue_new E) (next_index E (threads w0)) t w0 = Inr (init_for this_id, w1)"
    "heap w1 = heap w0"
    by (rule init_ok [OF assms(2), of t "next_index E (threads w0)" "queue_new E"])
      (use assms(3) heap_more in auto)
  let ?w = "store a \<lparr>strong = init_for this_id, weak_count = 1, contents = None, block = full_layout info\<rparr> w1"
  obtain w2 where f: "func ?w = Unwind w2" "heap w2 = heap ?w"
    using assms(7) by blast
  have c: "(if no_implicit_collect E then Return () w else collect_implicit E t w) = Return () w0"
    using assms(1) by (auto simp: collect_implicit_def split: if_splits)
  have d: "deallocate a (full_layout info) w2 = Return () (w2\<lparr>heap := (heap w2)(a := None)\<rparr>)"
    using f(2) by (simp add: deallocate_def)
  have "Brc_new_with E t func w = Unwind (w2\<lparr>heap := (heap w2)(a := None)\<rparr>)"
    using assms(4,5,6) f(1) d
    unfolding Brc_new_with_def alloc_with_in_def c
    by (simp add: LayoutInfo_new_or_panic_def i(1) Let_def)
  then show ?thesis using f(2) i(2) by simp
qed

section \<open>Exclusive access\<close>

text \<open>What \<open>is_unique\<close> answers: the count is known to this thread, and it is one.\<close>

definition known_unique :: "access \<Rightarrow> 'v object \<Rightarrow> bool" where
  "known_unique me ob \<longleftrightarrow> logical_count (strong ob) = 1 \<and> weak_count ob = 1
     \<and> (merged (shared_of (strong ob)) \<or> owner_id (biased_of (strong ob)) = result_ok me)"

lemma is_unique_header:
  assumes ok: "header_ok h"
  shows "is_unique dbg me h = Inr (logical_count h = 1
     \<and> (merged (shared_of h) \<or> owner_id (biased_of h) = result_ok me))"
proof (cases "merged (shared_of h)")
  case True
  then show ?thesis
    using ok is_unique_of_merged [of "shared_word h" dbg me "biased_word h"]
    by (simp add: is_unique_def header_ok_def logical_count_def)
next
  case um: False
  show ?thesis
  proof (cases "owner_id (biased_of h) = result_ok me")
    case True
    then show ?thesis
      using ok um is_unique_of_owned [OF um True, of dbg]
      by (simp add: is_unique_def header_ok_def logical_count_def)
  next
    case False
    then show ?thesis
      using um by (simp add: is_unique_def is_unique_of_def strong_count_of_def Let_def)
  qed
qed

lemma is_unique_answer:
  assumes "at_object E t b w a ob me"
  shows "Brc_is_unique E t b w = Return (known_unique me ob) w"
proof -
  note A = at_objectD [OF assms]
  note same_world = store_same [OF A(1)]
  have neg: "is_definitely_not_unique me (biased_word (strong ob)) \<Longrightarrow> \<not> known_unique me ob"
    using A(3) by (auto simp: is_definitely_not_unique_def known_unique_def header_ok_def Let_def)
  have unlock: "store a (ob\<lparr>weak_count := 1\<rparr>) w = w" if "weak_count ob = 1"
  proof -
    have "ob\<lparr>weak_count := 1\<rparr> = ob" using that by (cases ob) simp
    then show ?thesis using same_world by simp
  qed
  show ?thesis
    using A neg same_world unlock is_unique_header [OF A(3), of "debug_assertions E" me]
    by (auto simp: Brc_is_unique_def known_unique_def Let_def)
qed

text \<open>
  C25. \<open>get_mut\<close> gives access exactly when the calling thread knows the number of strong references
  and it is one, and no weak pointer exists; and it leaves the object, the lock included, as it was.
\<close>

theorem get_mut_iff_unique:
  assumes "at_object E t b w a ob me"
  shows "Brc_get_mut E t b w = Return
    (if logical_count (strong ob) = 1 \<and> weak_count ob = 1
        \<and> (merged (shared_of (strong ob)) \<or> owner_id (biased_of (strong ob)) = result_ok me)
     then Some (value_ptr b) else None) w"
  by (simp add: Brc_get_mut_def Brc_get_mut_unchecked_def is_unique_answer [OF assms] known_unique_def)

text \<open>
  \<open>try_unwrap\<close> of a unique pointer moves the value out and consumes the pointer, but leaves the
  object behind as it was: its memory is still allocated, with one strong reference counted that no
  pointer stands for, so nothing ever frees it.
\<close>

theorem try_unwrap_leaks:
  assumes "at_object E t b w a ob me" "known_unique me ob" "contents ob = Some v"
  shows "\<exists>w'. Brc_try_unwrap E t b w = Return (Inr v) w'
    \<and> heap w' = (heap w)(a \<mapsto> ob\<lparr>contents := None\<rparr>) \<and> logical_count (strong ob) = 1"
  using at_objectD [OF assms(1)] assms(2,3)
  by (simp add: Brc_try_unwrap_def is_unique_answer [OF assms(1)] Brc_deref_def Brc_object_def known_unique_def)

text \<open>\<open>make_mut\<close> does not copy a value that is known to be unique.\<close>

lemma make_mut_unique:
  assumes "at_object E t b w a ob me" "known_unique me ob"
  shows "Brc_make_mut E t clone_value b w = Return b w"
  using assms(2) by (simp add: Brc_make_mut_def make_mut_copy_def is_unique_answer [OF assms(1)])

section \<open>Counting weak pointers\<close>

text \<open>
  \<open>downgrade\<close> gives a weak pointer to the same value and counts one weak reference more; dropping
  that pointer again leaves everything as it was.
\<close>

theorem downgrade_then_drop:
  assumes "at_object E t b w a ob me" "weak_count ob \<le> WEAK_OVERFLOW_THRESHOLD" "0 < weak_count ob"
    "weak_points_to E (Weak_from_raw (value_ptr b) (meta b)) a ob"
  shows "\<exists>w'. Brc_downgrade E b w = Return (Weak_from_raw (value_ptr b) (meta b)) w'
    \<and> heap w' = (heap w)(a \<mapsto> ob\<lparr>weak_count := weak_count ob + 1\<rparr>)
    \<and> Weak_drop E (Weak_from_raw (value_ptr b) (meta b)) w' = Return () w"
proof -
  note A = at_objectD [OF assms(1)]
  have "weak_count ob \<noteq> WEAK_LOCKED_COUNT" "weak_count ob + 1 \<noteq> 1"
    using assms(2,3) uint_WEAK_LOCKED_COUNT uint_WEAK_OVERFLOW_THRESHOLD
    by (auto simp: word_le_def)
  let ?ob = "ob\<lparr>weak_count := weak_count ob + 1\<rparr>"
  let ?w = "store a ?ob w"
  have d: "Brc_downgrade E b w = Return (Weak_from_raw (value_ptr b) (meta b)) ?w"
    using A \<open>weak_count ob \<noteq> WEAK_LOCKED_COUNT\<close> assms(2) by (simp add: Brc_downgrade_def)
  have same: "?ob\<lparr>weak_count := weak_count ?ob - 1\<rparr> = ob" by (cases ob) simp
  note same_world = store_same [OF A(1)]
  have "weak_points_to E (Weak_from_raw (value_ptr b) (meta b)) a ?ob"
    using assms(4) by (simp add: weak_points_to_def)
  then have "Weak_drop E (Weak_from_raw (value_ptr b) (meta b)) ?w = Return () (store a ob ?w)"
    using weak_drop_effect [of ?w a ?ob E] \<open>weak_count ob + 1 \<noteq> 1\<close> same by simp
  then show ?thesis using d same_world by simp
qed

section \<open>Concrete runs\<close>

text \<open>A live object with \<open>n\<close> references biased to the demo thread, and the pointers to it.\<close>

definition demo_live :: "20 word \<Rightarrow> RawBrcHeader" where
  "demo_live n =
     \<lparr>shared_word = SharedWord_to_raw \<lparr>shared_count = 0, merged = False, queued = False\<rparr>,
      biased_word = BiasedWord_to_raw \<lparr>owner_id = Some demo_sid, biased_count = n\<rparr>\<rparr>"

definition demo_brc :: Brc where
  "demo_brc = Brc_from_raw 88 Thin"

definition live_world :: "20 word \<Rightarrow> (QueuedObject list, nat) world" where
  "live_world n = demo_world [] [64 \<mapsto> demo_object (demo_live n)]"

lemma demo_live_facts [simp]:
  "shared_of (demo_live n) = \<lparr>shared_count = 0, merged = False, queued = False\<rparr>"
  "biased_of (demo_live n) = \<lparr>owner_id = Some demo_sid, biased_count = n\<rparr>"
  "logical_count (demo_live n) = uint n" "carry_free (demo_live n)" "\<not> is_dead (demo_live n)"
  "shared_value (demo_live n) = 0" "0 < uint n \<Longrightarrow> header_ok (demo_live n)"
  by (simp_all add: demo_live_def biased_word_packed logical_count_def header_ok_def carry_free_def is_dead_def
      SharedCount_value_def)

lemma live_world_facts [simp]:
  "heap (live_world n) = [64 \<mapsto> demo_object (demo_live n)]" "runtime_ok (live_world n)"
  "existing_short_id 0 (live_world n) = Inr (Inr demo_sid)"
  "existing_short_id 2 (live_world n) = Inr (Inl Uninitialized)"
  "entry (live_world n) 0 = Some (demo_info [])"
  by (simp_all add: live_world_def) (simp_all add: demo_world_def existing_short_id_def fast_init_def)

lemma demo_object_facts [simp]:
  "strong (demo_object h) = h" "contents (demo_object h) = Some 5" "weak_count (demo_object h) = 1"
  by (simp_all add: demo_object_def)

lemma at_demo:
  "0 < uint n \<Longrightarrow> at_object list_env 0 demo_brc (live_world n) 64 (demo_object (demo_live n)) (Inr demo_sid)"
  "0 < uint n \<Longrightarrow> at_object list_env 2 demo_brc (live_world n) 64 (demo_object (demo_live n)) (Inl Uninitialized)"
  by (simp_all add: at_object_def points_to_def demo_brc_def Brc_from_raw_def)

theorem clone_counts_one_witness:
  "\<exists>h. Brc_clone_no_collect list_env 0 demo_brc (live_world 1)
       = Return demo_brc (store 64 (demo_object (demo_live 1)\<lparr>strong := h\<rparr>) (live_world 1))
     \<and> logical_count h = 2"
  using clone_counts_one [OF at_demo(1) [of 1]] by auto

theorem drop_not_last_witness:
  "\<exists>h. Brc_drop_no_collect list_env 0 demo_brc (live_world 2)
       = Return () (store 64 (demo_object (demo_live 2)\<lparr>strong := h\<rparr>) (live_world 2))
     \<and> logical_count h = 1"
proof -
  have "drops_directly (Inr demo_sid) (demo_live 2)" by (simp add: drops_directly_def)
  then show ?thesis using drop_not_last [OF at_demo(1) [of 2]] by auto
qed

theorem drop_last_destroys_witness:
  "\<exists>w'. Brc_drop_no_collect list_env 0 demo_brc (live_world 1) = Return () w' \<and> heap w' 64 = None"
proof -
  have "last_directly (Inr demo_sid) (demo_live 1)" by (simp add: last_directly_def)
  then show ?thesis using drop_last_destroys [OF at_demo(1) [of 1] _ calm_list_env] by auto
qed

theorem drop_hands_to_owner_witness:
  "\<exists>h info'. Brc_drop_no_collect list_env 2 demo_brc (live_world 2)
       = Return () (set_entry 0 info' (store 64 (demo_object (demo_live 2)\<lparr>strong := h\<rparr>) (live_world 2)))
     \<and> logical_count h = 1 \<and> queue_inner info' = [demo_queued]"
proof -
  have "\<not> drops_directly (Inl Uninitialized) (demo_live 2)" by (simp add: drops_directly_def)
  moreover have "get_by_id demo_sid (live_world 2) = Inr (Some (0, demo_info []))"
    by (simp add: get_by_id_def live_world_def demo_world_def ShortThreadId_index.simps demo_sid_def)
  ultimately show ?thesis
    using drop_hands_to_owner [OF at_demo(2) [of 2] _ _ fifo_list_env, of demo_sid 0 "demo_info []"]
    by (auto simp: demo_brc_def Brc_from_raw_def demo_queued_def)
qed

definition demo_weak :: Weak where
  "demo_weak = Weak_from_raw 88 Thin"

lemma demo_weak_facts [simp]:
  "value_ptr_or_reserved demo_weak = 88" "weak_meta demo_weak = Thin" "Brc_from_raw 88 Thin = demo_brc"
  by (simp_all add: demo_weak_def Weak_from_raw_def demo_brc_def)

lemma demo_weak_points [simp]: "weak_points_to list_env demo_weak 64 (demo_object h)"
  by (simp add: weak_points_to_def usize_MAX_def)

theorem upgrade_iff_alive_witness:
  "\<exists>h. Weak_upgrade list_env 0 demo_weak (live_world 1)
       = Return (Some demo_brc) (store 64 (demo_object (demo_live 1)\<lparr>strong := h\<rparr>) (live_world 1))
     \<and> logical_count h = 2"
  using upgrade_iff_alive [of "live_world 1" 64 "demo_object (demo_live 1)" list_env demo_weak 0 "Inr demo_sid"]
  by auto

theorem weak_drop_frees_last_witness:
  "Weak_drop list_env demo_weak (live_world 1) = Return () ((live_world 1)\<lparr>heap := Map.empty\<rparr>)"
  using weak_drop_frees_last [of "live_world 1" 64 "demo_object (demo_live 1)" list_env demo_weak] by simp

lemma demo_allocation:
  "collect_implicit list_env 0 (demo_world [] Map.empty) = Return () (demo_world [] Map.empty)"
  "LayoutInfo_new (allocator_layout list_env) (layout_for list_env m)
     = Some \<lparr>value_offset = 24, full_layout = \<lparr>size_of = 32, align_of = 8\<rparr>\<rparr>"
  "allocate list_env L w = Some 64" "panic_unwind list_env"
  using demo_layout
  by (simp_all add: collect_implicit_def collect_nounwind_def collect_with_def currently_needs_collect_def
      flag_at_def list_env_def demo_world_def demo_info_def)

theorem new_creates_witness:
  "\<exists>w' ob. Brc_new list_env 0 7 (demo_world [] Map.empty) = Return demo_brc w'
     \<and> heap w' = [64 \<mapsto> ob] \<and> contents ob = Some 7"
  using new_creates [OF demo_allocation(1) runtime_ok_demo _ demo_allocation(2,3), of 7] by auto

theorem new_with_frees_on_panic_witness:
  "\<exists>w'. Brc_new_with list_env 0 Unwind (demo_world [] Map.empty) = Unwind w' \<and> heap w' = Map.empty"
  using new_with_frees_on_panic [OF demo_allocation(1) runtime_ok_demo _ demo_allocation(2-4), of Unwind]
  by auto

theorem get_mut_iff_unique_witness:
  "Brc_get_mut list_env 0 demo_brc (live_world 1) = Return (Some 88) (live_world 1)"
  using get_mut_iff_unique [OF at_demo(1) [of 1]] by (simp add: demo_brc_def Brc_from_raw_def)

theorem try_unwrap_leaks_witness:
  "\<exists>w' ob. Brc_try_unwrap list_env 0 demo_brc (live_world 1) = Return (Inr 5) w'
     \<and> heap w' 64 = Some ob \<and> logical_count (strong ob) = 1"
  using try_unwrap_leaks [OF at_demo(1) [of 1]] by (auto simp: known_unique_def)

theorem downgrade_then_drop_witness:
  "\<exists>w'. Brc_downgrade list_env demo_brc (live_world 1) = Return demo_weak w'
     \<and> heap w' 64 = Some (demo_object (demo_live 1)\<lparr>weak_count := 2\<rparr>)
     \<and> Weak_drop list_env demo_weak w' = Return () (live_world 1)"
proof -
  have le: "(1 :: 32 word) \<le> WEAK_OVERFLOW_THRESHOLD"
    using uint_WEAK_OVERFLOW_THRESHOLD by (simp add: word_le_def)
  have b: "Weak_from_raw (value_ptr demo_brc) (meta demo_brc) = demo_weak"
    by (simp add: demo_brc_def demo_weak_def Brc_from_raw_def)
  show ?thesis
    using downgrade_then_drop [OF at_demo(1) [of 1]] le unfolding b by auto
qed
end
