(* ===== verification/Conversions.thy ===== *)
theory Conversions
  imports Brc_Pointers
begin

text \<open>
  Conversions into \<open>Brc\<close> (\<open>strong/conversions.rs\<close>) and slice construction from an iterator
  (\<open>strong.rs\<close>). The contents of a slice object are a list of elements; a value of another type is
  a list of one element. What matters here is ownership: which elements the source still drops
  afterwards, and which are dropped when an iterator panics, so the result of a conversion comes with
  the list of elements that were dropped on the way.
\<close>

section \<open>Iterators\<close>

text \<open>
  What successive calls of \<open>next\<close> give: an item, the end, or a panic. \<open>claimed\<close> is the exact length
  from \<open>size_hint\<close>, if both bounds agree.
\<close>

datatype 'e event = Item 'e | End | Panic

text \<open>A list of events stands for an iterator; after the last event it keeps giving \<open>End\<close>.\<close>

fun iter_next :: "'e event list \<Rightarrow> 'e event \<times> 'e event list" where
  "iter_next [] = (End, [])"
| "iter_next (e # es) = (e, es)"

text \<open>\<open>AssertExactIter::next\<close>.\<close>

fun assert_exact_next :: "nat \<times> 'e event list \<Rightarrow> 'e event \<times> (nat \<times> 'e event list)" where
  "assert_exact_next (n, it) =
     (case iter_next it of
        (Panic, rest) \<Rightarrow> (Panic, (n, rest))
      | (End, rest) \<Rightarrow> if n = 0 then (End, (0, rest)) else (Panic, (n, rest))
      | (Item x, rest) \<Rightarrow> if n = 0 then (Panic, (0, rest)) else (Item x, (n - 1, rest)))"

section \<open>Filling a slice\<close>

text \<open>
  The result of the callback of \<open>from_iter_exact_trusted_in\<close>: the initialised elements, or a panic
  with the elements the guard dropped.
\<close>

datatype 'e fill = Filled "'e list" | Panicked "'e list" | Fill_fault fault

text \<open>
  The loop over \<open>index\<close>, with \<open>written\<close> the elements already in place. The guard's
  \<open>initialized_len\<close> is set to \<open>index\<close> before the element is requested, so a panic in \<open>next\<close> drops
  exactly the first \<open>index\<close> elements. A missing element would be \<open>unwrap_unchecked\<close> of \<open>None\<close>.
\<close>

fun fill_loop ::
  "('i \<Rightarrow> 'e event \<times> 'i) \<Rightarrow> bool \<Rightarrow> nat \<Rightarrow> 'e list \<Rightarrow> 'i \<Rightarrow> ('i \<times> 'e list) + 'e fill" where
  "fill_loop nxt guarded 0 written it = Inl (it, written)"
| "fill_loop nxt guarded (Suc n) written it =
     (let initialized_len = length written in
      case nxt it of
        (Panic, _) \<Rightarrow> Inr (Panicked (if guarded then take initialized_len written else []))
      | (End, _) \<Rightarrow> Inr (Fill_fault Unchecked_violation)
      | (Item x, it') \<Rightarrow> fill_loop nxt guarded n (written @ [x]) it')"

text \<open>
  The whole callback: the loop, then one more call of \<open>next\<close> that lets \<open>AssertExactIter\<close> notice
  surplus items. The guard's \<open>initialized_len\<close> is still the last index then.
\<close>

definition fill_slice :: "('i \<Rightarrow> 'e event \<times> 'i) \<Rightarrow> bool \<Rightarrow> nat \<Rightarrow> 'i \<Rightarrow> 'e fill" where
  "fill_slice nxt guarded len it =
     (case fill_loop nxt guarded len [] it of
        Inr r \<Rightarrow> r
      | Inl (it, written) \<Rightarrow>
          (case fst (nxt it) of
             Panic \<Rightarrow> Panicked (if guarded then take (len - 1) written else [])
           | _ \<Rightarrow> Filled written))"

text \<open>\<open>from_iter_exact_trusted_in::<U>\<close>: the guard exists for a policy that may unwind and elements that need dropping.\<close>

definition from_iter_exact_trusted ::
  "bool \<Rightarrow> bool \<Rightarrow> ('i \<Rightarrow> 'e event \<times> 'i) \<Rightarrow> nat \<Rightarrow> 'i \<Rightarrow> 'e fill" where
  "from_iter_exact_trusted unwinds elements_need_drop nxt len it =
     fill_slice nxt (unwinds \<and> elements_need_drop) len it"

text \<open>\<open>Vec::from_iter\<close> of the standard library: all items, or a panic that drops what was collected.\<close>

fun collect_vec :: "'e list \<Rightarrow> 'e event list \<Rightarrow> 'e fill" where
  "collect_vec acc [] = Filled acc"
| "collect_vec acc (End # es) = Filled acc"
| "collect_vec acc (Panic # es) = Panicked acc"
| "collect_vec acc (Item x # es) = collect_vec (acc @ [x]) es"

text \<open>\<open>FromIterator for Brc<[T]>\<close>.\<close>

definition from_iter :: "bool \<Rightarrow> bool \<Rightarrow> nat \<Rightarrow> nat option \<Rightarrow> 'e event list \<Rightarrow> 'e fill" where
  "from_iter unwinds elements_need_drop lower upper it =
     (if Some lower = upper
      then from_iter_exact_trusted unwinds elements_need_drop assert_exact_next lower (lower, it)
      else collect_vec [] it)"

section \<open>Moving a source into an object\<close>

text \<open>
  The result of a move: what the object holds, and what has been dropped. The macro
  \<open>from_vec_like\<close> first takes ownership of the elements from the source, then copies them, then
  drops the source, which by then owns no element.
\<close>

record 'e move =
  moved :: "'e list"
  dropped :: "'e list"

definition from_vec_like :: "('e list \<Rightarrow> 'e list) \<Rightarrow> 'e list \<Rightarrow> 'e move" where
  "from_vec_like take_ownership src =
     (let left = take_ownership src in \<lparr>moved = take (length src) src, dropped = left\<rparr>)"

text \<open>\<open>Vec\<close> and \<open>ArrayVec\<close> set their length to zero; an array goes into \<open>ManuallyDrop\<close>.\<close>

definition from_vec :: "'e list \<Rightarrow> 'e move" where
  "from_vec = from_vec_like (\<lambda>_. [])"

definition from_array :: "'e list \<Rightarrow> 'e move" where
  "from_array = from_vec_like (\<lambda>_. [])"

definition from_array_vec :: "'e list \<Rightarrow> 'e move" where
  "from_array_vec = from_vec_like (\<lambda>_. [])"

text \<open>\<open>From<&[T]>\<close> clones every element; \<open>clone_from_slice\<close> and \<open>From<&mut [T]>\<close> go there.\<close>

definition from_slice :: "bool \<Rightarrow> bool \<Rightarrow> ('e \<Rightarrow> 'e event) \<Rightarrow> 'e list \<Rightarrow> 'e fill" where
  "from_slice unwinds elements_need_drop clone_element src =
     from_iter_exact_trusted unwinds elements_need_drop iter_next (length src) (map clone_element src)"

definition clone_from_slice :: "bool \<Rightarrow> bool \<Rightarrow> ('e \<Rightarrow> 'e event) \<Rightarrow> 'e list \<Rightarrow> 'e fill" where
  "clone_from_slice = from_slice"

definition from_mut_slice :: "bool \<Rightarrow> bool \<Rightarrow> ('e \<Rightarrow> 'e event) \<Rightarrow> 'e list \<Rightarrow> 'e fill" where
  "from_mut_slice = from_slice"

section \<open>Conversions that copy memory\<close>

text \<open>
  \<open>copy_from_slice\<close>: an object whose value is the list of elements, and whose pointer carries their
  number.
\<close>

definition copy_from_slice :: "('q, 'e list) env \<Rightarrow> thread \<Rightarrow> 'e list \<Rightarrow> ('q, 'e list, Brc) action" where
  "copy_from_slice E t src =
     (let m = Len (of_nat (length src)) in
      alloc_with_in E NeverPanic t (layout_for E m) m (Return src))"

text \<open>
  The impls of \<open>impl_str_like!\<close> for \<open>str\<close>, \<open>OsStr\<close>, \<open>Path\<close> and \<open>CStr\<close>: the bytes are copied, and the
  pointer is cast, which keeps its address and its length. A mutable reference and an owned string
  are borrowed first; so is an \<open>ArrayString\<close>. The four types are bytes in a wrapper; the nul byte that
  ends a \<open>CStr\<close> in memory is not part of what it stands for, but is copied with it.
\<close>

definition from_str_like ::
  "('s \<Rightarrow> 8 word list) \<Rightarrow> ('q, 8 word list) env \<Rightarrow> thread \<Rightarrow> 's \<Rightarrow> ('q, 8 word list, Brc) action" where
  "from_str_like as_encoded_bytes E t value w =
     bind_outcome (copy_from_slice E t (as_encoded_bytes value) w)
       (\<lambda>bytes. Return (case Brc_into_raw bytes of (p, m) \<Rightarrow> Brc_from_raw p m))"

definition from_owned_str_like ::
  "('o \<Rightarrow> 's) \<Rightarrow> ('s \<Rightarrow> 8 word list) \<Rightarrow> ('q, 8 word list) env \<Rightarrow> thread \<Rightarrow> 'o \<Rightarrow> ('q, 8 word list, Brc) action" where
  "from_owned_str_like borrow as_encoded_bytes E t value = from_str_like as_encoded_bytes E t (borrow value)"

datatype str = Str "8 word list"

datatype os_str = OsStr "8 word list"

datatype path = Path os_str

datatype c_str = CStr "8 word list"

fun str_as_bytes :: "str \<Rightarrow> 8 word list" where
  "str_as_bytes (Str bs) = bs"

fun as_encoded_bytes :: "os_str \<Rightarrow> 8 word list" where
  "as_encoded_bytes (OsStr bs) = bs"

fun as_os_str :: "path \<Rightarrow> os_str" where
  "as_os_str (Path s) = s"

fun to_bytes_with_nul :: "c_str \<Rightarrow> 8 word list" where
  "to_bytes_with_nul (CStr bs) = bs @ [0]"

definition from_str :: "('q, 8 word list) env \<Rightarrow> thread \<Rightarrow> str \<Rightarrow> ('q, 8 word list, Brc) action" where
  "from_str = from_str_like str_as_bytes"

definition from_os_str :: "('q, 8 word list) env \<Rightarrow> thread \<Rightarrow> os_str \<Rightarrow> ('q, 8 word list, Brc) action" where
  "from_os_str = from_str_like as_encoded_bytes"

definition from_path :: "('q, 8 word list) env \<Rightarrow> thread \<Rightarrow> path \<Rightarrow> ('q, 8 word list, Brc) action" where
  "from_path = from_str_like (\<lambda>p. as_encoded_bytes (as_os_str p))"

definition from_c_str :: "('q, 8 word list) env \<Rightarrow> thread \<Rightarrow> c_str \<Rightarrow> ('q, 8 word list, Brc) action" where
  "from_c_str = from_str_like to_bytes_with_nul"

definition from_array_string ::
  "('o \<Rightarrow> str) \<Rightarrow> ('q, 8 word list) env \<Rightarrow> thread \<Rightarrow> 'o \<Rightarrow> ('q, 8 word list, Brc) action" where
  "from_array_string as_str E t src = from_str E t (as_str src)"

text \<open>
  \<open>From<Box<T>>\<close>: the callback copies the bytes of the value; then the box comes out of its
  \<open>ManuallyDrop\<close> again and is dropped, with the value in it.
\<close>

definition Brc_from_box :: "('q, 'v) env \<Rightarrow> thread \<Rightarrow> metadata \<Rightarrow> 'v \<Rightarrow> ('q, 'v, Brc) action" where
  "Brc_from_box E t m v =
     alloc_with_in E NeverPanic t (layout_for E m) m (\<lambda>w.
       bind_outcome (if needs_drop E then drop_in_place E v w else Return () w) (\<lambda>_. Return v))"

text \<open>\<open>From<T>\<close>.\<close>

definition Brc_from_value :: "('q, 'v) env \<Rightarrow> thread \<Rightarrow> 'v \<Rightarrow> ('q, 'v, Brc) action" where
  "Brc_from_value E t v = Brc_new E t v"

end
