(* ===== verification/Conversion_Facts.thy ===== *)
theory Conversion_Facts
  imports Conversions Pointer_Facts
begin

text \<open>
  Who owns and who drops the elements when a \<open>Brc\<close> is built from an iterator, and the value when it
  is built from a box.
\<close>

section \<open>Filling a slice\<close>

lemma fill_loop_items:
  "fill_loop assert_exact_next g (length xs) ys (length xs + k, map Item xs @ it) = Inl ((k, it), ys @ xs)"
  by (induction xs arbitrary: ys) simp_all

lemma fill_loop_panic:
  "length xs < n \<Longrightarrow> fill_loop assert_exact_next True n ys (n, map Item xs @ Panic # it) = Inr (Panicked (ys @ xs))"
proof (induction xs arbitrary: n ys)
  case Nil
  then show ?case by (cases n) simp_all
next
  case (Cons x xs)
  then show ?case by (cases n) (simp_all add: Cons.IH [of _ "ys @ [x]", simplified])
qed

text \<open>What the loop can give, for every iterator.\<close>

lemma fill_loop_cases:
  "case fill_loop assert_exact_next g n ys (n, it) of
     Inl ((k, it'), zs) \<Rightarrow> k = 0 \<and> (\<exists>xs. zs = ys @ xs \<and> length xs = n \<and> it = map Item xs @ it')
   | Inr (Panicked ds) \<Rightarrow> ds = [] \<or> (\<exists>xs it'. ds = ys @ xs \<and> it = map Item xs @ it')
   | Inr _ \<Rightarrow> False"
proof (induction n arbitrary: ys it)
  case 0
  show ?case by simp
next
  case (Suc n)
  show ?case
  proof (cases it)
    case Nil
    then show ?thesis by simp
  next
    case (Cons e es)
    show ?thesis
    proof (cases e)
      case (Item x)
      show ?thesis
        using Suc.IH [of "ys @ [x]" es] Cons Item
        by (auto split: sum.splits prod.splits fill.splits simp: Cons_eq_append_conv intro: exI [of _ "x # _"])
    qed (simp_all add: Cons)
  qed
qed

lemma collect_vec_cases:
  "case collect_vec ys it of
     Filled zs \<Rightarrow> \<exists>xs it'. zs = ys @ xs \<and> it = map Item xs @ it'
   | Panicked ds \<Rightarrow> \<exists>xs it'. ds = ys @ xs \<and> it = map Item xs @ it'
   | Fill_fault _ \<Rightarrow> False"
proof (induction ys it rule: collect_vec.induct)
  case (4 ys x es)
  then show ?case
    by (auto split: fill.splits)
qed auto

lemma collect_vec_items: "collect_vec ys (map Item xs) = Filled (ys @ xs)"
  by (induction xs arbitrary: ys) simp_all

text \<open>
  C34. Whatever an iterator and its size hint claim, collecting from it never reads a missing
  element: the slice holds items the iterator gave, as many as the hint promised when it was exact,
  and a panic drops only items the iterator gave.
\<close>

theorem from_iter_sound:
  "case from_iter unwinds nd lower upper it of
     Filled xs \<Rightarrow> (\<exists>rest. it = map Item xs @ rest) \<and> (upper \<noteq> Some lower \<or> length xs = lower)
   | Panicked ds \<Rightarrow> (\<exists>rest. it = map Item ds @ rest)
   | Fill_fault _ \<Rightarrow> False"
proof (cases "Some lower = upper")
  case False
  then show ?thesis
    using collect_vec_cases [of "[]" it] by (auto simp: from_iter_def split: fill.splits)
next
  case True
  let ?g = "unwinds \<and> nd"
  have d: "from_iter unwinds nd lower upper it = fill_slice assert_exact_next ?g lower (lower, it)"
    using True by (simp add: from_iter_def from_iter_exact_trusted_def)
  show ?thesis
  proof (cases "fill_loop assert_exact_next ?g lower [] (lower, it)")
    case (Inr r)
    then show ?thesis
      using fill_loop_cases [where g = ?g and n = lower and ys = "[]" and it = it] by (auto simp: d fill_slice_def split: fill.splits)
  next
    case (Inl p)
    then obtain it' xs where l: "fill_loop assert_exact_next ?g lower [] (lower, it) = Inl ((0, it'), xs)"
      "length xs = lower" "it = map Item xs @ it'"
      using fill_loop_cases [where g = ?g and n = lower and ys = "[]" and it = it] by (cases p) auto
    have r: "from_iter unwinds nd lower upper it \<in> {Filled xs, Panicked (take (lower - 1) xs), Panicked []}"
      by (simp add: d fill_slice_def l(1) split: event.split)
    have "map Item xs = map Item (take (lower - 1) xs) @ map Item (drop (lower - 1) xs)"
      by (simp flip: map_append)
    then have "\<exists>rest. it = map Item (take (lower - 1) xs) @ rest" using l(3) by fastforce
    moreover have "\<exists>rest. it = map Item xs @ rest" using l(3) by blast
    ultimately show ?thesis using r l(2) by (elim insertE emptyE) simp_all
  qed
qed

text \<open>
  C35. From an iterator with an honest size hint the slice gets exactly the items, in order.
\<close>

theorem from_iter_fills:
  assumes "lower \<le> length xs" "\<And>n. upper = Some n \<Longrightarrow> length xs \<le> n"
  shows "from_iter unwinds nd lower upper (map Item xs) = Filled xs"
proof (cases "Some lower = upper")
  case True
  then have "lower = length xs" using assms by auto
  then show ?thesis
    using True fill_loop_items [of "unwinds \<and> nd" xs "[]" 0 "[]"]
    by (simp add: from_iter_def from_iter_exact_trusted_def fill_slice_def)
qed (simp add: from_iter_def collect_vec_items)

text \<open>
  When the iterator panics before it has given all the items, exactly the items it gave are
  dropped: none twice, none forgotten.
\<close>

theorem from_iter_panic_drops_all:
  assumes "length xs < n"
  shows "from_iter True True n (Some n) (map Item xs @ Panic # rest) = Panicked xs"
  using fill_loop_panic [OF assms, of "[]" rest]
  by (simp add: from_iter_def from_iter_exact_trusted_def fill_slice_def)

text \<open>
  When the iterator gives more items than it claimed, the panic comes after the last element has
  been written, but the guard still counts it as missing: that element is never dropped.
\<close>

theorem surplus_item_leaks_last:
  "from_iter True True (length (xs @ [x])) (Some (length (xs @ [x]))) (map Item (xs @ [x]) @ Item y # rest)
   = Panicked xs"
  using fill_loop_items [of True "xs @ [x]" "[]" 0 "Item y # rest"]
  by (simp add: from_iter_def from_iter_exact_trusted_def fill_slice_def)

theorem from_iter_sound_witness:
  "case from_iter True True 3 (Some 3) [Item 1, End] of
     Filled xs \<Rightarrow> False
   | Panicked ds \<Rightarrow> (\<exists>rest. [Item (1 :: nat), End] = map Item ds @ rest) \<and> ds = [1]
   | Fill_fault _ \<Rightarrow> False"
  using from_iter_sound [where unwinds = True and nd = True and lower = 3 and upper = "Some 3" and it = "[Item (1 :: nat), End]"]
  by (simp add: from_iter_def from_iter_exact_trusted_def fill_slice_def eval_nat_numeral)

theorem from_iter_fills_witness: "from_iter True False 1 (Some 5) (map Item [1, 2, 3 :: nat]) = Filled [1, 2, 3]"
  by (rule from_iter_fills) simp_all

theorem from_iter_panic_drops_all_witness:
  "from_iter True True 3 (Some 3) (map Item [1, 2 :: nat] @ Panic # [Item 4]) = Panicked [1, 2]"
  by (rule from_iter_panic_drops_all) simp

text \<open>\<open>From<&[T]>\<close> clones every element; a panic of \<open>clone\<close> drops the clones made so far.\<close>

lemma from_slice_clones: "from_slice u nd Item xs = Filled xs"
proof -
  have "fill_loop iter_next g (length xs) ys (map Item xs @ it) = Inl (it, ys @ xs)" for g ys it
    by (induction xs arbitrary: ys) simp_all
  from this [of _ "[]" "[]"] show ?thesis
    by (simp add: from_slice_def from_iter_exact_trusted_def fill_slice_def)
qed

lemma from_vec_moves: "from_vec src = \<lparr>moved = src, dropped = []\<rparr>" "from_array src = \<lparr>moved = src, dropped = []\<rparr>"
  by (simp_all add: from_vec_def from_array_def from_vec_like_def)

section \<open>Copies\<close>

text \<open>
  A string conversion makes one object that holds the bytes, with a pointer that carries their number,
  and one reference.
\<close>

lemma str_like_creates:
  assumes "collect_implicit E t w = Return () w0" "runtime_ok w0"
    "tls w0 t = Tls_uninit \<Longrightarrow> fresh_index (next_index E (threads w0)) w0"
    "LayoutInfo_new (allocator_layout E) (layout_for E (Len (of_nat (length (bytes s))))) = Some info"
    "allocate E (full_layout info) w0 = Some a"
  shows "\<exists>w' ob. from_str_like bytes E t s w
      = Return (Brc_from_raw (int a + value_offset info) (Len (of_nat (length (bytes s))))) w'
    \<and> heap w' = (heap w0)(a \<mapsto> ob) \<and> contents ob = Some (bytes s) \<and> logical_count (strong ob) = 1"
  using alloc_creates [OF assms, of NeverPanic "Len (of_nat (length (bytes s)))" "bytes s"]
  by (auto simp: from_str_like_def copy_from_slice_def Let_def Brc_into_raw_def Brc_from_raw_def)

text \<open>
  What a string object holds stands for the string it was made from: the casts back from bytes give it
  again, for a \<open>CStr\<close> without the nul byte, which is counted in the length of the object.
\<close>

fun c_str_of_bytes :: "8 word list \<Rightarrow> c_str option" where
  "c_str_of_bytes bs = (if bs \<noteq> [] \<and> last bs = 0 then Some (CStr (butlast bs)) else None)"

lemma string_objects:
  "Str (str_as_bytes s) = s" "Path (OsStr (as_encoded_bytes (as_os_str p))) = p"
  "c_str_of_bytes (to_bytes_with_nul c) = Some c" "length (to_bytes_with_nul (CStr bs)) = length bs + 1"
proof -
  show "Str (str_as_bytes s) = s" by (cases s) simp
  show "Path (OsStr (as_encoded_bytes (as_os_str p))) = p" by (cases p; cases "as_os_str p") simp
  show "c_str_of_bytes (to_bytes_with_nul c) = Some c" by (cases c) simp
qed simp

section \<open>From a box\<close>

text \<open>An environment whose destructor counts its calls in the object at address 8.\<close>

definition counting_env :: "(QueuedObject list, nat) env" where
  "counting_env = list_env\<lparr>drop_in_place := (\<lambda>v w. bind_outcome (load 8 w) (\<lambda>ob w.
     Return () (store 8 (ob\<lparr>contents := map_option Suc (contents ob)\<rparr>) w)))\<rparr>"

definition counting_world :: "(QueuedObject list, nat) world" where
  "counting_world = demo_world [] [8 \<mapsto> demo_object (demo_live 1)\<lparr>contents := Some 0\<rparr>]"

lemma counting_facts:
  "collect_implicit counting_env 0 counting_world = Return () counting_world"
  "LayoutInfo_new (allocator_layout counting_env) (layout_for counting_env m)
     = Some \<lparr>value_offset = 24, full_layout = \<lparr>size_of = 32, align_of = 8\<rparr>\<rparr>"
  "allocate counting_env L w = Some 64" "needs_drop counting_env" "\<not> no_implicit_collect counting_env"
  "init (queue_new counting_env) i 0 counting_world = Inr (init_for (Some demo_sid), counting_world)"
  "drop_in_place counting_env v w = bind_outcome (load 8 w) (\<lambda>ob w.
     Return () (store 8 (ob\<lparr>contents := map_option Suc (contents ob)\<rparr>) w))"
  "layout_for counting_env m = \<lparr>size_of = 8, align_of = 8\<rparr>" "allocator_layout counting_env = Global_layout"
  "debug_assertions counting_env" "heap counting_world = [8 \<mapsto> demo_object (demo_live 1)\<lparr>contents := Some 0\<rparr>]"
  "existing_short_id 0 counting_world = Inr (Inr demo_sid)"
  using demo_layout
  by (simp_all add: collect_implicit_def collect_nounwind_def collect_with_def currently_needs_collect_def
      flag_at_def list_env_def counting_world_def demo_world_def demo_info_def counting_env_def init_def
      existing_short_id_def)

lemma init_for_demo: "init_for (Some demo_sid) = demo_live 1" by (simp add: init_for_def demo_live_def)

text \<open>
  A \<open>Brc\<close> made from a box holds a value that has already been destroyed: the box is dropped
  together with its contents after the copy, and dropping the \<open>Brc\<close> destroys the value again.
\<close>

theorem from_box_destroys_twice:
  "case Brc_from_box counting_env 0 Thin 7 counting_world of
     Return b w \<Rightarrow> map_option contents (heap w 8) = Some (Some 1) \<and> map_option contents (heap w 64) = Some (Some 7)
       \<and> (case Brc_drop_no_collect counting_env 0 b w of
            Return _ w \<Rightarrow> map_option contents (heap w 8) = Some (Some 2)
          | _ \<Rightarrow> False)
   | _ \<Rightarrow> False"
proof -
  obtain h where h: "decrement_strong True (Inr demo_sid) [] (demo_live 1) = Inr (Shared_done True, h)"
    using decrement_last [of "demo_live 1" "Inr demo_sid"] by (auto simp: last_directly_def)
  show ?thesis
    by (simp add: Brc_from_box_def alloc_with_in_def counting_facts LayoutInfo_new_or_panic_def Let_def
        init_for_demo Brc_from_raw_def Brc_drop_no_collect_def drop_no_collect_in_place_def Brc_layout_def
        header_ptr_for_def header_offset_def decrement_strong_at_def my_short_id_def on_header_def h
        drop_context_dealloc_def erased_dealloc_def LayoutInfo_for_value_def from_to_context drop_contents_def
        demo_layout drop_weak_def drop_weak_slow_def deallocate_def)
qed

end
