(* ===== verification/Integrations.thy ===== *)
theory Integrations
  imports Conversions Weak_Pointers
begin

text \<open>
  Traits that \<open>Brc\<close> implements by handing on to its own operations or to its value: the comparison,
  hashing and unsizing impls that \<open>smart_pointer!\<close> generates (\<open>macros.rs\<close>), and the traits of
  \<open>arc_swap\<close>, \<open>archery\<close> and \<open>serde\<close> (\<open>third_party\<close>). What the user's type or the other crate does (its
  comparison, its serializer) is an argument.
\<close>

section \<open>Delegation to the value\<close>

text \<open>
  The traits with one pointer (\<open>Borrow\<close>, \<open>AsRef\<close>, \<open>Hash\<close>, \<open>Debug\<close>, \<open>Display\<close>, \<open>Error\<close>) apply the
  method of the value to \<open>self.deref()\<close>; the comparisons dereference both sides.
\<close>

definition delegate_deref :: "('q, 'v) env \<Rightarrow> ('v \<Rightarrow> ('q, 'v, 'a) action) \<Rightarrow> Brc \<Rightarrow> ('q, 'v, 'a) action" where
  "delegate_deref E method b w = bind_outcome (Brc_deref E b w) method"

definition delegate_cmp_ops ::
  "('q, 'v) env \<Rightarrow> ('v \<Rightarrow> 'v \<Rightarrow> ('q, 'v, 'a) action) \<Rightarrow> Brc \<Rightarrow> Brc \<Rightarrow> ('q, 'v, 'a) action" where
  "delegate_cmp_ops E method b c w =
     bind_outcome (Brc_deref E b w) (\<lambda>x w. bind_outcome (Brc_deref E c w) (method x))"

text \<open>\<open>unsize::CoerciblePtr\<close>: the pointer is taken apart and put together with the new metadata.\<close>

definition Brc_replace_ptr :: "metadata \<Rightarrow> Brc \<Rightarrow> Brc" where
  "Brc_replace_ptr new_meta b = Brc_from_raw (fst (Brc_into_raw b)) new_meta"

definition Weak_replace_ptr :: "metadata \<Rightarrow> Weak \<Rightarrow> Weak" where
  "Weak_replace_ptr new_meta k = Weak_from_raw (fst (Weak_into_raw k)) new_meta"

section \<open>arc_swap\<close>

text \<open>\<open>arc_swap::RefCnt\<close>, for sized values only.\<close>

definition RefCnt_into_ptr :: "Brc \<Rightarrow> int" where
  "RefCnt_into_ptr b = fst (Brc_into_raw b)"

definition RefCnt_as_ptr :: "Brc \<Rightarrow> int" where
  "RefCnt_as_ptr b = value_ptr b"

definition RefCnt_from_ptr :: "int \<Rightarrow> Brc" where
  "RefCnt_from_ptr p = Brc_from_raw p Thin"

definition RefCnt_inc :: "('q, 'v) env \<Rightarrow> thread \<Rightarrow> Brc \<Rightarrow> ('q, 'v, int) action" where
  "RefCnt_inc E t b w = bind_outcome (Brc_clone E t b w) (\<lambda>c w. Return (fst (Brc_into_raw c)) w)"

definition RefCnt_dec :: "('q, 'v) env \<Rightarrow> thread \<Rightarrow> int \<Rightarrow> ('q, 'v, unit) action" where
  "RefCnt_dec E t p = Brc_decrement_strong_count E t p Thin"

section \<open>archery\<close>

text \<open>\<open>BrcK\<close>: the address of the value, without its type.\<close>

record BrcK =
  brck_ptr :: int

definition from_brc :: "Brc \<Rightarrow> BrcK" where
  "from_brc b = \<lparr>brck_ptr = fst (Brc_as_ptr b)\<rparr>"

definition into_brc :: "BrcK \<Rightarrow> Brc" where
  "into_brc k = Brc_from_raw (brck_ptr k) Thin"

text \<open>A cast between two transparent wrappers around the same pointer.\<close>

definition as_brc :: "BrcK \<Rightarrow> Brc" where
  "as_brc k = \<lparr>value_ptr = brck_ptr k, meta = Thin\<rparr>"

definition BrcK_new :: "('q, 'v) env \<Rightarrow> thread \<Rightarrow> 'v \<Rightarrow> ('q, 'v, BrcK) action" where
  "BrcK_new E t v w = bind_outcome (Brc_new E t v w) (\<lambda>b. Return (from_brc b))"

definition BrcK_from_box :: "('q, 'v) env \<Rightarrow> thread \<Rightarrow> 'v \<Rightarrow> ('q, 'v, BrcK) action" where
  "BrcK_from_box E t v w = bind_outcome (Brc_from_box E t Thin v w) (\<lambda>b. Return (from_brc b))"

definition BrcK_as_ptr :: "BrcK \<Rightarrow> int" where
  "BrcK_as_ptr k = brck_ptr k"

definition BrcK_deref :: "('q, 'v) env \<Rightarrow> BrcK \<Rightarrow> ('q, 'v, 'v) action" where
  "BrcK_deref E k = Brc_deref E (as_brc k)"

definition BrcK_try_unwrap :: "('q, 'v) env \<Rightarrow> thread \<Rightarrow> BrcK \<Rightarrow> ('q, 'v, BrcK + 'v) action" where
  "BrcK_try_unwrap E t k w =
     bind_outcome (Brc_try_unwrap E t (into_brc k) w) (\<lambda>r.
       Return (case r of Inl b \<Rightarrow> Inl (from_brc b) | Inr v \<Rightarrow> Inr v))"

definition BrcK_get_mut :: "('q, 'v) env \<Rightarrow> thread \<Rightarrow> BrcK \<Rightarrow> ('q, 'v, int option) action" where
  "BrcK_get_mut E t k = Brc_get_mut E t (as_brc k)"

text \<open>\<open>make_mut\<close> works through \<open>as_brc_mut\<close>, so a pointer to a new object ends up in the same \<open>BrcK\<close>.\<close>

definition BrcK_make_mut ::
  "('q, 'v) env \<Rightarrow> thread \<Rightarrow> ('v \<Rightarrow> ('q, 'v, 'v) action) \<Rightarrow> BrcK \<Rightarrow> ('q, 'v, BrcK) action" where
  "BrcK_make_mut E t clone_value k w =
     bind_outcome (Brc_make_mut E t clone_value (as_brc k) w) (\<lambda>b. Return (from_brc b))"

text \<open>\<open>strong_count\<close> is \<open>unimplemented!\<close>: a panic.\<close>

definition BrcK_strong_count :: "BrcK \<Rightarrow> ('q, 'v, 64 word) action" where
  "BrcK_strong_count k w = Unwind w"

definition BrcK_clone :: "('q, 'v) env \<Rightarrow> thread \<Rightarrow> BrcK \<Rightarrow> ('q, 'v, BrcK) action" where
  "BrcK_clone E t k w = bind_outcome (Brc_clone E t (as_brc k) w) (\<lambda>b. Return (from_brc b))"

definition BrcK_drop :: "('q, 'v) env \<Rightarrow> thread \<Rightarrow> BrcK \<Rightarrow> ('q, 'v, unit) action" where
  "BrcK_drop E t k = Brc_drop E t (as_brc k)"

section \<open>serde\<close>

definition Brc_serialize :: "('q, 'v) env \<Rightarrow> ('v \<Rightarrow> ('q, 'v, 'a) action) \<Rightarrow> Brc \<Rightarrow> ('q, 'v, 'a) action" where
  "Brc_serialize E serialize_value b w = bind_outcome (Brc_deref E b w) serialize_value"

definition Brc_deserialize ::
  "('q, 'v) env \<Rightarrow> thread \<Rightarrow> ('q, 'v, 'e + 'v) action \<Rightarrow> ('q, 'v, 'e + Brc) action" where
  "Brc_deserialize E t deserialize_value w =
     bind_outcome (deserialize_value w) (\<lambda>r w.
       case r of
         Inl e \<Rightarrow> Return (Inl e) w
       | Inr v \<Rightarrow> bind_outcome (Brc_new E t v w) (\<lambda>b. Return (Inr b)))"

end
