(* ===== verification/Integration_Facts.thy ===== *)
theory Integration_Facts
  imports Integrations Pointer_Facts
begin

text \<open>
  The contract that \<open>arc_swap\<close> and \<open>archery\<close> rely on when they manage references through raw handles:
  cloning gives the same handle and counts one more, dropping counts one less, and the last drop
  destroys the value. The locales state it for any handle; the operations of \<open>BrcK\<close> and of
  \<open>RefCnt\<close> provide it on a thread that is the owner of the object, or once the object is merged.
\<close>

section \<open>The contract\<close>

text \<open>An operation done a number of times.\<close>

fun times_do :: "nat \<Rightarrow> ('s \<Rightarrow> ('s, 'a) outcome) \<Rightarrow> 's \<Rightarrow> ('s, 'a list) outcome" where
  "times_do 0 f s = Return [] s"
| "times_do (Suc n) f s = bind_outcome (f s) (\<lambda>x s. bind_outcome (times_do n f s) (\<lambda>xs. Return (x # xs)))"

locale shared_handle =
  fixes refers :: "'p \<Rightarrow> nat \<Rightarrow> 'w \<Rightarrow> bool"
    and clone_handle :: "'p \<Rightarrow> 'w \<Rightarrow> ('w, 'p) outcome"
    and drop_handle :: "'p \<Rightarrow> 'w \<Rightarrow> ('w, unit) outcome"
    and limit :: nat
  assumes clone_counts: "refers p n w \<Longrightarrow> n < limit \<Longrightarrow> \<exists>w'. clone_handle p w = Return p w' \<and> refers p (Suc n) w'"
    and drop_counts: "refers p (Suc (Suc n)) w \<Longrightarrow> \<exists>w'. drop_handle p w = Return () w' \<and> refers p (Suc n) w'"
begin

lemma clones_count:
  "refers p n w \<Longrightarrow> n + k \<le> limit \<Longrightarrow>
    \<exists>w'. times_do k (clone_handle p) w = Return (replicate k p) w' \<and> refers p (n + k) w'"
proof (induction k arbitrary: n w)
  case 0
  then show ?case by simp
next
  case (Suc k)
  then obtain w1 where 1: "clone_handle p w = Return p w1" "refers p (Suc n) w1"
    using clone_counts [of p n w] by auto
  then show ?case using Suc.IH [OF 1(2)] Suc.prems(2) by auto
qed

lemma drops_count:
  "refers p (Suc n + k) w \<Longrightarrow>
    \<exists>w'. times_do k (drop_handle p) w = Return (replicate k ()) w' \<and> refers p (Suc n) w'"
proof (induction k arbitrary: w)
  case 0
  then show ?case by simp
next
  case (Suc k)
  then obtain w1 where "drop_handle p w = Return () w1" "refers p (Suc n + k) w1"
    using drop_counts [of p "n + k" w] by auto
  then show ?case using Suc.IH by fastforce
qed

lemma balanced:
  assumes "refers p (Suc n) w" "Suc n + k \<le> limit"
  shows "\<exists>w1 w2. times_do k (clone_handle p) w = Return (replicate k p) w1 \<and> refers p (Suc n + k) w1
    \<and> times_do k (drop_handle p) w1 = Return (replicate k ()) w2 \<and> refers p (Suc n) w2"
  using clones_count [OF assms] drops_count by blast

end

text \<open>With a last drop that destroys.\<close>

locale owning_handle = shared_handle refers clone_handle drop_handle limit
  for refers :: "'p \<Rightarrow> nat \<Rightarrow> 'w \<Rightarrow> bool" and clone_handle drop_handle limit +
  fixes gone :: "'p \<Rightarrow> 'w \<Rightarrow> bool"
  assumes drop_last: "refers p 1 w \<Longrightarrow> \<exists>w'. drop_handle p w = Return () w' \<and> gone p w'"
begin

lemma clones_then_all_dropped:
  assumes "refers p 1 w" "Suc k \<le> limit"
  shows "\<exists>w1 w2. times_do k (clone_handle p) w = Return (replicate k p) w1 \<and> refers p (Suc k) w1
    \<and> times_do (Suc k) (drop_handle p) w1 = Return (replicate (Suc k) ()) w2 \<and> gone p w2"
proof -
  obtain w1 where 1: "times_do k (clone_handle p) w = Return (replicate k p) w1" "refers p (1 + k) w1"
    using clones_count [of p 1 w k] assms by auto
  have "\<exists>w2. times_do (Suc k) (drop_handle p) w1 = Return (replicate (Suc k) ()) w2 \<and> gone p w2"
    using 1(2)
  proof (induction k arbitrary: w1)
    case 0
    then show ?case using drop_last [of p w1] by auto
  next
    case (Suc k)
    then obtain w' where w': "drop_handle p w1 = Return () w'" "refers p (1 + k) w'"
      using drop_counts [of p k w1] by auto
    obtain w2 where "times_do (Suc k) (drop_handle p) w' = Return (replicate (Suc k) ()) w2" "gone p w2"
      using Suc.IH [OF w'(2)] by blast
    moreover have "times_do (Suc (Suc k)) (drop_handle p) w1
        = bind_outcome (times_do (Suc k) (drop_handle p) w') (\<lambda>xs. Return (() # xs))"
      using w'(1) by simp
    ultimately show ?case by simp
  qed
  then show ?thesis using 1 by auto
qed

end

section \<open>Use by the owner, or after the merge\<close>

text \<open>Headers on which this thread never has to queue the object.\<close>

definition local_header :: "access \<Rightarrow> RawBrcHeader \<Rightarrow> bool" where
  "local_header me h \<longleftrightarrow> header_ok h \<and> 0 \<le> shared_value h
     \<and> (merged (shared_of h) \<or> owner_id (biased_of h) = result_ok me)"

lemma local_header_shared: "local_header me h \<Longrightarrow> shared_value h \<le> logical_count h"
  using biased_value_range [of h] by (simp add: local_header_def logical_count_def)

lemma increment_local:
  assumes "local_header me h" "logical_count h < 2 ^ 60"
  shows "\<exists>h'. increment_strong dbg me h = Inr h' \<and> local_header me h' \<and> logical_count h' = logical_count h + 1"
proof -
  have ok: "header_ok h" "0 \<le> shared_value h" "shared_value h < 2 ^ 60" "carry_free h"
    using assms local_header_shared [OF assms(1)] by (auto simp: local_header_def carry_free_def)
  obtain h' where h': "increment_strong dbg me h = Inr h'"
    using increment_strong_error [OF ok(1), of dbg me] ok(3) by (cases "increment_strong dbg me h") auto
  then obtain r where r: "attempt_biased_increment dbg me (biased_word h) = Inr r"
    by (auto simp: increment_strong_def checked_simps)
  have "local_header me h'"
  proof (cases r)
    case None
    then have e: "h' = h\<lparr>shared_word := shared_word h + 1\<rparr>"
      using h' r by (auto simp: increment_strong_def checked_simps increment_strong_shared_Inr)
    obtain c where "SharedWord_from_raw (shared_word h + 1) = (shared_of h)\<lparr>shared_count := c\<rparr>"
      "SharedCount_value c = shared_value h + 1"
      using shared_after_fetch_add [of "shared_word h"] ok by auto
    then show ?thesis
      using assms(1) ok(2) increment_strong_ok [OF ok(1,4) h'] by (auto simp: local_header_def e)
  next
    case (Some raw)
    then have e: "h' = h\<lparr>biased_word := raw\<rparr>" using h' r by (simp add: increment_strong_def)
    have "owner_id (BiasedWord_from_raw raw) = owner_id (biased_of h)"
      using attempt_biased_increment_Some [of dbg me "biased_word h" raw] r Some by auto
    then show ?thesis
      using assms(1) increment_strong_ok [OF ok(1,4) h'] by (auto simp: local_header_def e)
  qed
  then show ?thesis using h' increment_strong_ok [OF ok(1,4) h'] by auto
qed

lemma decrement_local:
  assumes l: "local_header me h" and pos: "0 < logical_count h" and d: "decrement_strong dbg me [] h = Inr (r, h')"
  shows "local_header me h'"
proof -
  have ok: "header_ok h" using l by (simp add: local_header_def)
  have ok': "header_ok h'" "logical_count h' = logical_count h - 1"
    using decrement_strong_ok [OF ok pos, of dbg me] d by (auto simp: decrement_post_def)
  obtain b where b: "decrement_biased_next dbg me (biased_word h) = Inr b"
    using d by (auto simp: decrement_strong_def decrement_biased_def checked_simps)
  show ?thesis
  proof (cases b)
    case None
    have "merged (shared_of h)"
      using l ok decrement_biased_next_None [of dbg me "biased_word h"] b None
      by (cases me) (auto simp: local_header_def header_ok_def split: if_splits)
    moreover obtain raw where "decrement_shared_next (shared_word h) = Inr raw" "h' = h\<lparr>shared_word := raw\<rparr>"
      using d b None by (auto simp: decrement_strong_def decrement_biased_def decrement_shared_def checked_simps)
    ultimately show ?thesis
      using decrement_shared_next_Inr [of "shared_word h"] ok' pos by (auto simp: local_header_def logical_count_def)
  next
    case (Some bd)
    show ?thesis
    proof (cases bd)
      case (Biased_store raw)
      then have "h' = h\<lparr>biased_word := raw\<rparr>" using d b Some by (simp add: decrement_strong_def decrement_biased_def)
      moreover obtain s c where "BiasedWord_from_raw raw = (biased_of h)\<lparr>biased_count := c\<rparr>"
        using decrement_biased_next_store b Some Biased_store by blast
      ultimately show ?thesis using l ok' by (simp add: local_header_def)
    next
      case Biased_slow
      then have "merged (shared_of h')" "shared_value h' = shared_value h"
        using d b Some
        by (auto simp: decrement_strong_def decrement_biased_def decrement_biased_slow_def checked_simps SharedWord_fetch_or)
      then show ?thesis using l ok' by (simp add: local_header_def)
    qed
  qed
qed

text \<open>
  \<open>b\<close> refers to an object with \<open>n\<close> strong references, used by its owner or after its merge, on a
  thread whose queue is empty (so that no implicit collection happens).
\<close>

definition used_locally :: "('q, 'v) env \<Rightarrow> thread \<Rightarrow> Brc \<Rightarrow> nat \<Rightarrow> ('q, 'v) world \<Rightarrow> bool" where
  "used_locally E t b n w \<longleftrightarrow> \<not> currently_needs_collect t w
     \<and> (\<exists>a ob me. at_object E t b w a ob me \<and> local_header me (strong ob) \<and> logical_count (strong ob) = int n
          \<and> contents ob \<noteq> None)"

lemma no_implicit:
  "\<not> currently_needs_collect t w \<Longrightarrow> collect_implicit E t w = Return () w"
  by (simp add: collect_implicit_def collect_nounwind_def collect_with_def)

lemma needs_collect_store [simp]: "currently_needs_collect t (store a ob w) = currently_needs_collect t w"
  by (simp add: currently_needs_collect_def flag_at_def store_def split: option.split)

lemma stored_locally:
  assumes "at_object E t b w a ob me" "\<not> currently_needs_collect t w" "contents ob \<noteq> None"
    "local_header me h" "logical_count h = int n"
  shows "used_locally E t b n (store a (ob\<lparr>strong := h\<rparr>) w)"
  using assms unfolding used_locally_def
  by (intro conjI exI [of _ a] exI [of _ "ob\<lparr>strong := h\<rparr>"] exI [of _ me])
    (auto simp: at_object_def local_header_def)

lemma clone_locally:
  assumes "used_locally E t b n w" "n < 2 ^ 60"
  shows "\<exists>w'. Brc_clone E t b w = Return b w' \<and> used_locally E t b (Suc n) w'"
proof -
  obtain a ob me where A: "at_object E t b w a ob me" "local_header me (strong ob)" "logical_count (strong ob) = int n"
    "contents ob \<noteq> None" "\<not> currently_needs_collect t w"
    using assms(1) by (auto simp: used_locally_def)
  have "int n < 2 ^ 60" using assms(2) by (simp add: of_nat_less_numeral_power_cancel_iff)
  then obtain h where h: "increment_strong (debug_assertions E) me (strong ob) = Inr h" "local_header me h"
    "logical_count h = int (Suc n)"
    using increment_local [OF A(2), of "debug_assertions E"] A(3) by auto
  have "Brc_clone E t b w = Return b (store a (ob\<lparr>strong := h\<rparr>) w)"
    using at_objectD [OF A(1)] h(1) no_implicit [OF A(5), of E]
    by (simp add: Brc_clone_def Brc_clone_no_collect_def on_header_def Brc_from_raw_def)
  then show ?thesis using stored_locally [OF A(1,5,4) h(2,3)] by blast
qed

lemma drop_is_no_collect:
  "\<not> currently_needs_collect t w \<Longrightarrow> Brc_drop E t b w = Brc_drop_no_collect E t b w"
  by (simp add: Brc_drop_def Brc_drop_no_collect_def no_implicit)

lemma drop_locally:
  assumes "used_locally E t b (Suc (Suc n)) w"
  shows "\<exists>w'. Brc_drop_no_collect E t b w = Return () w' \<and> used_locally E t b (Suc n) w'"
proof -
  obtain a ob me where A: "at_object E t b w a ob me" "local_header me (strong ob)"
    "logical_count (strong ob) = int (Suc (Suc n))" "contents ob \<noteq> None" "\<not> currently_needs_collect t w"
    using assms(1) by (auto simp: used_locally_def)
  have pos: "0 < logical_count (strong ob)" and dir: "drops_directly me (strong ob)"
    using A(2,3) by (auto simp: drops_directly_def local_header_def)
  obtain r h where r: "decrement_strong (debug_assertions E) me [] (strong ob) = Inr (r, h)"
    "decrement_post (strong ob) r h"
    "on_header a (decrement_strong (debug_assertions E) me []) w = Return r (store a (ob\<lparr>strong := h\<rparr>) w)"
    using decrement_at [OF A(1) pos] by blast
  have d: "r = Shared_done (is_dead h)"
    by (rule decrement_not_queued [OF at_objectD(3) [OF A(1)] dir r(1,2)])
  then have "\<not> is_dead h"
    using dead_after [OF r(2) dir d r(1) at_objectD(3) [OF A(1)]] A(3) by auto
  moreover obtain info where "Brc_layout E b = Inr info" "header_ptr_for (value_ptr b) info = a"
    using points_to_info [OF at_objectD(2) [OF A(1)]] by blast
  ultimately have "Brc_drop_no_collect E t b w = Return () (store a (ob\<lparr>strong := h\<rparr>) w)"
    using at_objectD(4) [OF A(1)] r(3) d
    by (simp add: Brc_drop_no_collect_def drop_no_collect_in_place_def decrement_strong_at_def Let_def)
  moreover have "logical_count h = int (Suc n)" using r(2) A(3) by (simp add: decrement_post_def)
  ultimately show ?thesis
    using stored_locally [OF A(1,5,4) decrement_local [OF A(2) pos r(1)]] by blast
qed

text \<open>After the last drop: the memory is free, or a shell is left for weak pointers.\<close>

definition destroyed :: "('q, 'v) env \<Rightarrow> Brc \<Rightarrow> ('q, 'v) world \<Rightarrow> bool" where
  "destroyed E b w \<longleftrightarrow>
     (\<exists>a. Brc_header_ptr E b = Inr a
        \<and> (case heap w a of None \<Rightarrow> True | Some ob \<Rightarrow> contents ob = None \<and> is_dead (strong ob)))"

lemma last_locally:
  assumes "calm E" "used_locally E t b 1 w"
  shows "\<exists>w'. Brc_drop_no_collect E t b w = Return () w' \<and> destroyed E b w'"
proof -
  obtain a ob me v where A: "at_object E t b w a ob me" "local_header me (strong ob)"
    "logical_count (strong ob) = 1" "contents ob = Some v"
    using assms(2) by (auto simp: used_locally_def)
  have "last_directly me (strong ob)"
    using A(2,3) biased_value_range [of "strong ob"]
    by (auto simp: last_directly_def local_header_def header_ok_def logical_count_def split: if_splits)
  then obtain w' where "Brc_drop_no_collect E t b w = Return () w'"
    "if weak_count ob = 1 then heap w' a = None
     else \<exists>h. heap w' a = Some (ob\<lparr>strong := h, contents := None, weak_count := weak_count ob - 1\<rparr>) \<and> is_dead h"
    using drop_last_destroys [OF A(1) _ assms(1) A(4)] by blast
  moreover from this(2) have "destroyed E b w'"
    using at_objectD(5) [OF A(1)] by (auto simp: destroyed_def split: if_splits)
  ultimately show ?thesis by blast
qed

section \<open>The handles of the two crates\<close>

lemma as_brc_raw [simp]: "as_brc k = Brc_from_raw (brck_ptr k) Thin"
  by (simp add: as_brc_def Brc_from_raw_def)

lemma raw_fields [simp]: "fst (Brc_into_raw (Brc_from_raw p m)) = p" "from_brc (Brc_from_raw (brck_ptr k) m) = k"
  by (simp_all add: Brc_into_raw_def Brc_from_raw_def from_brc_def Brc_as_ptr_def)

text \<open>The assumptions of the second locale depend on the destructor, so it is interpreted for a calm one.\<close>

definition calm_local :: "('q, 'v) env \<Rightarrow> thread \<Rightarrow> Brc \<Rightarrow> nat \<Rightarrow> ('q, 'v) world \<Rightarrow> bool" where
  "calm_local E t b n w \<longleftrightarrow> calm E \<and> used_locally E t b n w"

interpretation ref_cnt: owning_handle
  "\<lambda>p. calm_local E t (RefCnt_from_ptr p)" "\<lambda>p. RefCnt_inc E t (RefCnt_from_ptr p)" "RefCnt_dec E t" "2 ^ 60"
  "\<lambda>p. destroyed E (RefCnt_from_ptr p)"
proof unfold_locales
  fix p :: int and n and w :: "('a, 'b) world"
  show "\<exists>w'. RefCnt_inc E t (RefCnt_from_ptr p) w = Return p w' \<and> calm_local E t (RefCnt_from_ptr p) (Suc n) w'"
    if "calm_local E t (RefCnt_from_ptr p) n w" "n < 2 ^ 60"
    using that clone_locally [of E t "RefCnt_from_ptr p" n w]
    by (auto simp: calm_local_def RefCnt_inc_def) (auto simp: RefCnt_from_ptr_def)
  show "\<exists>w'. RefCnt_dec E t p w = Return () w' \<and> calm_local E t (RefCnt_from_ptr p) (Suc n) w'"
    if "calm_local E t (RefCnt_from_ptr p) (Suc (Suc n)) w"
    using that drop_locally [of E t "RefCnt_from_ptr p" n w]
    by (auto simp: calm_local_def RefCnt_dec_def Brc_decrement_strong_count_def RefCnt_from_ptr_def)
  show "\<exists>w'. RefCnt_dec E t p w = Return () w' \<and> destroyed E (RefCnt_from_ptr p) w'"
    if "calm_local E t (RefCnt_from_ptr p) 1 w"
    using that last_locally [of E t "RefCnt_from_ptr p" w]
    by (auto simp: calm_local_def RefCnt_dec_def Brc_decrement_strong_count_def RefCnt_from_ptr_def)
qed

interpretation brck: owning_handle
  "\<lambda>k. calm_local E t (as_brc k)" "BrcK_clone E t" "BrcK_drop E t" "2 ^ 60" "\<lambda>k. destroyed E (as_brc k)"
proof unfold_locales
  fix k :: BrcK and n and w :: "('a, 'b) world"
  show "\<exists>w'. BrcK_clone E t k w = Return k w' \<and> calm_local E t (as_brc k) (Suc n) w'"
    if "calm_local E t (as_brc k) n w" "n < 2 ^ 60"
    using that clone_locally [of E t "as_brc k" n w] by (auto simp: calm_local_def BrcK_clone_def)
  have same: "BrcK_drop E t k w = Brc_drop_no_collect E t (as_brc k) w" if "calm_local E t (as_brc k) n w" for n
    using that drop_is_no_collect by (auto simp: calm_local_def used_locally_def BrcK_drop_def)
  show "\<exists>w'. BrcK_drop E t k w = Return () w' \<and> calm_local E t (as_brc k) (Suc n) w'"
    if "calm_local E t (as_brc k) (Suc (Suc n)) w"
    using that same [OF that] drop_locally [of E t "as_brc k" n w] by (auto simp: calm_local_def)
  show "\<exists>w'. BrcK_drop E t k w = Return () w' \<and> destroyed E (as_brc k) w'"
    if "calm_local E t (as_brc k) 1 w"
    using that same [OF that] last_locally [of E t "as_brc k" w] by (auto simp: calm_local_def)
qed

text \<open>
  C36. Handles given out and taken back through \<open>arc_swap\<close> or \<open>archery\<close> keep the count: after \<open>k\<close>
  clones of the handle of an object with one reference every handle is the same, the count is \<open>k + 1\<close>,
  and \<open>k + 1\<close> drops destroy the object. This is for one thread at a time, which owns the object or finds it
  merged, with no negative shared count and nothing to collect (\<open>used_locally\<close>), for at most \<open>2 ^ 60\<close>
  handles, and for values whose destructor returns and leaves the library alone (\<open>calm\<close>). The last
  drop by a thread that is not the owner of an unmerged object queues it instead
  (\<open>drop_hands_to_owner\<close>).
\<close>

theorem handles_keep_count:
  assumes "calm E" "used_locally E t (Brc_from_raw p Thin) 1 w" "Suc k \<le> 2 ^ 60"
  shows "(\<exists>w1 w2. times_do k (RefCnt_inc E t (RefCnt_from_ptr p)) w = Return (replicate k p) w1
      \<and> used_locally E t (RefCnt_from_ptr p) (Suc k) w1
      \<and> times_do (Suc k) (RefCnt_dec E t p) w1 = Return (replicate (Suc k) ()) w2 \<and> destroyed E (RefCnt_from_ptr p) w2)
    \<and> (\<exists>w1 w2. times_do k (BrcK_clone E t \<lparr>brck_ptr = p\<rparr>) w = Return (replicate k \<lparr>brck_ptr = p\<rparr>) w1
      \<and> used_locally E t (as_brc \<lparr>brck_ptr = p\<rparr>) (Suc k) w1
      \<and> times_do (Suc k) (BrcK_drop E t \<lparr>brck_ptr = p\<rparr>) w1 = Return (replicate (Suc k) ()) w2
      \<and> destroyed E (as_brc \<lparr>brck_ptr = p\<rparr>) w2)"
  using ref_cnt.clones_then_all_dropped [of E t p w k] brck.clones_then_all_dropped [of E t "\<lparr>brck_ptr = p\<rparr>" w k] assms
  by (auto simp: calm_local_def RefCnt_from_ptr_def simp del: times_do.simps replicate.simps)

lemma deref_value:
  "Brc_header_ptr E b = Inr a \<Longrightarrow> heap w a = Some ob \<Longrightarrow> contents ob = Some v \<Longrightarrow> Brc_deref E b w = Return v w"
  by (simp add: Brc_deref_def Brc_object_def load_def)

lemma deref_object:
  assumes "Brc_deref E b w = Return v w'"
  obtains a ob where "Brc_header_ptr E b = Inr a" "heap w a = Some ob" "contents ob = Some v" "w' = w"
proof -
  obtain a where a: "Brc_header_ptr E b = Inr a"
    using assms by (cases "Brc_header_ptr E b") (simp_all add: Brc_deref_def Brc_object_def)
  obtain ob where ob: "heap w a = Some ob"
    using assms a by (cases "heap w a") (simp_all add: Brc_deref_def Brc_object_def load_def)
  have "contents ob = Some v" "w' = w"
    using assms a ob by (cases "contents ob"; simp add: Brc_deref_def Brc_object_def load_def)+
  then show thesis using that a ob by blast
qed

text \<open>
  Deserialising what was serialised gives a new object with the same value and one reference, when
  the format gives back every value; the object that was serialised stays as it is and keeps its value.
\<close>

theorem serde_round_trip:
  assumes "Brc_deref E b w = Return v w" "serialize_value v w = Return data w" "read_value data w = Return (Inr v) w"
    "collect_implicit E t w = Return () w" "runtime_ok w"
    "tls w t = Tls_uninit \<Longrightarrow> fresh_index (next_index E (threads w)) w"
    "LayoutInfo_new (allocator_layout E) (layout_for E Thin) = Some info"
    "allocate E (full_layout info) w = Some a" "heap w a = None"
  shows "Brc_serialize E serialize_value b w = Return data w
    \<and> (\<exists>c w' ob. Brc_deserialize E t (read_value data) w = Return (Inr c) w'
       \<and> heap w' = (heap w)(a \<mapsto> ob) \<and> logical_count (strong ob) = 1
       \<and> Brc_deref E c w' = Return v w' \<and> Brc_deref E b w' = Return v w')"
proof -
  let ?c = "Brc_from_raw (int a + value_offset info) Thin"
  obtain w' ob where n: "Brc_new E t v w = Return ?c w'" "heap w' = (heap w)(a \<mapsto> ob)" "contents ob = Some v"
    "logical_count (strong ob) = 1"
    using new_creates [OF assms(4-8), of v] by blast
  have "Brc_header_ptr E ?c = Inr a"
    using assms(7) by (simp add: Brc_header_ptr_def Brc_layout_def header_ptr_for_def header_offset_def Brc_from_raw_def)
  then have c: "Brc_deref E ?c w' = Return v w'" using deref_value n by fastforce
  obtain a' ob' where b: "Brc_header_ptr E b = Inr a'" "heap w a' = Some ob'" "contents ob' = Some v"
    using assms(1) by (rule deref_object)
  have "heap w' a' = Some ob'" using n(2) b(2) assms(9) by auto
  then have "Brc_deref E b w' = Return v w'" by (rule deref_value [OF b(1) _ b(3)])
  then show ?thesis
    using n c assms(1-3) by (auto simp: Brc_serialize_def Brc_deserialize_def)
qed

section \<open>Instances\<close>

lemma demo_used_locally: "used_locally list_env 0 demo_brc 1 (live_world 1)"
proof -
  have "\<not> currently_needs_collect 0 (live_world 1)"
    by (simp add: currently_needs_collect_def flag_at_def live_world_def demo_world_def demo_info_def)
  moreover have "local_header (Inr demo_sid) (demo_live 1)" by (simp add: local_header_def)
  ultimately show ?thesis
    unfolding used_locally_def
    using at_demo(1) [of 1]
    by (intro conjI exI [of _ 64] exI [of _ "demo_object (demo_live 1)"] exI [of _ "Inr demo_sid"]) simp_all
qed

theorem handles_keep_count_witness:
  "\<exists>w1 w2. times_do 3 (BrcK_clone list_env 0 \<lparr>brck_ptr = 88\<rparr>) (live_world 1) = Return (replicate 3 \<lparr>brck_ptr = 88\<rparr>) w1
     \<and> times_do 4 (BrcK_drop list_env 0 \<lparr>brck_ptr = 88\<rparr>) w1 = Return (replicate 4 ()) w2
     \<and> destroyed list_env demo_brc w2"
proof -
  have "used_locally list_env 0 (Brc_from_raw 88 Thin) 1 (live_world 1)"
    using demo_used_locally by simp
  from handles_keep_count [OF calm_list_env this, of 3] show ?thesis
    by (simp del: times_do.simps replicate.simps) blast
qed

text \<open>A world in which the next allocation does not hit the object.\<close>

definition serde_world :: "(QueuedObject list, nat) world" where
  "serde_world = demo_world [] [160 \<mapsto> demo_object (demo_live 1)]"

theorem serde_round_trip_witness:
  "\<exists>c w'. Brc_deserialize list_env 0 (Return (Inr 5 :: unit + nat)) serde_world = Return (Inr c) w'
     \<and> Brc_deref list_env c w' = Return 5 w' \<and> Brc_deref list_env (Brc_from_raw 184 Thin) w' = Return 5 w'"
proof -
  have h: "Brc_header_ptr list_env (Brc_from_raw 184 Thin) = Inr 160"
    by (simp add: Brc_header_ptr_def Brc_layout_def demo_allocation header_ptr_for_def header_offset_def Brc_from_raw_def)
  have d: "Brc_deref list_env (Brc_from_raw 184 Thin) serde_world = Return 5 serde_world"
    by (rule deref_value [OF h, of _ "demo_object (demo_live 1)"]) (simp_all add: serde_world_def demo_object_def demo_world_def)
  have c: "collect_implicit list_env 0 serde_world = Return () serde_world"
    by (rule no_implicit)
      (simp add: serde_world_def currently_needs_collect_def flag_at_def demo_world_def demo_info_def)
  have "tls serde_world 0 \<noteq> Tls_uninit" "heap serde_world 64 = None" "runtime_ok serde_world"
    by (simp_all add: serde_world_def)
  then show ?thesis
    using serde_round_trip [OF d, of "\<lambda>v. Return v" 5 "\<lambda>d. Return (Inr d)" 0, OF _ _ c _ _ demo_allocation(2,3)]
    by auto
qed

end
