(* ===== verification/Client.thy ===== *)
theory Client
  imports Pointer_Facts "HOL-Library.Multiset"
begin

text \<open>
  The library as a whole, seen by the program that uses it: the public operations of \<open>Brc\<close> and
  \<open>Weak\<close>, the implicit and explicit collections and the end of threads, called in any order by any
  number of threads on any number of objects. One call is one step here; what happens between the
  atomic accesses of concurrent calls is the subject of \<open>Protocol\<close> and \<open>Queue_Protocol\<close>.

  The program holds pointers: \<open>strongs\<close> and \<open>weaks_held\<close> are the \<open>Brc\<close>s and \<open>Weak\<close>s in its hands. The
  values that it puts behind them own pointers themselves, as a list node owns the next one. A pointer
  that goes into a value leaves the program's hands; when the value is destroyed, its pointers are
  dropped one after the other, which may destroy further values, and may happen in the middle of a
  collection or of the end of a thread. Destructors may panic; a panic drops what is left on its way out. \<open>memory\<close> is what the program last put behind a pointer to an
  address, as it expects it to be read back. Which thread owns a pointer does not matter, as pointers
  can be sent and shared.
\<close>

section \<open>Values that own pointers\<close>

type_synonym field = "Brc + Weak"

fun strongs_of :: "field list \<Rightarrow> Brc multiset" where
  "strongs_of [] = {#}"
| "strongs_of (Inl b # ps) = add_mset b (strongs_of ps)"
| "strongs_of (Inr x # ps) = strongs_of ps"

fun weaks_of :: "field list \<Rightarrow> Weak multiset" where
  "weaks_of [] = {#}"
| "weaks_of (Inl b # ps) = weaks_of ps"
| "weaks_of (Inr x # ps) = add_mset x (weaks_of ps)"

text \<open>The same thread while a panic unwinds its stack.\<close>

definition unwinding :: "thread \<Rightarrow> ('q, 'v) env \<Rightarrow> ('q, 'v) env" where
  "unwinding t E = E\<lparr>thread_panicking := (thread_panicking E)(t := True)\<rparr>"

text \<open>
  What is dropped after something that may have panicked: it is dropped anyway, by \<open>g\<close> then, and the
  panic goes on; but a second panic aborts.
\<close>

fun then_drop ::
  "('s, 'a) outcome \<Rightarrow> ('s \<Rightarrow> ('s, unit) outcome) \<Rightarrow> ('s \<Rightarrow> ('s, unit) outcome) \<Rightarrow> ('s, unit) outcome" where
  "then_drop (Return _ w) f g = f w"
| "then_drop (Unwind w) f g = with_guard (Unwind w) g"
| "then_drop (Halt e) f g = Halt e"

text \<open>
  The pointers in a value are dropped in order, as Rust drops the fields of a struct; \<open>U\<close> is the
  environment of the thread once it is panicking.
\<close>

fun drop_fields :: "('q, 'v) env \<Rightarrow> ('q, 'v) env \<Rightarrow> thread \<Rightarrow> field list \<Rightarrow> ('q, 'v, unit) action" where
  "drop_fields E U t [] w = Return () w"
| "drop_fields E U t (Inl b # ps) w = then_drop (Brc_drop E t b w) (drop_fields E U t ps) (drop_fields U U t ps)"
| "drop_fields E U t (Inr x # ps) w = then_drop (Weak_drop E x w) (drop_fields E U t ps) (drop_fields U U t ps)"

text \<open>The destructor that the user wrote for the value, which runs before the pointers are dropped.\<close>

definition run_user_drop :: "('q, 'v) env \<Rightarrow> ('v \<Rightarrow> bool) \<Rightarrow> 'v \<Rightarrow> ('q, 'v, unit) action" where
  "run_user_drop E panics v w =
     (if panics v then if panic_unwind E then Unwind w else Halt Nounwind_abort else Return () w)"

text \<open>
  The environment of a thread whose values own the pointers that \<open>owns\<close> gives and have destructors that
  panic where \<open>panics\<close> says so, with \<open>n\<close> levels of destructors within destructors. A deeper one does not
  return; \<open>allowed\<close> below keeps the number of values smaller than \<open>n\<close>, so that it never happens.
\<close>

primrec with_glue ::
  "nat \<Rightarrow> ('q, 'v) env \<Rightarrow> thread \<Rightarrow> ('v \<Rightarrow> bool) \<Rightarrow> ('v \<Rightarrow> field list) \<Rightarrow> ('q, 'v) env" where
  "with_glue 0 E t panics owns = E\<lparr>drop_in_place := \<lambda>v w. Halt Diverges\<rparr>"
| "with_glue (Suc n) E t panics owns = E\<lparr>drop_in_place := \<lambda>v w.
     let inner = with_glue n E t panics owns; unwound = with_glue n (unwinding t E) t panics owns in
     then_drop (run_user_drop E panics v w) (drop_fields inner unwound t (owns v)) (drop_fields unwound unwound t (owns v))\<rparr>"

text \<open>The values that are there, and the pointers in them.\<close>

definition value_at :: "('q, 'v) world \<Rightarrow> addr \<Rightarrow> 'v option" where
  "value_at w a = (case heap w a of None \<Rightarrow> None | Some ob \<Rightarrow> contents ob)"

definition live :: "('q, 'v) world \<Rightarrow> nat" where
  "live w = card (dom (value_at w))"

definition inner_strong :: "('v \<Rightarrow> field list) \<Rightarrow> ('q, 'v) world \<Rightarrow> Brc multiset" where
  "inner_strong owns w = (\<Sum>a \<in> dom (value_at w). strongs_of (owns (the (value_at w a))))"

definition inner_weak :: "('v \<Rightarrow> field list) \<Rightarrow> ('q, 'v) world \<Rightarrow> Weak multiset" where
  "inner_weak owns w = (\<Sum>a \<in> dom (value_at w). weaks_of (owns (the (value_at w a))))"

section \<open>States\<close>

record ('q, 'v) client =
  lib :: "('q, 'v) world"
  strongs :: "Brc multiset"
  weaks_held :: "Weak multiset"
  memory :: "addr \<Rightarrow> 'v option"

text \<open>Nothing has been allocated and no thread has been initialised.\<close>

definition empty_world :: "('q, 'v) world" where
  "empty_world =
     \<lparr>threads = \<lambda>_. None, ids_exhausted = False, fast = \<lambda>_. fast_init, tls = \<lambda>_. Tls_uninit, heap = \<lambda>_. None\<rparr>"

definition client_start :: "('q, 'v) client" where
  "client_start = \<lparr>lib = empty_world, strongs = {#}, weaks_held = {#}, memory = \<lambda>_. None\<rparr>"

text \<open>
  What the program can reach: the pointers in its hands, and those in the values behind a \<open>Brc\<close> that it
  can reach. All that only borrow a pointer can be called on these.
\<close>

inductive readable :: "('q, 'v) env \<Rightarrow> ('v \<Rightarrow> field list) \<Rightarrow> ('q, 'v) client \<Rightarrow> field \<Rightarrow> bool"
  for E owns st where
  in_hand: "b \<in># strongs st \<Longrightarrow> readable E owns st (Inl b)"
| weak_in_hand: "x \<in># weaks_held st \<Longrightarrow> readable E owns st (Inr x)"
| inside: "readable E owns st (Inl b) \<Longrightarrow> Brc_deref E b (lib st) = Return v (lib st) \<Longrightarrow> p \<in> set (owns v)
    \<Longrightarrow> readable E owns st p"

text \<open>The program has the pointers that a value takes, besides those in \<open>B\<close>.\<close>

definition holds :: "('q, 'v) client \<Rightarrow> Brc multiset \<Rightarrow> field list \<Rightarrow> bool" where
  "holds st B ps \<longleftrightarrow> B + strongs_of ps \<subseteq># strongs st \<and> weaks_of ps \<subseteq># weaks_held st"

definition hand_over :: "field list \<Rightarrow> ('q, 'v) client \<Rightarrow> ('q, 'v) client" where
  "hand_over ps st = st\<lparr>strongs := strongs st - strongs_of ps, weaks_held := weaks_held st - weaks_of ps\<rparr>"

definition take_back :: "field list \<Rightarrow> ('q, 'v) client \<Rightarrow> ('q, 'v) client" where
  "take_back ps st = st\<lparr>strongs := strongs st + strongs_of ps, weaks_held := weaks_held st + weaks_of ps\<rparr>"

definition remember :: "('q, 'v) env \<Rightarrow> Brc \<Rightarrow> 'v \<Rightarrow> ('q, 'v) client \<Rightarrow> ('q, 'v) client" where
  "remember E b v st =
     (case Brc_header_ptr E b of Inl _ \<Rightarrow> st | Inr a \<Rightarrow> st\<lparr>memory := (memory st)(a \<mapsto> v)\<rparr>)"

section \<open>Operations\<close>

text \<open>
  \<open>Op_new\<close> stands for every constructor: they all end in \<open>alloc_with_in\<close>, with the metadata of the type;
  when the layout is too large, the value is dropped by the panic. In \<open>Op_new_panics\<close> the closure of
  \<open>new_with\<close> panics. \<open>Op_replace\<close> is \<open>get_mut\<close> followed, when it gives access, by \<open>mem::replace\<close>, which
  gives the old value and its pointers back to the program. \<open>Op_make_mut\<close> is \<open>make_mut\<close>, which needs a
  sized type, with what the clone of the value is if it is asked for; the clone's pointers are the
  program's. In \<open>Op_make_mut_panics\<close> the clone panics if it is asked for.
\<close>

datatype 'v op =
    Op_new thread unwind_policy metadata 'v
  | Op_new_panics thread metadata
  | Op_clone thread Brc
  | Op_clone_shared Brc
  | Op_drop thread Brc
  | Op_downgrade Brc
  | Op_replace thread Brc 'v
  | Op_make_mut thread Brc 'v
  | Op_make_mut_panics thread Brc
  | Op_upgrade thread Weak
  | Op_weak_clone Weak
  | Op_weak_drop Weak
  | Op_collect thread unwind_policy
  | Op_collect_force thread
  | Op_exit thread

text \<open>A write through the reference that \<open>get_mut\<close> gives.\<close>

definition write_value :: "('q, 'v) env \<Rightarrow> Brc \<Rightarrow> 'v \<Rightarrow> ('q, 'v, unit) action" where
  "write_value E b v w =
     bind_outcome (lift_checked (Brc_header_ptr E b) w) (\<lambda>a w.
     bind_outcome (load a w) (\<lambda>ob w. Return () (store a (ob\<lparr>contents := Some v\<rparr>) w)))"

definition Brc_replace :: "('q, 'v) env \<Rightarrow> thread \<Rightarrow> Brc \<Rightarrow> 'v \<Rightarrow> ('q, 'v, 'v option) action" where
  "Brc_replace E t b v w =
     bind_outcome (Brc_get_mut E t b w) (\<lambda>r w.
       case r of
         None \<Rightarrow> Return None w
       | Some _ \<Rightarrow>
           bind_outcome (Brc_deref E b w) (\<lambda>old w.
           bind_outcome (write_value E b v w) (\<lambda>_ w. Return (Some old) w)))"

text \<open>What an operation of the library does to the program's state.\<close>

fun then_holds ::
  "('s, 'a) outcome \<Rightarrow> ('s \<Rightarrow> ('c, unit) outcome) \<Rightarrow> ('a \<Rightarrow> 's \<Rightarrow> 'c) \<Rightarrow> ('c, unit) outcome" where
  "then_holds (Return x w) p f = Return () (f x w)"
| "then_holds (Unwind w) p f = p w"
| "then_holds (Halt e) p f = Halt e"

definition with_lib :: "('q, 'v) client \<Rightarrow> ('q, 'v) world \<Rightarrow> ('q, 'v) client" where
  "with_lib st w = st\<lparr>lib := w\<rparr>"

definition unwinds :: "('q, 'v) client \<Rightarrow> ('q, 'v) world \<Rightarrow> (('q, 'v) client, unit) outcome" where
  "unwinds st w = Unwind (with_lib st w)"

text \<open>A panic on its way out drops the pointers of a value; another panic then would abort.\<close>

definition unwinds_through ::
  "('q, 'v) env \<Rightarrow> thread \<Rightarrow> field list \<Rightarrow> ('q, 'v) client \<Rightarrow> ('q, 'v) world \<Rightarrow> (('q, 'v) client, unit) outcome" where
  "unwinds_through E t ps st w =
     (case drop_fields E E t ps w of
        Return _ w \<Rightarrow> Unwind (with_lib (hand_over ps st) w)
      | Unwind w \<Rightarrow> Halt Nounwind_abort
      | Halt e \<Rightarrow> Halt e)"

text \<open>A pointer was made to refer to a new object with the value \<open>c\<close>.\<close>

definition moved_to ::
  "('q, 'v) env \<Rightarrow> ('v \<Rightarrow> field list) \<Rightarrow> Brc \<Rightarrow> Brc \<Rightarrow> 'v \<Rightarrow> ('q, 'v) client \<Rightarrow> ('q, 'v) client" where
  "moved_to E owns b b' c st =
     (let st = hand_over (owns c) st in remember E b' c (st\<lparr>strongs := add_mset b' (strongs st - {#b#})\<rparr>))"

fun client_act ::
  "nat \<Rightarrow> ('q, 'v) env \<Rightarrow> ('v \<Rightarrow> bool) \<Rightarrow> ('v \<Rightarrow> field list) \<Rightarrow> 'v op \<Rightarrow> ('q, 'v) client
    \<Rightarrow> (('q, 'v) client, unit) outcome option" where
  "client_act n E panics owns (Op_new t pol m v) st =
     (if holds st {#} (owns v) then
        Some (then_holds (alloc_with_in (with_glue n E t panics owns) pol t (layout_for E m) m (Return v) (lib st))
          (unwinds_through (with_glue n (unwinding t E) t panics owns) t (owns v) st)
          (\<lambda>b w. let st = hand_over (owns v) st in
             remember E b v (st\<lparr>lib := w, strongs := add_mset b (strongs st)\<rparr>)))
      else None)"
| "client_act n E panics owns (Op_new_panics t m) st =
     (if panic_unwind E then
        Some (then_holds (alloc_with_in (with_glue n E t panics owns) MayPanic t (layout_for E m) m Unwind (lib st))
          (unwinds st) (\<lambda>_. with_lib st))
      else None)"
| "client_act n E panics owns (Op_clone t b) st =
     (if readable E owns st (Inl b) then
        Some (then_holds (Brc_clone (with_glue n E t panics owns) t b (lib st)) (unwinds st)
          (\<lambda>b w. st\<lparr>lib := w, strongs := add_mset b (strongs st)\<rparr>))
      else None)"
| "client_act n E panics owns (Op_clone_shared b) st =
     (if readable E owns st (Inl b) then
        Some (then_holds (Brc_clone_shared E b (lib st)) (unwinds st)
          (\<lambda>b w. st\<lparr>lib := w, strongs := add_mset b (strongs st)\<rparr>))
      else None)"
| "client_act n E panics owns (Op_drop t b) st =
     (if b \<in># strongs st then
        Some (then_holds (Brc_drop (with_glue n E t panics owns) t b (lib st))
          (\<lambda>w. Unwind (st\<lparr>lib := w, strongs := strongs st - {#b#}\<rparr>))
          (\<lambda>_ w. st\<lparr>lib := w, strongs := strongs st - {#b#}\<rparr>))
      else None)"
| "client_act n E panics owns (Op_downgrade b) st =
     (if readable E owns st (Inl b) then
        Some (then_holds (Brc_downgrade E b (lib st)) (unwinds st)
          (\<lambda>x w. st\<lparr>lib := w, weaks_held := add_mset x (weaks_held st)\<rparr>))
      else None)"
| "client_act n E panics owns (Op_replace t b v) st =
     (if holds st {#b#} (owns v) then
        Some (then_holds (Brc_replace E t b v (lib st)) (unwinds st)
          (\<lambda>r w. case r of
             None \<Rightarrow> with_lib st w
           | Some old \<Rightarrow> with_lib (remember E b v (take_back (owns old) (hand_over (owns v) st))) w))
      else None)"
| "client_act n E panics owns (Op_make_mut t b c) st =
     (if holds st {#b#} (owns c) \<and> meta b = Thin then
        Some (then_holds (Brc_make_mut (with_glue n E t panics owns) t (\<lambda>_. Return c) b (lib st))
          (\<lambda>w. case make_mut_copy (with_glue n E t panics owns) t (\<lambda>_. Return c) b (lib st) of
             Return (Some b') _ \<Rightarrow> Unwind (with_lib (moved_to E owns b b' c st) w)
           | _ \<Rightarrow> unwinds st w)
          (\<lambda>b' w. with_lib (if b' = b then st else moved_to E owns b b' c st) w))
      else None)"
| "client_act n E panics owns (Op_make_mut_panics t b) st =
     (if b \<in># strongs st \<and> meta b = Thin \<and> panic_unwind E then
        Some (then_holds (Brc_make_mut (with_glue n E t panics owns) t (\<lambda>_. Unwind) b (lib st)) (unwinds st)
          (\<lambda>_. with_lib st))
      else None)"
| "client_act n E panics owns (Op_upgrade t x) st =
     (if readable E owns st (Inr x) then
        Some (then_holds (Weak_upgrade E t x (lib st)) (unwinds st)
          (\<lambda>r w. case r of
             None \<Rightarrow> with_lib st w
           | Some b \<Rightarrow> st\<lparr>lib := w, strongs := add_mset b (strongs st)\<rparr>))
      else None)"
| "client_act n E panics owns (Op_weak_clone x) st =
     (if readable E owns st (Inr x) then
        Some (then_holds (Weak_clone E x (lib st)) (unwinds st)
          (\<lambda>y w. st\<lparr>lib := w, weaks_held := add_mset y (weaks_held st)\<rparr>))
      else None)"
| "client_act n E panics owns (Op_weak_drop x) st =
     (if x \<in># weaks_held st then
        Some (then_holds (Weak_drop E x (lib st)) (unwinds st)
          (\<lambda>_ w. st\<lparr>lib := w, weaks_held := weaks_held st - {#x#}\<rparr>))
      else None)"
| "client_act n E panics owns (Op_collect t pol) st =
     Some (then_holds (collect_with (with_glue n E t panics owns) pol t (lib st)) (unwinds st) (\<lambda>_. with_lib st))"
| "client_act n E panics owns (Op_collect_force t) st =
     Some (then_holds (collect_force (with_glue n E t panics owns) t (lib st)) (unwinds st) (\<lambda>_. with_lib st))"
| "client_act n E panics owns (Op_exit t) st =
     (if tls (lib st) t \<noteq> Tls_destroyed
      then Some (then_holds (thread_exit (with_glue n E t panics owns) t (lib st)) (unwinds st) (\<lambda>_. with_lib st))
      else None)"

section \<open>Runs\<close>

text \<open>
  The shared count of an object is negative and its counts are not merged yet: it waits in the queue
  of its owner. Until the merge, only the owner may count more references, and only in the biased
  word; an increment of the shared word then is what the findings of \<open>Protocol_Theorems\<close> are about.
\<close>

definition awaits_merge :: "RawBrcHeader \<Rightarrow> bool" where
  "awaits_merge h \<longleftrightarrow> \<not> merged (shared_of h) \<and> shared_value h < 0"

definition counts_biased :: "access \<Rightarrow> RawBrcHeader \<Rightarrow> bool" where
  "counts_biased me h \<longleftrightarrow>
     (case me of
        Inl _ \<Rightarrow> False
      | Inr s \<Rightarrow> owner_id (biased_of h) = Some s \<and> biased_count (biased_of h) \<noteq> - 1)"

definition safe_to_count :: "access \<Rightarrow> RawBrcHeader \<Rightarrow> bool" where
  "safe_to_count me h \<longleftrightarrow> (awaits_merge h \<longrightarrow> counts_biased me h)"

definition at_header :: "('q, 'v) world \<Rightarrow> addr checked \<Rightarrow> (RawBrcHeader \<Rightarrow> bool) \<Rightarrow> bool" where
  "at_header w p P \<longleftrightarrow>
     (case p of Inl _ \<Rightarrow> True | Inr a \<Rightarrow> (case heap w a of None \<Rightarrow> True | Some ob \<Rightarrow> P (strong ob)))"

definition counting_safe :: "('q, 'v) world \<Rightarrow> thread \<Rightarrow> addr checked \<Rightarrow> bool" where
  "counting_safe w t p \<longleftrightarrow>
     (case existing_short_id t w of Inl _ \<Rightarrow> True | Inr me \<Rightarrow> at_header w p (safe_to_count me))"

text \<open>
  Which steps a run may take: no increment of an object that waits for its merge except by its owner,
  judged when the count is made, after the collection that \<open>clone\<close> may start with; never more than
  \<open>2 ^ 60\<close> pointers, which no address space can hold; and fewer values than levels of destructors.
\<close>

definition after :: "('q, 'v, unit) action \<Rightarrow> (('q, 'v) world \<Rightarrow> bool) \<Rightarrow> ('q, 'v) world \<Rightarrow> bool" where
  "after f P w \<longleftrightarrow> (case f w of Return _ w' \<Rightarrow> P w' | _ \<Rightarrow> True)"

definition collect_if :: "bool \<Rightarrow> ('q, 'v) env \<Rightarrow> thread \<Rightarrow> ('q, 'v, unit) action" where
  "collect_if c E t w = (if c then Return () w else collect_implicit E t w)"

definition room :: "('v \<Rightarrow> field list) \<Rightarrow> ('q, 'v) client \<Rightarrow> ('q, 'v) world \<Rightarrow> bool" where
  "room owns st w \<longleftrightarrow> size (strongs st + inner_strong owns w) < 2 ^ 60"

fun may_count :: "nat \<Rightarrow> ('q, 'v) env \<Rightarrow> ('v \<Rightarrow> bool) \<Rightarrow> ('v \<Rightarrow> field list) \<Rightarrow> 'v op \<Rightarrow> ('q, 'v) client \<Rightarrow> bool" where
  "may_count n E panics owns (Op_clone t b) st \<longleftrightarrow>
     after (collect_if (no_implicit_collect_clone E) (with_glue n E t panics owns) t)
       (\<lambda>w. counting_safe w t (Brc_header_ptr E b) \<and> room owns st w) (lib st)"
| "may_count n E panics owns (Op_clone_shared b) st \<longleftrightarrow>
     at_header (lib st) (Brc_header_ptr E b) (\<lambda>h. \<not> awaits_merge h) \<and> room owns st (lib st)"
| "may_count n E panics owns (Op_upgrade t x) st \<longleftrightarrow>
     counting_safe (lib st) t (WeakReal_header_ptr E x) \<and> room owns st (lib st)"
| "may_count n E panics owns _ st \<longleftrightarrow> True"

definition allowed :: "nat \<Rightarrow> ('q, 'v) env \<Rightarrow> ('v \<Rightarrow> bool) \<Rightarrow> ('v \<Rightarrow> field list) \<Rightarrow> 'v op \<Rightarrow> ('q, 'v) client \<Rightarrow> bool" where
  "allowed n E panics owns a st \<longleftrightarrow> live (lib st) < n \<and> may_count n E panics owns a st"

inductive client_reachable :: "nat \<Rightarrow> ('q, 'v) env \<Rightarrow> ('v \<Rightarrow> bool) \<Rightarrow> ('v \<Rightarrow> field list) \<Rightarrow> ('q, 'v) client \<Rightarrow> bool"
  for n E panics owns where
  client_begins: "client_reachable n E panics owns client_start"
| client_steps: "client_reachable n E panics owns st \<Longrightarrow> allowed n E panics owns a st
    \<Longrightarrow> client_act n E panics owns a st = Some (Return () st') \<Longrightarrow> client_reachable n E panics owns st'"
| client_panics: "client_reachable n E panics owns st \<Longrightarrow> allowed n E panics owns a st
    \<Longrightarrow> client_act n E panics owns a st = Some (Unwind st') \<Longrightarrow> client_reachable n E panics owns st'"

text \<open>Runs of a given program.\<close>

fun client_run ::
  "nat \<Rightarrow> ('q, 'v) env \<Rightarrow> ('v \<Rightarrow> bool) \<Rightarrow> ('v \<Rightarrow> field list) \<Rightarrow> 'v op list \<Rightarrow> ('q, 'v) client \<Rightarrow> ('q, 'v) client option" where
  "client_run n E panics owns [] st = Some st"
| "client_run n E panics owns (a # as) st =
     (if allowed n E panics owns a st then
        (case client_act n E panics owns a st of
           Some (Return _ st') \<Rightarrow> client_run n E panics owns as st'
         | _ \<Rightarrow> None)
      else None)"

text \<open>
  How a call may end when all is well: with its result; with the panic of \<open>new\<close> on a layout that is too
  large, or that of the closure; with an abort when the allocator has no memory or the weak count is at
  its limit. Where destructors may panic (\<open>p\<close>), the panic comes out of a drop, \<open>make_mut\<close> or a
  collection that may panic, and aborts when it would come out of one that may not, or out of the end
  of a thread, or when it is the second one.
\<close>

fun runs_destructors :: "'v op \<Rightarrow> bool" where
  "runs_destructors (Op_new t pol m v) \<longleftrightarrow> True"
| "runs_destructors (Op_new_panics t m) \<longleftrightarrow> True"
| "runs_destructors (Op_clone t b) \<longleftrightarrow> True"
| "runs_destructors (Op_drop t b) \<longleftrightarrow> True"
| "runs_destructors (Op_make_mut t b c) \<longleftrightarrow> True"
| "runs_destructors (Op_make_mut_panics t b) \<longleftrightarrow> True"
| "runs_destructors (Op_collect t pol) \<longleftrightarrow> True"
| "runs_destructors (Op_collect_force t) \<longleftrightarrow> True"
| "runs_destructors (Op_exit t) \<longleftrightarrow> True"
| "runs_destructors _ \<longleftrightarrow> False"

fun expected :: "('q, 'v) env \<Rightarrow> bool \<Rightarrow> 'v op \<Rightarrow> ('s, unit) outcome \<Rightarrow> bool" where
  "expected E p a (Return _ _) \<longleftrightarrow> True"
| "expected E p a (Unwind _) \<longleftrightarrow>
     (case a of
        Op_new t pol m v \<Rightarrow> LayoutInfo_new (allocator_layout E) (layout_for E m) = None
      | Op_new_panics t m \<Rightarrow> True
      | Op_drop t b \<Rightarrow> p
      | Op_make_mut t b c \<Rightarrow> p
      | Op_make_mut_panics t b \<Rightarrow> True
      | Op_collect t pol \<Rightarrow> p \<and> pol = MayPanic
      | Op_collect_force t \<Rightarrow> p
      | _ \<Rightarrow> False)"
| "expected E p a (Halt e) \<longleftrightarrow> p \<and> e = Nounwind_abort \<and> runs_destructors a \<or>
     (case a of
        Op_new t pol m v \<Rightarrow> e = Alloc_error
      | Op_new_panics t m \<Rightarrow> e = Alloc_error
      | Op_make_mut t b c \<Rightarrow> e = Alloc_error
      | Op_make_mut_panics t b \<Rightarrow> e = Alloc_error
      | Op_downgrade b \<Rightarrow> e = Fatal Weak_refcnt_overflow
      | Op_weak_clone x \<Rightarrow> e = Fatal Weak_refcnt_overflow
      | _ \<Rightarrow> False)"

end
