(* ===== verification/Client_Headers.thy ===== *)
theory Client_Headers
  imports Client
begin

text \<open>
  What the operations on one header keep besides its counts: who owns it, whether it is merged and
  whether it is queued. A header is \<open>settled\<close> when an unmerged one is queued exactly while its shared
  count is negative; the operations that a run of \<open>Client\<close> is allowed to use keep it so.
\<close>

section \<open>Settled headers\<close>

definition settled :: "RawBrcHeader \<Rightarrow> bool" where
  "settled h \<longleftrightarrow> header_ok h \<and> (queued (shared_of h) \<and> \<not> merged (shared_of h) \<longrightarrow> shared_value h < 0)"

lemma settled_ok: "settled h \<Longrightarrow> header_ok h"
  by (simp add: settled_def)

lemma settled_awaits: "settled h \<Longrightarrow> awaits_merge h \<longleftrightarrow> \<not> merged (shared_of h) \<and> queued (shared_of h)"
  by (auto simp: settled_def awaits_merge_def header_ok_def)

lemma owned_unmerged: "header_ok h \<Longrightarrow> owner_id (biased_of h) \<noteq> None \<longleftrightarrow> \<not> merged (shared_of h)"
  by (auto simp: header_ok_def)

text \<open>Flags and owner stay as they are.\<close>

definition same_place :: "RawBrcHeader \<Rightarrow> RawBrcHeader \<Rightarrow> bool" where
  "same_place h h' \<longleftrightarrow> merged (shared_of h') = merged (shared_of h) \<and> queued (shared_of h') = queued (shared_of h)
     \<and> owner_id (biased_of h') = owner_id (biased_of h)"

lemma same_place_refl [simp]: "same_place h h"
  by (simp add: same_place_def)

lemma alive_pos: "header_ok h \<Longrightarrow> 0 < logical_count h \<Longrightarrow> \<not> is_dead h"
  using header_ok_dead [of h] by auto

section \<open>Increments\<close>

text \<open>Either word can take the increment when the header does not wait for its merge.\<close>

lemma shared_bump_settled:
  assumes "settled h" "\<not> awaits_merge h" "SharedWord_from_raw raw = (shared_of h)\<lparr>shared_count := c\<rparr>"
    "SharedCount_value c = shared_value h + 1"
  shows "settled (h\<lparr>shared_word := raw\<rparr>) \<and> same_place h (h\<lparr>shared_word := raw\<rparr>)
    \<and> logical_count (h\<lparr>shared_word := raw\<rparr>) = logical_count h + 1"
  using header_ok_shared_bump [OF settled_ok [OF assms(1)] assms(3,4)] assms
  by (auto simp: settled_def same_place_def awaits_merge_def)

lemma biased_bump_settled:
  assumes "settled h" "attempt_biased_increment dbg me (biased_word h) = Inr (Some raw)"
  shows "settled (h\<lparr>biased_word := raw\<rparr>) \<and> same_place h (h\<lparr>biased_word := raw\<rparr>)
    \<and> logical_count (h\<lparr>biased_word := raw\<rparr>) = logical_count h + 1"
proof -
  obtain s where s: "owner_id (biased_of h) = Some s"
    "BiasedWord_from_raw raw = (biased_of h)\<lparr>biased_count := biased_count (biased_of h) + 1\<rparr>"
    "uint (biased_count (biased_of h) + 1) = biased_value h + 1"
    using attempt_biased_increment_Some [OF assms(2)] by blast
  then show ?thesis
    using header_ok_biased_bump [OF settled_ok [OF assms(1)] s] assms(1)
    by (simp add: settled_def same_place_def)
qed

lemma fetch_add_settled:
  assumes "settled h" "\<not> awaits_merge h" "shared_value h < 2 ^ 60"
  shows "settled (h\<lparr>shared_word := shared_word h + 1\<rparr>) \<and> same_place h (h\<lparr>shared_word := shared_word h + 1\<rparr>)
    \<and> logical_count (h\<lparr>shared_word := shared_word h + 1\<rparr>) = logical_count h + 1"
proof -
  have "shared_value h \<noteq> - 1"
    using assms(1,2) by (auto simp: awaits_merge_def settled_def header_ok_def)
  then obtain c where "SharedWord_from_raw (shared_word h + 1) = (shared_of h)\<lparr>shared_count := c\<rparr>"
    "SharedCount_value c = shared_value h + 1"
    using shared_after_fetch_add [of "shared_word h"] assms(3) by auto
  from shared_bump_settled [OF assms(1,2) this] show ?thesis .
qed

text \<open>The owner of a header that waits for its merge counts in the biased word.\<close>

lemma counts_biased_attempt:
  assumes "header_ok h" "counts_biased me h"
  shows "\<exists>raw. attempt_biased_increment dbg me (biased_word h) = Inr (Some raw)"
proof -
  obtain s where s: "me = Inr s" "owner_id (biased_of h) = Some s" "biased_count (biased_of h) \<noteq> - 1"
    using assms(2) by (auto simp: counts_biased_def split: sum.splits)
  have "biased_count (biased_of h) \<noteq> 0" using assms(1) s(2) by (auto simp: header_ok_def split: if_splits)
  moreover have "unat (biased_count (biased_of h)) \<noteq> unat (- 1 :: 20 word)" "unat (- 1 :: 20 word) = 1048575"
    using s(3) by (simp_all add: word_unat_eq_iff unsigned_minus_1_eq_mask mask_eq_exp_minus_1)
  then have "unat (biased_count (biased_of h)) < 1048575"
    using unsigned_less [of "biased_count (biased_of h)", where ?'a = nat] by simp
  then have "u20_checked_add (biased_count (biased_of h)) 1 = Some (biased_count (biased_of h) + 1)"
    by (simp add: u20_checked_add_def)
  ultimately show ?thesis using s by (simp add: attempt_biased_increment_def Let_def)
qed

lemma increment_settled:
  assumes "settled h" "safe_to_count me h" "shared_value h < 2 ^ 60"
  shows "\<exists>h'. increment_strong dbg me h = Inr h' \<and> settled h' \<and> same_place h h'
    \<and> logical_count h' = logical_count h + 1"
proof (cases "attempt_biased_increment dbg me (biased_word h)")
  case (Inl e)
  then show ?thesis
    using increment_strong_error [OF settled_ok [OF assms(1)], of dbg me e] assms(3)
    by (simp add: increment_strong_def)
next
  case (Inr r)
  show ?thesis
  proof (cases r)
    case None
    then have "\<not> awaits_merge h"
      using counts_biased_attempt [OF settled_ok [OF assms(1)], of me dbg] assms(2) Inr
      by (auto simp: safe_to_count_def)
    note bump = fetch_add_settled [OF assms(1) this assms(3)]
    have "increment_strong_shared (shared_word h) = Inr (shared_word h + 1)"
      using assms(3) by (simp add: increment_strong_shared_Inr)
    then show ?thesis
      using bump Inr None by (auto simp: increment_strong_def)
  next
    case (Some raw)
    then show ?thesis using biased_bump_settled [OF assms(1)] Inr by (simp add: increment_strong_def)
  qed
qed

lemma unless_zero_settled:
  assumes "settled h" "safe_to_count me h" "shared_value h < 2 ^ 60"
  shows "if is_dead h then increment_strong_unless_zero dbg me [] h = Inr (Inl ZeroReferenceCountError)
    else \<exists>h'. increment_strong_unless_zero dbg me [] h = Inr (Inr h') \<and> settled h' \<and> same_place h h'
      \<and> logical_count h' = logical_count h + 1"
proof -
  obtain r where r: "increment_strong_unless_zero dbg me [] h = Inr r"
    using increment_strong_unless_zero_no_error [OF settled_ok [OF assms(1)] assms(3)] by blast
  note ok = increment_strong_unless_zero_ok [OF settled_ok [OF assms(1)] r]
  show ?thesis
  proof (cases r)
    case (Inl e)
    then show ?thesis using ok r by (cases e) simp
  next
    case (Inr h')
    have "settled h' \<and> same_place h h' \<and> logical_count h' = logical_count h + 1"
    proof (cases "attempt_biased_increment dbg me (biased_word h)")
      case (Inl e)
      then show ?thesis using r by (simp add: increment_strong_unless_zero_def)
    next
      case b: (Inr b)
      show ?thesis
      proof (cases b)
        case (Some raw)
        then have "h' = h\<lparr>biased_word := raw\<rparr>"
          using b r Inr by (simp add: increment_strong_unless_zero_def)
        then show ?thesis using biased_bump_settled [OF assms(1), of dbg me raw] b Some by simp
      next
        case None
        then have wait: "\<not> awaits_merge h"
          using counts_biased_attempt [OF settled_ok [OF assms(1)], of me dbg] assms(2) b
          by (auto simp: safe_to_count_def)
        obtain raw where raw: "unless_zero_update dbg (shared_word h) = Inr (Some raw)" "h' = h\<lparr>shared_word := raw\<rparr>"
          using b None r Inr
          by (cases "unless_zero_update dbg (shared_word h)")
            (auto simp: increment_strong_unless_zero_def split: option.splits)
        then show ?thesis
          using unless_zero_update_Some [OF raw(1)] shared_bump_settled [OF assms(1) wait] by auto
      qed
    qed
    then show ?thesis using ok r Inr by simp
  qed
qed

section \<open>Decrements\<close>

text \<open>
  A decrement keeps the place of a header, or it is the owner's last one, which merges a header that
  does not wait, or it is the one that makes the shared count negative and has the header queued.
\<close>

definition decrement_moves :: "RawBrcHeader \<Rightarrow> shared_decrement \<Rightarrow> RawBrcHeader \<Rightarrow> bool" where
  "decrement_moves h r h' \<longleftrightarrow>
     (case r of
        Shared_done d \<Rightarrow> (d \<longleftrightarrow> is_dead h') \<and> (same_place h h' \<or> merged (shared_of h') \<and> \<not> awaits_merge h)
      | Do_queue \<Rightarrow> \<not> awaits_merge h \<and> awaits_merge h' \<and> queued (shared_of h')
          \<and> \<not> merged (shared_of h) \<and> owner_id (biased_of h') = owner_id (biased_of h))"

lemma decrement_shared_moves:
  assumes "settled h" "decrement_shared dbg [] h = Inr (r, h')" "decrement_post h r h'"
  shows "settled h' \<and> decrement_moves h r h'"
proof -
  obtain raw where raw: "decrement_shared_next (shared_word h) = Inr raw" "h' = h\<lparr>shared_word := raw\<rparr>"
    using assms(2) by (auto simp: decrement_shared_def checked_simps)
  obtain c where c: "SharedCount_value c = shared_value h - 1"
    "shared_of h' = (shared_of h)\<lparr>shared_count := c, queued := (queued (shared_of h) \<or> SharedCount_value c < 0)\<rparr>"
    using decrement_shared_next_Inr [OF raw(1)] raw(2) by auto
  show ?thesis
  proof (cases r)
    case (Shared_done d)
    then have q: "queued (shared_of h') = queued (shared_of h)" "d = is_dead h'"
      using assms(3) by (simp_all add: decrement_post_def)
    have "same_place h h'" using c(2) q(1) raw(2) by (simp add: same_place_def)
    moreover have "settled h'" using assms(1,3) c q(1) by (auto simp: settled_def decrement_post_def)
    ultimately show ?thesis using Shared_done q(2) by (simp add: decrement_moves_def)
  next
    case Do_queue
    then show ?thesis
      using assms(1,3) c raw(2) settled_awaits [OF assms(1)]
      by (auto simp: decrement_moves_def decrement_post_def settled_def awaits_merge_def)
  qed
qed

lemma decrement_settled:
  assumes "settled h" "0 < logical_count h"
  shows "\<exists>r h'. decrement_strong dbg me [] h = Inr (r, h') \<and> settled h'
    \<and> logical_count h' = logical_count h - 1 \<and> decrement_moves h r h'"
proof -
  obtain r h' where r: "decrement_strong dbg me [] h = Inr (r, h')" "decrement_post h r h'"
    using decrement_strong_ok [OF settled_ok [OF assms(1)] assms(2)] by blast
  have "settled h' \<and> decrement_moves h r h'"
  proof (cases "decrement_biased_next dbg me (biased_word h)")
    case (Inl e)
    then show ?thesis using r(1) by (simp add: decrement_strong_def decrement_biased_def)
  next
    case b: (Inr b)
    show ?thesis
    proof (cases b)
      case None
      then have "decrement_shared dbg [] h = Inr (r, h')"
        using r(1) b by (simp add: decrement_strong_def decrement_biased_def)
      then show ?thesis by (rule decrement_shared_moves [OF assms(1) _ r(2)])
    next
      case (Some x)
      show ?thesis
      proof (cases x)
        case (Biased_store raw)
        then have h': "h' = h\<lparr>biased_word := raw\<rparr>" "r = Shared_done False"
          using r(1) b Some by (auto simp: decrement_strong_def decrement_biased_def)
        obtain c where "BiasedWord_from_raw raw = (biased_of h)\<lparr>biased_count := c\<rparr>"
          using decrement_biased_next_store b Some Biased_store by blast
        then show ?thesis
          using assms(1) r(2) h' by (simp add: settled_def decrement_moves_def same_place_def decrement_post_def)
      next
        case Biased_slow
        then obtain d where d: "decrement_biased_slow dbg h = Inr (d, h')" "r = Shared_done d"
          using r(1) b Some by (auto simp: decrement_strong_def decrement_biased_def checked_simps)
        have one: "biased_value h = 1" "owner_id (biased_of h) \<noteq> None"
          using decrement_biased_next_slow b Some Biased_slow by blast+
        then have "\<not> awaits_merge h"
          using assms owned_unmerged [OF settled_ok [OF assms(1)]] by (auto simp: awaits_merge_def logical_count_def)
        moreover have "merged (shared_of h')"
          using d(1) by (auto simp: decrement_biased_slow_def checked_simps SharedWord_fetch_or)
        ultimately show ?thesis
          using r(2) d(2) by (simp add: settled_def decrement_moves_def decrement_post_def)
      qed
    qed
  qed
  then show ?thesis using r by (auto simp: decrement_post_def)
qed

section \<open>Merges\<close>

lemma merged_header_settled:
  assumes "mergeable_header sid h"
  shows "settled (merged_header h)" "owner_id (biased_of (merged_header h)) = None"
    "is_dead (merged_header h) \<longleftrightarrow> logical_count h = 0" "logical_count (merged_header h) = logical_count h"
proof -
  note M = merged_header_ok [OF assms]
  show "settled (merged_header h)" using M(1,2) by (simp add: settled_def)
  show "owner_id (biased_of (merged_header h)) = None" using M(1,2) by (simp add: header_ok_def)
  show "logical_count (merged_header h) = logical_count h" by (rule M(3))
  show "is_dead (merged_header h) \<longleftrightarrow> logical_count h = 0"
    using M by (auto simp: is_dead_def logical_count_def)
qed

text \<open>A header that waits can always be merged.\<close>

lemma awaits_mergeable:
  "settled h \<Longrightarrow> awaits_merge h \<Longrightarrow> owner_id (biased_of h) = Some sid \<Longrightarrow> mergeable_header sid h"
  by (auto simp: mergeable_header_def settled_def awaits_merge_def)

lemma new_settled:
  assumes "\<And>s. this_id = Some s \<Longrightarrow> short_id_ok s"
  shows "settled (init_for this_id)" "owner_id (biased_of (init_for this_id)) = this_id"
    "\<not> queued (shared_of (init_for this_id))"
proof -
  show q: "\<not> queued (shared_of (init_for this_id))" by (cases this_id) (simp_all add: init_for_words)
  show "settled (init_for this_id)" using q init_for_counts_one(1) [of this_id] assms by (simp add: settled_def)
  show "owner_id (biased_of (init_for this_id)) = this_id"
    using assms by (cases this_id) (simp_all add: init_for_words)
qed

end
