(* ===== verification/Client_Invariant.thy ===== *)
theory Client_Invariant
  imports Client_Headers
begin

text \<open>
  The invariant that ties the heap, the queues and the thread table to the pointers that a program
  holds: every object counts exactly the pointers that refer to it, its value is there while a strong
  one exists, and an object waits in the queue of its owner exactly when its shared count is negative.
  The lemmas say how the invariant follows a change of one object, and that merging keeps it.
\<close>

section \<open>Environments\<close>

text \<open>
  What the library relies on: layouts that \<open>Layout\<close> can hold, an allocator that gives free aligned
  memory, and a table that gives a new entry an unused index while there is one.
\<close>

definition allocator_ok :: "('q, 'v) env \<Rightarrow> bool" where
  "allocator_ok E \<longleftrightarrow> layout_ok (allocator_layout E) \<and> (\<forall>m. layout_ok (layout_for E m))
     \<and> (\<forall>L w a. allocate E L w = Some a \<longrightarrow> heap w a = None \<and> align_of L dvd a)"

definition indices_fresh :: "('q, 'v) env \<Rightarrow> bool" where
  "indices_fresh E \<longleftrightarrow> (\<forall>T i. T i = None \<and> i < 2 ^ 64 - 1 \<longrightarrow>
     T (unat (next_index E T)) = None \<and> unat (next_index E T) < 2 ^ 64 - 1)"

definition env_ok :: "('q, 'v) env \<Rightarrow> ('q \<Rightarrow> QueuedObject list) \<Rightarrow> bool" where
  "env_ok E items \<longleftrightarrow> needs_drop E \<and> fifo E items \<and> allocator_ok E \<and> indices_fresh E"

lemma env_okD:
  assumes "env_ok E items"
  shows "needs_drop E" "fifo E items" "allocator_ok E" "indices_fresh E"
  using assms by (simp_all add: env_ok_def)

section \<open>One object\<close>

definition weak_of :: "Brc \<Rightarrow> Weak" where
  "weak_of b = Weak_from_raw (value_ptr b) (meta b)"

lemma weak_of_points: "weak_points_to E (weak_of b) a ob \<Longrightarrow> points_to E b a ob"
  by (simp add: weak_points_to_def points_to_def weak_of_def Weak_from_raw_def)

lemma weak_of_Brc: "weak_of (Brc_from_raw (value_ptr_or_reserved x) (weak_meta x)) = x"
  by (simp add: weak_of_def Weak_from_raw_def Brc_from_raw_def)

text \<open>
  An object with the strong and weak pointers to it. All strong pointers together count as one weak
  reference until the value is gone.
\<close>

definition obj_ok ::
  "('q, 'v) env \<Rightarrow> Brc multiset \<Rightarrow> Weak multiset \<Rightarrow> addr \<Rightarrow> 'v object \<Rightarrow> bool" where
  "obj_ok E S W a ob \<longleftrightarrow>
     settled (strong ob) \<and> logical_count (strong ob) = int (size S)
     \<and> uint (weak_count ob) = int (size W) + of_bool (\<not> is_dead (strong ob)) \<and> weak_count ob \<noteq> 0
     \<and> uint (weak_count ob) \<le> 2 ^ 31
     \<and> (contents ob = None \<longleftrightarrow> is_dead (strong ob))
     \<and> align_of (block ob) dvd a
     \<and> (\<forall>h \<in># S. weak_points_to E (weak_of h) a ob)
     \<and> (\<forall>x \<in># W. weak_points_to E x a ob)"

lemma obj_okD:
  assumes "obj_ok E S W a ob"
  shows "settled (strong ob)" "logical_count (strong ob) = int (size S)"
    "uint (weak_count ob) = int (size W) + of_bool (\<not> is_dead (strong ob))" "weak_count ob \<noteq> 0"
    "contents ob = None \<longleftrightarrow> is_dead (strong ob)" "uint (weak_count ob) \<le> 2 ^ 31"
    "h \<in># S \<Longrightarrow> weak_points_to E (weak_of h) a ob \<and> points_to E h a ob"
    "x \<in># W \<Longrightarrow> weak_points_to E x a ob" "align_of (block ob) dvd a"
  using assms weak_of_points [of E h a ob] by (simp_all add: obj_ok_def)

lemma obj_ok_alive:
  assumes "obj_ok E S W a ob" "h \<in># S"
  shows "\<not> is_dead (strong ob)" "0 < logical_count (strong ob)" "shared_value (strong ob) \<le> int (size S)"
proof -
  note O = obj_okD [OF assms(1)]
  show pos: "0 < logical_count (strong ob)"
    using O(2) assms(2) by (auto simp: size_multiset_overloaded_def dest: multi_member_split)
  show "\<not> is_dead (strong ob)" using pos header_ok_dead [OF settled_ok [OF O(1)]] by auto
  show "shared_value (strong ob) \<le> int (size S)"
  proof -
    have "shared_value (strong ob) \<le> logical_count (strong ob)" by (simp add: logical_count_def)
    then show ?thesis using O(2) by simp
  qed
qed

lemma weak_points_to_update [simp]:
  "weak_points_to E x a (ob\<lparr>strong := h\<rparr>) = weak_points_to E x a ob"
  "weak_points_to E x a (ob\<lparr>weak_count := n\<rparr>) = weak_points_to E x a ob"
  "weak_points_to E x a (ob\<lparr>contents := c\<rparr>) = weak_points_to E x a ob"
  by (simp_all add: weak_points_to_def)

text \<open>One strong pointer more, when the count says so.\<close>

lemma obj_ok_gain:
  assumes ok: "obj_ok E S W a ob" and alive: "\<not> is_dead (strong ob)"
    and h': "settled h'" "logical_count h' = logical_count (strong ob) + 1"
    and b: "weak_points_to E (weak_of b) a ob"
  shows "obj_ok E (add_mset b S) W a (ob\<lparr>strong := h'\<rparr>)"
proof -
  note O = obj_okD [OF ok]
  have "\<not> is_dead h'" using h' O(2) alive_pos [OF settled_ok [OF h'(1)]] by simp
  then show ?thesis using O alive h' b by (auto simp: obj_ok_def)
qed

text \<open>One strong pointer less, when it was not the last.\<close>

lemma obj_ok_lose:
  assumes ok: "obj_ok E S W a ob" and b: "b \<in># S"
    and h': "settled h'" "logical_count h' = logical_count (strong ob) - 1" "\<not> is_dead h'"
  shows "obj_ok E (S - {#b#}) W a (ob\<lparr>strong := h'\<rparr>)"
proof -
  note O = obj_okD [OF ok] and alive = obj_ok_alive [OF ok b]
  obtain S' where "S = add_mset b S'" using b by (metis multi_member_split)
  then have "int (size (S - {#b#})) = int (size S) - 1" by simp
  then show ?thesis
    using O alive(1) h' by (auto simp: obj_ok_def dest: in_diffD)
qed

definition slot_ok ::
  "('q, 'v) env \<Rightarrow> Brc multiset \<Rightarrow> Weak multiset \<Rightarrow> addr \<Rightarrow> 'v object option \<Rightarrow> bool" where
  "slot_ok E S W a slot \<longleftrightarrow> (case slot of None \<Rightarrow> S = {#} \<and> W = {#} | Some ob \<Rightarrow> obj_ok E S W a ob)"

lemma slot_ok_simps [simp]:
  "slot_ok E S W a None \<longleftrightarrow> S = {#} \<and> W = {#}"
  "slot_ok E S W a (Some ob) \<longleftrightarrow> obj_ok E S W a ob"
  by (simp_all add: slot_ok_def)

text \<open>
  The last strong pointer is gone: the value is taken out to be destroyed. Until that is done, the weak
  reference that the strong ones shared is somebody's: a weak pointer \<open>x\<close> that no program has.
\<close>

lemma obj_ok_open:
  assumes ok: "obj_ok E S W a ob" and alive: "\<not> is_dead (strong ob)"
    and h': "settled h'" "is_dead h'" and x: "weak_points_to E x a ob"
  shows "obj_ok E {#} (add_mset x W) a (ob\<lparr>strong := h', contents := None\<rparr>)"
  using obj_okD(3-) [OF ok] alive h' x header_ok_dead [OF settled_ok [OF h'(1)] h'(2)]
  by (auto simp: obj_ok_def)

text \<open>A merge that leaves references: the counts stay, and the owner is gone.\<close>

lemma obj_ok_merge:
  assumes ok: "obj_ok E S W a ob" and alive: "\<not> is_dead (strong ob)" and m: "mergeable_header sid (strong ob)"
    and some: "logical_count (strong ob) \<noteq> 0"
  shows "obj_ok E S W a (ob\<lparr>strong := merged_header (strong ob)\<rparr>)"
proof -
  note O = obj_okD [OF ok] and M = merged_header_settled [OF m]
  have "\<not> is_dead (merged_header (strong ob))" using M(3) some by simp
  then show ?thesis using O M(1,4) alive by (auto simp: obj_ok_def)
qed

text \<open>The weak pointer for the shared reference, from the information that a queued object carries.\<close>

lemma typed_weak:
  assumes "allocator_ok E" "align_of (block ob) dvd a" "typed E m offset ob"
  shows "weak_points_to E (Weak_from_raw (int a + offset) m) a ob"
proof -
  obtain info where i: "LayoutInfo_new (allocator_layout E) (layout_for E m) = Some info"
    "value_offset info = offset" "block ob = full_layout info"
    using typed_info [OF assms(3)] by blast
  have "even (int a + offset)"
    using value_address_even [OF _ _ i(1), of "int a"] assms(1,2) i(2,3) by (simp add: allocator_ok_def)
  moreover have "odd (int usize_MAX)" by (simp add: usize_MAX_def)
  ultimately have "even (int a + offset) \<and> int a + offset \<noteq> int usize_MAX" by metis
  then show ?thesis using assms(3) by (simp add: weak_points_to_def Weak_from_raw_def)
qed

lemma weak_points_header: "weak_points_to E x a ob \<Longrightarrow> WeakReal_header_ptr E x = Inr a"
  by (auto simp: weak_points_to_def WeakReal_header_ptr_def WeakReal_layout_info_def header_ptr_for_def
      header_offset_def dest: typed_info)

section \<open>The whole library\<close>

text \<open>The pointers that refer to the object at an address.\<close>

definition held :: "('q, 'v) env \<Rightarrow> addr \<Rightarrow> Brc multiset \<Rightarrow> Brc multiset" where
  "held E a S = {#h \<in># S. Brc_header_ptr E h = Inr a#}"

definition held_weak :: "('q, 'v) env \<Rightarrow> addr \<Rightarrow> Weak multiset \<Rightarrow> Weak multiset" where
  "held_weak E a W = {#x \<in># W. WeakReal_header_ptr E x = Inr a#}"

definition pointers_ok :: "('q, 'v) env \<Rightarrow> Brc multiset \<Rightarrow> Weak multiset \<Rightarrow> bool" where
  "pointers_ok E S W \<longleftrightarrow> (\<forall>h \<in># S. \<exists>a. Brc_header_ptr E h = Inr a)
     \<and> (\<forall>x \<in># W. \<exists>a. WeakReal_header_ptr E x = Inr a)"

definition heap_ok ::
  "('q, 'v) env \<Rightarrow> (addr \<Rightarrow> 'v object option) \<Rightarrow> Brc multiset \<Rightarrow> Weak multiset \<Rightarrow> bool" where
  "heap_ok E H S W \<longleftrightarrow> (\<forall>a. slot_ok E (held E a S) (held_weak E a W) a (H a))"

text \<open>The owner of an object is in the table, and the object in its queue when it is marked so.\<close>

definition owner_ok ::
  "('q \<Rightarrow> QueuedObject list) \<Rightarrow> ('q, 'v) world \<Rightarrow> addr \<Rightarrow> RawBrcHeader \<Rightarrow> bool" where
  "owner_ok items w a h \<longleftrightarrow>
     (case owner_id (biased_of h) of
        None \<Rightarrow> True
      | Some sid \<Rightarrow> (\<exists>i info. get_by_id sid w = Inr (Some (i, info)) \<and> info_short_id info = sid
          \<and> (queued (shared_of h) \<longrightarrow> a \<in> header_ptr ` set (items (queue_inner info)))))"

definition owners_ok :: "('q \<Rightarrow> QueuedObject list) \<Rightarrow> ('q, 'v) world \<Rightarrow> bool" where
  "owners_ok items w \<longleftrightarrow> (\<forall>a ob. heap w a = Some ob \<longrightarrow> owner_ok items w a (strong ob))"

text \<open>What is in a queue waits for its merge by the owner of the queue; the queue of a
  thread that has ended is empty, and one with objects in it has told its thread.\<close>

definition waits_in :: "('q, 'v) env \<Rightarrow> (addr \<Rightarrow> 'v object option) \<Rightarrow> ShortThreadId \<Rightarrow> QueuedObject \<Rightarrow> bool" where
  "waits_in E H sid q \<longleftrightarrow>
     (case H (header_ptr q) of
        None \<Rightarrow> False
      | Some ob \<Rightarrow> queued (shared_of (strong ob)) \<and> owner_id (biased_of (strong ob)) = Some sid
          \<and> (\<exists>m offset. drop_info q = erase m offset \<and> typed E m offset ob))"

definition queue_ok ::
  "('q, 'v) env \<Rightarrow> ('q \<Rightarrow> QueuedObject list) \<Rightarrow> (addr \<Rightarrow> 'v object option) \<Rightarrow> 'q SharedThreadInfo \<Rightarrow> bool" where
  "queue_ok E items H info \<longleftrightarrow>
     distinct (map header_ptr (items (queue_inner info)))
     \<and> (\<forall>q \<in> set (items (queue_inner info)). waits_in E H (queue_short_id info) q)
     \<and> (if queue_strong info = 0
        then state_flag info = Dying \<or> state_flag info = Dead \<and> items (queue_inner info) = []
        else is_live (state_flag info) \<and> (items (queue_inner info) = [] \<or> state_flag info = QueuedObjects))"

definition queues_ok :: "('q, 'v) env \<Rightarrow> ('q \<Rightarrow> QueuedObject list) \<Rightarrow> ('q, 'v) world \<Rightarrow> bool" where
  "queues_ok E items w \<longleftrightarrow> (\<forall>i info. entry w i = Some info \<longrightarrow> queue_ok E items (heap w) info)"

text \<open>
  A queue that is still there has its thread, and while ids are left, every entry of the table is that
  of a thread.
\<close>

definition staffed :: "('q, 'v) world \<Rightarrow> bool" where
  "staffed w \<longleftrightarrow> (\<forall>i info. entry w i = Some info \<and> 0 < queue_strong info \<longrightarrow>
     (\<exists>t st. tls w t = Tls_alive (Inr st) \<and> shared_info st = i))"

definition table_open :: "('q, 'v) world \<Rightarrow> bool" where
  "table_open w \<longleftrightarrow> (\<not> ids_exhausted w \<longrightarrow> (\<forall>i e. threads w i \<noteq> Some (Inl e))) \<and> staffed w"

lemma table_openD: "table_open w \<Longrightarrow> \<not> ids_exhausted w \<Longrightarrow> threads w i \<noteq> Some (Inl e)" "table_open w \<Longrightarrow> staffed w"
  by (simp_all add: table_open_def)

lemma staffed_heap [simp]: "staffed (w\<lparr>heap := H\<rparr>) = staffed w"
  by (simp add: staffed_def entry_def)

lemma staffed_store [simp]: "staffed (store a ob w) = staffed w"
  by (simp add: staffed_def entry_def)

lemma staffed_set_entry:
  assumes "staffed w" "entry w i = Some info" "queue_strong info' = 0 \<or> 0 < queue_strong info"
  shows "staffed (set_entry i info' w)"
  using assms unfolding staffed_def by (auto simp: entry_def)

lemma table_open_set_entry:
  assumes "table_open w" "entry w i = Some info" "queue_strong info' = 0 \<or> 0 < queue_strong info"
  shows "table_open (set_entry i info' w)"
  using assms staffed_set_entry by (auto simp: table_open_def)

definition lib_ok ::
  "('q, 'v) env \<Rightarrow> ('q \<Rightarrow> QueuedObject list) \<Rightarrow> ('q, 'v) world
    \<Rightarrow> Brc multiset \<Rightarrow> Weak multiset \<Rightarrow> bool" where
  "lib_ok E items w S W \<longleftrightarrow> runtime_ok w \<and> table_open w \<and> pointers_ok E S W \<and> heap_ok E (heap w) S W
     \<and> owners_ok items w \<and> queues_ok E items w"

lemma lib_okD:
  assumes "lib_ok E items w S W"
  shows "runtime_ok w" "table_open w" "pointers_ok E S W" "slot_ok E (held E a S) (held_weak E a W) a (heap w a)"
    "heap w a = Some ob \<Longrightarrow> obj_ok E (held E a S) (held_weak E a W) a ob"
    "heap w a = Some ob \<Longrightarrow> owner_ok items w a (strong ob)"
    "entry w i = Some info \<Longrightarrow> queue_ok E items (heap w) info"
proof -
  show slot: "slot_ok E (held E a S) (held_weak E a W) a (heap w a)"
    using assms by (simp add: lib_ok_def heap_ok_def)
  show "heap w a = Some ob \<Longrightarrow> obj_ok E (held E a S) (held_weak E a W) a ob" using slot by simp
  show "heap w a = Some ob \<Longrightarrow> owner_ok items w a (strong ob)"
    using assms by (simp add: lib_ok_def owners_ok_def)
  show "entry w i = Some info \<Longrightarrow> queue_ok E items (heap w) info"
    using assms by (simp add: lib_ok_def queues_ok_def)
qed (use assms in \<open>simp_all add: lib_ok_def\<close>)

lemma held_simps [simp]:
  "held E a {#} = {#}" "held_weak E a {#} = {#}"
  "held E a (add_mset h S) = (if Brc_header_ptr E h = Inr a then add_mset h (held E a S) else held E a S)"
  "held_weak E a (add_mset x W) =
     (if WeakReal_header_ptr E x = Inr a then add_mset x (held_weak E a W) else held_weak E a W)"
  "held E a (S - {#h#}) = (if Brc_header_ptr E h = Inr a then held E a S - {#h#} else held E a S)"
  "held_weak E a (W - {#x#}) =
     (if WeakReal_header_ptr E x = Inr a then held_weak E a W - {#x#} else held_weak E a W)"
  by (simp_all add: held_def held_weak_def)

text \<open>A pointer of the program leads to an object.\<close>

lemma strong_target:
  assumes "lib_ok E items w S W" "h \<in># S"
  obtains a ob where "Brc_header_ptr E h = Inr a" "heap w a = Some ob" "h \<in># held E a S"
    "obj_ok E (held E a S) (held_weak E a W) a ob" "points_to E h a ob"
proof -
  obtain a where a: "Brc_header_ptr E h = Inr a"
    using lib_okD(3) [OF assms(1)] assms(2) by (auto simp: pointers_ok_def)
  then have h: "h \<in># held E a S" using assms(2) by (simp add: held_def)
  then obtain ob where ob: "heap w a = Some ob"
    using lib_okD(4) [OF assms(1), of a] by (cases "heap w a") auto
  note O = lib_okD(5) [OF assms(1) ob]
  show thesis by (rule that [OF a ob h O]) (use obj_okD(7) [OF O h] in simp)
qed

lemma weak_target:
  assumes "lib_ok E items w S W" "x \<in># W"
  obtains a ob where "WeakReal_header_ptr E x = Inr a" "heap w a = Some ob" "x \<in># held_weak E a W"
    "obj_ok E (held E a S) (held_weak E a W) a ob" "weak_points_to E x a ob"
proof -
  obtain a where a: "WeakReal_header_ptr E x = Inr a"
    using lib_okD(3) [OF assms(1)] assms(2) by (auto simp: pointers_ok_def)
  then have x: "x \<in># held_weak E a W" using assms(2) by (simp add: held_weak_def)
  then obtain ob where ob: "heap w a = Some ob"
    using lib_okD(4) [OF assms(1), of a] by (cases "heap w a") auto
  note O = lib_okD(5) [OF assms(1) ob]
  show thesis by (rule that [OF a ob x O]) (use obj_okD(8) [OF O x] in simp)
qed

section \<open>Changing one object\<close>

lemma runtime_ok_heap [simp]: "runtime_ok (w\<lparr>heap := H\<rparr>) = runtime_ok (w :: ('q, 'v) world)"
  by (simp add: runtime_ok_def thread_ok_def table_ok_def entries_distinct_def alive_entry_def
      cong: tls_slot.case_cong sum.case_cong)

lemma get_by_id_entry:
  "get_by_id sid w = Inr (Some (i, info)) \<longleftrightarrow>
     (\<exists>k. ShortThreadId_index sid = Inr k \<and> unat k = i \<and> entry w i = Some info)"
  by (cases "ShortThreadId_index sid") (auto simp: get_by_id_def entry_def split: option.split sum.split)

lemma owner_ok_place: "same_place h h' \<Longrightarrow> owner_ok items w a h' = owner_ok items w a h"
  by (simp add: owner_ok_def same_place_def split: option.split)

lemma owner_ok_frame:
  "threads w' = threads w \<Longrightarrow> owner_ok items w' a h = owner_ok items w a h"
  by (simp add: owner_ok_def get_by_id_def split: option.split)

lemma typed_block: "block ob' = block ob \<Longrightarrow> typed E m offset ob' = typed E m offset ob"
  by (simp add: typed_def split: option.split)

text \<open>What the new content of an address may do to the queues.\<close>

definition moves :: "'v object \<Rightarrow> 'v object option \<Rightarrow> bool" where
  "moves ob slot \<longleftrightarrow>
     (case slot of
        None \<Rightarrow> \<not> awaits_merge (strong ob)
      | Some ob' \<Rightarrow> block ob' = block ob \<and>
          (same_place (strong ob) (strong ob')
           \<or> owner_id (biased_of (strong ob')) = None \<and> \<not> awaits_merge (strong ob)))"

lemma moves_simps [simp]:
  "moves ob None \<longleftrightarrow> \<not> awaits_merge (strong ob)"
  "moves ob (Some ob') \<longleftrightarrow> block ob' = block ob \<and>
     (same_place (strong ob) (strong ob')
      \<or> owner_id (biased_of (strong ob')) = None \<and> \<not> awaits_merge (strong ob))"
  by (simp_all add: moves_def)

lemma waits_in_awaits:
  assumes "waits_in E H sid q" "H (header_ptr q) = Some ob" "settled (strong ob)"
  shows "awaits_merge (strong ob)" "owner_id (biased_of (strong ob)) = Some sid"
  using assms owned_unmerged [OF settled_ok [OF assms(3)]] by (auto simp: waits_in_def settled_awaits)

lemma waits_in_update:
  assumes "waits_in E H sid q" "H a = Some ob" "settled (strong ob)" "moves ob slot"
  shows "waits_in E (H(a := slot)) sid q"
proof (cases "header_ptr q = a")
  case True
  then have "awaits_merge (strong ob)" "owner_id (biased_of (strong ob)) = Some sid"
    using waits_in_awaits [OF assms(1) _ assms(3)] assms(2) by simp_all
  then obtain ob' where "slot = Some ob'" "block ob' = block ob" "same_place (strong ob) (strong ob')"
    using assms(4) by (auto simp: moves_def split: option.splits)
  then show ?thesis
    using assms(1,2) True typed_block [of ob' ob E] by (simp add: waits_in_def same_place_def)
qed (use assms(1) in \<open>simp add: waits_in_def\<close>)

lemma lib_ok_object:
  assumes ok: "lib_ok E items w S W" and ob: "heap w a = Some ob"
    and slot: "slot_ok E (held E a S') (held_weak E a W') a slot" "moves ob slot"
    and ptrs: "pointers_ok E S' W'"
    and frame: "\<And>c. c \<noteq> a \<Longrightarrow> held E c S' = held E c S \<and> held_weak E c W' = held_weak E c W"
  shows "lib_ok E items (w\<lparr>heap := (heap w)(a := slot)\<rparr>) S' W'"
proof -
  let ?w = "w\<lparr>heap := (heap w)(a := slot)\<rparr>"
  note L = lib_okD [OF ok] and O = obj_okD [OF lib_okD(5) [OF ok ob]]
  have "slot_ok E (held E c S') (held_weak E c W') c (((heap w)(a := slot)) c)" for c
    using slot(1) L(4) [of c] frame [of c] by (cases "c = a") simp_all
  then have "heap_ok E (heap ?w) S' W'" by (simp add: heap_ok_def)
  moreover have "owner_ok items ?w c (strong ob')" if "heap ?w c = Some ob'" for c ob'
  proof (cases "c = a")
    case True
    then have "slot = Some ob'" using that by simp
    moreover have "owner_ok items ?w a (strong ob)" using L(6) [OF ob] owner_ok_frame [of ?w w] by simp
    ultimately show ?thesis
      using slot(2) True owner_ok_place [of "strong ob" "strong ob'"] by (auto simp: owner_ok_def)
  qed (use that L(6) [of c ob'] owner_ok_frame [of ?w w] in simp)
  moreover have "queue_ok E items (heap ?w) info" if "entry ?w i = Some info" for i info
  proof -
    have "waits_in E (heap ?w) sid q" if "waits_in E (heap w) sid q" for sid q
      using waits_in_update [OF that ob O(1) slot(2)] by simp
    then show ?thesis using L(7) [of i info] that unfolding queue_ok_def by auto
  qed
  ultimately show ?thesis
    using L(1,2) ptrs by (simp add: lib_ok_def owners_ok_def queues_ok_def table_open_def)
qed

section \<open>Merging a queue\<close>

lemma entry_owner:
  assumes "runtime_ok w" "entry w i = Some info" "entry w j = Some info'" "info_short_id info = info_short_id info'"
  shows "i = j"
proof -
  have "short_id_nat (info_short_id info) = i + 1" "short_id_nat (info_short_id info') = j + 1"
    using table_okD [OF runtime_okD(2) [OF assms(1)]] assms(2,3) by (simp_all add: entry_threads)
  then show ?thesis using assms(4) by simp
qed

lemma queue_ids: "runtime_ok w \<Longrightarrow> entry w i = Some info \<Longrightarrow> queue_short_id info = info_short_id info"
  using table_okD [OF runtime_okD(2)] by (auto simp: entry_threads)

lemma lib_ok_queued:
  assumes ok: "lib_ok E items w S W" and e: "entry w i = Some info" and q: "q \<in> set (items (queue_inner info))"
  obtains ob where "heap w (header_ptr q) = Some ob" "awaits_merge (strong ob)"
    "owner_id (biased_of (strong ob)) = Some (info_short_id info)" "mergeable_header (info_short_id info) (strong ob)"
    "contents ob \<noteq> None" "\<exists>m offset. drop_info q = erase m offset \<and> typed E m offset ob"
proof -
  have wait: "waits_in E (heap w) (info_short_id info) q"
    using lib_okD(7) [OF ok e] q queue_ids [OF lib_okD(1) [OF ok] e] by (simp add: queue_ok_def)
  then obtain ob where ob: "heap w (header_ptr q) = Some ob" by (auto simp: waits_in_def split: option.splits)
  note O = obj_okD [OF lib_okD(5) [OF ok ob]] and A = waits_in_awaits [OF wait ob O(1)]
  have "\<not> is_dead (strong ob)" using A(1) by (simp add: awaits_merge_def is_dead_def)
  then show thesis
    using that [OF ob A awaits_mergeable [OF O(1) A]] O(5) wait ob by (auto simp: waits_in_def)
qed

lemma runtime_ok_set_entry:
  assumes ok: "runtime_ok (w :: ('q, 'v) world)" and e: "entry w i = Some info"
    and same: "info_short_id info' = info_short_id info" "queue_short_id info' = queue_short_id info"
    and alive: "is_live (state_flag info) \<and> 0 < queue_strong info \<longrightarrow> is_live (state_flag info') \<and> 0 < queue_strong info'"
  shows "runtime_ok (set_entry i info' w)"
proof -
  have "alive_entry st (set_entry i info' w)" if "alive_entry st w" for st
    using that same e alive by (auto simp: alive_entry_def entry_threads)
  then have "thread_ok (set_entry i info' w) t" for t
    using runtime_okD(1) [OF ok, of t] by (auto simp: thread_ok_def split: tls_slot.splits sum.splits)
  moreover have "table_ok (set_entry i info' w)"
    using runtime_okD(2) [OF ok] e same by (auto simp: table_ok_def entry_threads)
  moreover have "entries_distinct (set_entry i info' w)"
    using runtime_okD(3) [OF ok] by (simp add: entries_distinct_def)
  ultimately show ?thesis by (simp add: runtime_ok_def)
qed

text \<open>Only the entry of one thread changes, and with it not what is in its queue.\<close>

lemma lib_ok_entry:
  assumes ok: "lib_ok E items w S W" and e: "entry w i = Some info"
    and same: "info_short_id info' = info_short_id info" "queue_short_id info' = queue_short_id info"
      "queue_inner info' = queue_inner info"
    and q: "if queue_strong info' = 0
        then state_flag info' = Dying \<or> state_flag info' = Dead \<and> items (queue_inner info) = []
        else is_live (state_flag info') \<and> (items (queue_inner info) = [] \<or> state_flag info' = QueuedObjects)"
    and open': "runtime_ok w'" "table_open w'" and w': "threads w' = (threads w)(i \<mapsto> Inr info')" "heap w' = heap w"
  shows "lib_ok E items w' S W"
proof -
  note L = lib_okD [OF ok]
  have entries: "entry w' j = (if j = i then Some info' else entry w j)" for j using w'(1) by (simp add: entry_def)
  have "owner_ok items w' a h" if own: "owner_ok items w a h" for a h
  proof (cases "owner_id (biased_of h)")
    case (Some sid)
    then obtain j x where x: "get_by_id sid w = Inr (Some (j, x))" "info_short_id x = sid"
      "queued (shared_of h) \<longrightarrow> a \<in> header_ptr ` set (items (queue_inner x))"
      using own by (auto simp: owner_ok_def)
    then have "get_by_id sid w' = Inr (Some (j, if j = i then info' else x))"
      using entries by (auto simp: get_by_id_entry)
    moreover have "j = i \<Longrightarrow> x = info" using x(1) e by (auto simp: get_by_id_entry)
    ultimately show ?thesis using Some x(2,3) same by (auto simp: owner_ok_def)
  qed (simp add: owner_ok_def)
  then have "owners_ok items w'" using L(6) w'(2) by (simp add: owners_ok_def)
  moreover have "queue_ok E items (heap w') x" if x: "entry w' j = Some x" for j x
  proof (cases "j = i")
    case True
    have "queue_ok E items (heap w') info'"
      using L(7) [OF e] same(2,3) q w'(2) unfolding queue_ok_def by simp
    then show ?thesis using x entries True by simp
  next
    case False
    then show ?thesis using x entries L(7) [of j x] w'(2) by simp
  qed
  ultimately show ?thesis
    using ok open' w'(2) by (simp add: lib_ok_def queues_ok_def)
qed

text \<open>
  The first object of a queue leaves it, as the merge takes it from its owner; \<open>ob'\<close> is what the merge
  makes of it.
\<close>

lemma lib_ok_unqueue:
  assumes ok: "lib_ok E items w S W" and e: "entry w i = Some info"
    and q: "items (queue_inner info) = q # qs" "items rest = qs" and ob: "heap w (header_ptr q) = Some ob"
    and ob': "obj_ok E (held E (header_ptr q) S') (held_weak E (header_ptr q) W') (header_ptr q) ob'"
      "owner_id (biased_of (strong ob')) = None"
    and ptrs: "pointers_ok E S' W'"
    and frame: "\<And>c. c \<noteq> header_ptr q \<Longrightarrow> held E c S' = held E c S \<and> held_weak E c W' = held_weak E c W"
  shows "lib_ok E items (set_entry i (info\<lparr>queue_inner := rest\<rparr>) (store (header_ptr q) ob' w)) S' W'"
proof -
  let ?info = "info\<lparr>queue_inner := rest\<rparr>" and ?a = "header_ptr q"
  let ?w = "set_entry i ?info (store ?a ob' w)"
  note L = lib_okD [OF ok]
  have entries: "entry ?w j = (if j = i then Some ?info else entry w j)" for j by (simp add: entry_def)
  have alone: "header_ptr y \<noteq> ?a" if y: "entry w j = Some x" "y \<in> set (items (queue_inner x))" "j = i \<Longrightarrow> y \<in> set qs"
    for j x y
  proof (cases "j = i")
    case True
    then have "header_ptr y \<in> header_ptr ` set qs" using y(3) by blast
    then show ?thesis using L(7) [OF e] q(1) by (auto simp: queue_ok_def)
  next
    case False
    obtain ob1 where "heap w (header_ptr y) = Some ob1" "owner_id (biased_of (strong ob1)) = Some (info_short_id x)"
      using lib_ok_queued [OF ok y(1,2)] by metis
    moreover obtain ob2 where "heap w ?a = Some ob2" "owner_id (biased_of (strong ob2)) = Some (info_short_id info)"
      using lib_ok_queued [OF ok e, of q] q(1) by force
    ultimately show ?thesis using entry_owner [OF L(1) e y(1)] False by auto
  qed
  have "runtime_ok ?w" by (rule runtime_ok_set_entry [of _ _ info]) (use L(1) e in \<open>simp_all add: entry_def\<close>)
  moreover have "table_open ?w"
    by (rule table_open_set_entry [of _ _ info]) (use L(2) e in \<open>auto simp: table_open_def entry_def\<close>)
  moreover have "heap_ok E (heap ?w) S' W'" using ob'(1) frame L(4) by (simp add: heap_ok_def)
  moreover have "owner_ok items ?w c (strong x)" if x: "heap ?w c = Some x" for c x
  proof (cases "c = ?a \<or> owner_id (biased_of (strong x)) = None")
    case True
    then show ?thesis using x ob'(2) by (auto simp: owner_ok_def)
  next
    case False
    then obtain sid where sid: "owner_id (biased_of (strong x)) = Some sid" "c \<noteq> ?a" by blast
    then obtain j y where y: "get_by_id sid w = Inr (Some (j, y))" "info_short_id y = sid"
      "queued (shared_of (strong x)) \<longrightarrow> c \<in> header_ptr ` set (items (queue_inner y))"
      using L(6) [of c x] x unfolding owner_ok_def by (auto split: option.splits)
    then have "get_by_id sid ?w = Inr (Some (j, if j = i then ?info else y))"
      using entries by (auto simp: get_by_id_entry)
    moreover have "j = i \<Longrightarrow> y = info" using y(1) e by (auto simp: get_by_id_entry)
    ultimately show ?thesis using sid y(2,3) q by (auto simp: owner_ok_def)
  qed
  moreover have "queue_ok E items (heap ?w) x" if x: "entry ?w j = Some x" for j x
  proof -
    obtain y where y: "entry w j = Some y" "x = (if j = i then ?info else y)" using x entries e by (auto split: if_splits)
    have sub: "set (items (queue_inner x)) \<subseteq> set (items (queue_inner y))"
      using y e q by (auto split: if_splits)
    have "waits_in E (heap ?w) sid z" if z: "z \<in> set (items (queue_inner x))" "waits_in E (heap w) sid z" for sid z
    proof -
      have "header_ptr z \<noteq> ?a" by (rule alone [OF y(1)]) (use z(1) sub y(2) q(2) in auto)
      then show ?thesis using z(2) by (simp add: waits_in_def)
    qed
    then show ?thesis
      using L(7) [OF y(1)] y e q sub unfolding queue_ok_def by (auto split: if_splits)
  qed
  ultimately show ?thesis using ptrs by (simp add: lib_ok_def owners_ok_def queues_ok_def)
qed

end
