(* ===== verification/Client_Nesting.thy ===== *)
theory Client_Nesting
  imports Client_Invariant
begin

text \<open>
  Destructors that call the library. A value is destroyed in the middle of a drop, a collection or the
  end of a thread, and its pointers are dropped there and then, each of which may collect, queue and
  destroy in turn. \<open>nlib\<close> is the invariant of \<open>Client_Invariant\<close> with the pointers inside of values
  counted, \<open>settles\<close> what such a call may change that the interrupted operation would notice, and
  \<open>ready\<close> the contract of a destructor: it needs its value's pointers, returns or panics with all counts
  right, and has only settled things; \<open>safely\<close> says which ends of an operation are meant. \<open>destroy\<close> is
  the step that opens a value, runs the destructor and gives the shared weak reference back.
\<close>

section \<open>The pointers in values\<close>

lemma value_at_simps [simp]:
  "value_at (w\<lparr>heap := (heap w)(a := None)\<rparr>) = (value_at w)(a := None)"
  "value_at (w\<lparr>heap := (heap w)(a := Some ob)\<rparr>) = (value_at w)(a := contents ob)"
  "value_at (store a ob w) = (value_at w)(a := contents ob)"
  "value_at (set_entry i info w) = value_at w"
  by (auto simp: value_at_def set_entry_def)

lemma value_at_object: "heap w a = Some ob \<Longrightarrow> value_at w a = contents ob"
  by (simp add: value_at_def)

lemma value_at_heap: "heap w' = heap w \<Longrightarrow> value_at w' = value_at w"
  by (auto simp: value_at_def)

lemma value_at_same: "heap w a = Some ob \<Longrightarrow> contents ob' = contents ob \<Longrightarrow> value_at (store a ob' w) = value_at w"
  by (auto simp: value_at_def)

lemma dom_value_at: "dom (value_at w) \<subseteq> dom (heap w)"
  by (auto simp: value_at_def split: option.splits)

text \<open>What a value at an address contributes.\<close>

lemma inner_upd:
  fixes w w' :: "('q, 'v) world"
  assumes fin: "finite (dom (value_at w))" and w': "value_at w' = (value_at w)(a \<mapsto> v)" and none: "value_at w a = None"
  shows "inner_strong owns w' = inner_strong owns w + strongs_of (owns v)"
    "inner_weak owns w' = inner_weak owns w + weaks_of (owns v)"
    "live w' = Suc (live w)"
proof -
  have d: "dom (value_at w') = insert a (dom (value_at w))" "a \<notin> dom (value_at w)" using w' none by auto
  have "(\<Sum>c \<in> dom (value_at w). f (owns (the (value_at w' c)))) = (\<Sum>c \<in> dom (value_at w). f (owns (the (value_at w c))))"
    for f :: "field list \<Rightarrow> 'z multiset"
    by (rule sum.cong) (use w' d(2) in auto)
  then show "inner_strong owns w' = inner_strong owns w + strongs_of (owns v)"
    "inner_weak owns w' = inner_weak owns w + weaks_of (owns v)" "live w' = Suc (live w)"
    using d fin w' by (simp_all add: inner_strong_def inner_weak_def live_def add.commute)
qed

lemma inner_none:
  fixes w w' :: "('q, 'v) world"
  assumes "finite (dom (value_at w))" "value_at w a = Some v" "value_at w' = (value_at w)(a := None)"
  shows "inner_strong owns w = inner_strong owns w' + strongs_of (owns v)"
    "inner_weak owns w = inner_weak owns w' + weaks_of (owns v)" "live w = Suc (live w')"
proof -
  have prev: "finite (dom (value_at w'))" "value_at w = (value_at w')(a \<mapsto> v)" "value_at w' a = None"
    using assms by auto
  show "inner_strong owns w = inner_strong owns w' + strongs_of (owns v)"
    "inner_weak owns w = inner_weak owns w' + weaks_of (owns v)" "live w = Suc (live w')"
    using inner_upd [OF prev] by blast+
qed

lemma inner_same:
  "value_at w' = value_at w \<Longrightarrow> inner_strong owns w' = inner_strong owns w"
  "value_at w' = value_at w \<Longrightarrow> inner_weak owns w' = inner_weak owns w"
  "value_at w' = value_at w \<Longrightarrow> live w' = live w"
  by (simp_all add: inner_strong_def inner_weak_def live_def)

definition nlib ::
  "('q, 'v) env \<Rightarrow> ('q \<Rightarrow> QueuedObject list) \<Rightarrow> ('v \<Rightarrow> field list) \<Rightarrow> ('q, 'v) world
    \<Rightarrow> Brc multiset \<Rightarrow> Weak multiset \<Rightarrow> bool" where
  "nlib E items owns w S W \<longleftrightarrow>
     lib_ok E items w (S + inner_strong owns w) (W + inner_weak owns w) \<and> finite (dom (heap w))"

lemma nlibD:
  assumes "nlib E items owns w S W"
  shows "lib_ok E items w (S + inner_strong owns w) (W + inner_weak owns w)" "finite (dom (heap w))"
    "finite (dom (value_at w))"
  using assms finite_subset [OF dom_value_at] by (auto simp: nlib_def)

lemma nlib_same:
  assumes "lib_ok E items w' (S + inner_strong owns w) (W + inner_weak owns w)" "value_at w' = value_at w"
    "finite (dom (heap w'))"
  shows "nlib E items owns w' S W"
  using assms inner_same [OF assms(2)] by (simp add: nlib_def)

section \<open>What an interrupted operation notices\<close>

text \<open>Objects only vanish, lose their value or lose their owner.\<close>

definition fades :: "'v object option \<Rightarrow> 'v object option \<Rightarrow> bool" where
  "fades old new \<longleftrightarrow>
     (case new of
        None \<Rightarrow> True
      | Some ob' \<Rightarrow> (\<exists>ob. old = Some ob \<and> contents ob' \<in> {None, contents ob}
          \<and> owner_id (biased_of (strong ob')) \<in> {None, owner_id (biased_of (strong ob))}))"

lemma fades_simps [simp]:
  "fades old None"
  "fades old (Some ob') \<longleftrightarrow> (\<exists>ob. old = Some ob \<and> contents ob' \<in> {None, contents ob}
     \<and> owner_id (biased_of (strong ob')) \<in> {None, owner_id (biased_of (strong ob))})"
  by (simp_all add: fades_def)

lemma fades_refl: "fades x x"
  by (cases x) simp_all

lemma fades_trans: "fades x y \<Longrightarrow> fades y z \<Longrightarrow> fades x z"
  by (cases z) auto

text \<open>Entries keep the number of references to their queue; a queue that is gone keeps its flag.\<close>

definition same_queue :: "'q SharedThreadInfo \<Rightarrow> 'q SharedThreadInfo \<Rightarrow> bool" where
  "same_queue x y \<longleftrightarrow> queue_strong y = queue_strong x \<and> info_short_id y = info_short_id x
     \<and> (state_flag y = state_flag x \<or> is_live (state_flag x) \<and> is_live (state_flag y))"

definition keeps_entry :: "'q SharedThreadInfo option \<Rightarrow> 'q SharedThreadInfo option \<Rightarrow> bool" where
  "keeps_entry old new \<longleftrightarrow>
     (case new of
        None \<Rightarrow> old = None
      | Some y \<Rightarrow> (case old of None \<Rightarrow> queue_strong y = 1 \<and> is_live (state_flag y) | Some x \<Rightarrow> same_queue x y))"

lemma keeps_entry_simps [simp]:
  "keeps_entry x None \<longleftrightarrow> x = None"
  "keeps_entry None (Some y) \<longleftrightarrow> queue_strong y = 1 \<and> is_live (state_flag y)"
  "keeps_entry (Some i) (Some y) \<longleftrightarrow> same_queue i y"
  by (simp_all add: keeps_entry_def)

lemma keeps_entry_refl: "keeps_entry x x"
  by (cases x) (simp_all add: same_queue_def)

lemma keeps_entry_trans: "keeps_entry x y \<Longrightarrow> keeps_entry y z \<Longrightarrow> keeps_entry x z"
  by (cases x; cases y; cases z) (auto simp: same_queue_def)

definition settles :: "thread \<Rightarrow> ('q, 'v) world \<Rightarrow> ('q, 'v) world \<Rightarrow> bool" where
  "settles t w w' \<longleftrightarrow> (\<forall>a. fades (heap w a) (heap w' a)) \<and> (\<forall>i. keeps_entry (entry w i) (entry w' i))
     \<and> (\<forall>u. u \<noteq> t \<or> tls w u \<noteq> Tls_uninit \<longrightarrow> tls w' u = tls w u)"

lemma settlesD:
  assumes "settles t w w'"
  shows "fades (heap w a) (heap w' a)" "keeps_entry (entry w i) (entry w' i)"
    "u \<noteq> t \<or> tls w u \<noteq> Tls_uninit \<Longrightarrow> tls w' u = tls w u"
  using assms by (simp_all add: settles_def)

lemma settles_refl [simp]: "settles t w w"
  by (simp add: settles_def fades_refl keeps_entry_refl)

lemma settles_trans: "settles t w w' \<Longrightarrow> settles t w' w'' \<Longrightarrow> settles t w w''"
  unfolding settles_def by (metis fades_trans keeps_entry_trans)

lemma settles_entry:
  assumes "settles t w w'" "entry w i = Some x"
  obtains y where "entry w' i = Some y" "same_queue x y"
  using settlesD(2) [OF assms(1), of i] assms(2) by (cases "entry w' i") auto

lemma settles_heap:
  assumes "\<And>a. fades (heap w a) (heap w' a)" "threads w' = threads w" "tls w' = tls w"
  shows "settles t w w'"
proof -
  have "entry w' i = entry w i" for i using assms(2) by (simp add: entry_def)
  then show ?thesis using assms(1,3) by (simp add: settles_def keeps_entry_refl)
qed

lemma settles_slot:
  assumes "fades (heap w a) slot"
  shows "settles t w (w\<lparr>heap := (heap w)(a := slot)\<rparr>)"
  by (rule settles_heap) (use assms fades_refl in auto)

lemma settles_store:
  assumes "fades (heap w a) (Some ob)"
  shows "settles t w (store a ob w)"
  using settles_slot [OF assms] by (simp add: store_def)

lemma settles_set_entry:
  assumes "entry w i = Some x" "same_queue x y"
  shows "settles t w (set_entry i y w)"
  using assms fades_refl keeps_entry_refl by (auto simp: settles_def entry_def)

lemma settles_value:
  assumes "settles t w w'" "value_at w' a = Some v"
  shows "value_at w a = Some v"
  using settlesD(1) [OF assms(1), of a] assms(2)
  by (cases "heap w' a") (auto simp: value_at_def)

lemma settles_live:
  assumes "settles t w w'" "finite (dom (value_at w))"
  shows "live w' \<le> live w"
  unfolding live_def using settles_value [OF assms(1)] by (intro card_mono [OF assms(2)]) auto

text \<open>The objects that are still their owners': what a collection works off.\<close>

definition owned :: "('q, 'v) world \<Rightarrow> addr set" where
  "owned w = {a. \<exists>ob. heap w a = Some ob \<and> owner_id (biased_of (strong ob)) \<noteq> None}"

lemma owned_subset: "owned w \<subseteq> dom (heap w)"
  by (auto simp: owned_def)

lemma settles_owned:
  assumes "settles t w w'"
  shows "owned w' \<subseteq> owned w"
proof
  fix a assume "a \<in> owned w'"
  then obtain ob' where "heap w' a = Some ob'" "owner_id (biased_of (strong ob')) \<noteq> None" by (auto simp: owned_def)
  then show "a \<in> owned w" using settlesD(1) [OF assms, of a] by (auto simp: owned_def)
qed

section \<open>Returning, panicking or aborting\<close>

text \<open>
  How an operation may end that runs destructors: it returns in a state with \<open>R\<close>, or, where destructors
  may panic, it unwinds in a state with \<open>U\<close>, or it aborts because a panic got where it may not.
\<close>

fun safely :: "bool \<Rightarrow> ('s \<Rightarrow> bool) \<Rightarrow> ('s \<Rightarrow> bool) \<Rightarrow> ('s, 'a) outcome \<Rightarrow> bool" where
  "safely p R U (Return _ w) \<longleftrightarrow> R w"
| "safely p R U (Unwind w) \<longleftrightarrow> p \<and> U w"
| "safely p R U (Halt e) \<longleftrightarrow> p \<and> e = Nounwind_abort"

lemma safelyE:
  assumes "safely p R U r"
  obtains (returns) x w where "r = Return x w" "R w"
  | (unwinds) w where p "r = Unwind w" "U w"
  | (aborts) p "r = Halt Nounwind_abort"
  using assms by (cases r) auto

lemma safely_mono:
  assumes "safely p R U r" "\<And>w. R w \<Longrightarrow> R' w" "\<And>w. U w \<Longrightarrow> U' w"
  shows "safely p R' U' r"
  using assms by (cases r) auto

lemma safely_bind:
  assumes "safely p R U r" "\<And>x w. R w \<Longrightarrow> safely p R' U' (k x w)" "\<And>w. U w \<Longrightarrow> U' w"
  shows "safely p R' U' (bind_outcome r k)"
  using assms by (cases r) auto

lemma safely_abort: "safely p R U r \<Longrightarrow> safely p R U' (abort_unwind r)"
  by (cases r) auto

lemma safely_guard:
  assumes "safely p R U r" "\<And>w. R w \<Longrightarrow> \<exists>w'. g w = Return () w' \<and> R' w'"
    "\<And>w. U w \<Longrightarrow> \<exists>w'. g w = Return () w' \<and> U' w'"
  shows "safely p R' U' (with_guard r g)"
  using assms(1)
proof (cases rule: safelyE)
  case (returns x w)
  then show ?thesis using assms(2) [of w] by auto
next
  case (unwinds w)
  then show ?thesis using assms(3) [of w] by auto
qed simp

lemma safely_then_drop:
  assumes "safely p R U r" "\<And>w. R w \<Longrightarrow> safely p R' U' (f w)" "\<And>w. U w \<Longrightarrow> safely p U' V (g w)"
  shows "safely p R' U' (then_drop r f g)"
  using assms(1)
proof (cases rule: safelyE)
  case (unwinds w)
  then show ?thesis using assms(3) [OF unwinds(3)] by (cases "g w") auto
qed (use assms(2) in simp_all)

text \<open>All is well and only settled.\<close>

definition leads ::
  "('q, 'v) env \<Rightarrow> ('q \<Rightarrow> QueuedObject list) \<Rightarrow> ('v \<Rightarrow> field list) \<Rightarrow> Brc multiset \<Rightarrow> Weak multiset \<Rightarrow> thread
    \<Rightarrow> ('q, 'v) world \<Rightarrow> ('q, 'v) world \<Rightarrow> bool" where
  "leads E items owns S W t w w' \<longleftrightarrow> nlib E items owns w' S W \<and> settles t w w'"

lemma leadsD: "leads E items owns S W t w w' \<Longrightarrow> nlib E items owns w' S W"
  "leads E items owns S W t w w' \<Longrightarrow> settles t w w'"
  by (simp_all add: leads_def)

lemma leads_trans: "settles t w w1 \<Longrightarrow> leads E items owns S W t w1 w' \<Longrightarrow> leads E items owns S W t w w'"
  using settles_trans by (auto simp: leads_def)

section \<open>Destroying a value\<close>

definition ready ::
  "('q, 'v) env \<Rightarrow> ('q \<Rightarrow> QueuedObject list) \<Rightarrow> ('v \<Rightarrow> field list) \<Rightarrow> bool \<Rightarrow> thread \<Rightarrow> nat \<Rightarrow> bool" where
  "ready E items owns p t n \<longleftrightarrow> env_ok E items
     \<and> (\<forall>w S W v. nlib E items owns w (S + strongs_of (owns v)) (W + weaks_of (owns v)) \<and> live w < n \<longrightarrow>
         safely p (leads E items owns S W t w) (leads E items owns S W t w) (drop_in_place E v w))"

lemma readyD:
  assumes "ready E items owns p t n"
  shows "env_ok E items"
    "nlib E items owns w (S + strongs_of (owns v)) (W + weaks_of (owns v)) \<Longrightarrow> live w < n \<Longrightarrow>
       safely p (leads E items owns S W t w) (leads E items owns S W t w) (drop_in_place E v w)"
  using assms by (simp_all add: ready_def)

lemma pointers_ok_simps:
  assumes "pointers_ok E S W"
  shows "Brc_header_ptr E h = Inr a \<Longrightarrow> pointers_ok E (add_mset h S) W"
    "WeakReal_header_ptr E x = Inr a \<Longrightarrow> pointers_ok E S (add_mset x W)"
    "pointers_ok E (S - {#h#}) W" "pointers_ok E S (W - {#x#})"
  using assms by (auto simp: pointers_ok_def dest: in_diffD)

text \<open>A weak pointer less; with the last one of a dead object, the memory is free.\<close>

definition less_weak :: "'v object \<Rightarrow> 'v object option" where
  "less_weak ob = (if weak_count ob = 1 then None else Some (ob\<lparr>weak_count := weak_count ob - 1\<rparr>))"

lemma lib_ok_lose_weak:
  assumes ok: "lib_ok E items w S W" and ob: "heap w a = Some ob"
    and x: "x \<in># W" "WeakReal_header_ptr E x = Inr a"
  shows "lib_ok E items (w\<lparr>heap := (heap w)(a := less_weak ob)\<rparr>) S (W - {#x#})"
proof (rule lib_ok_object [OF ok ob])
  note O = obj_okD [OF lib_okD(5) [OF ok ob]]
  have "x \<in># held_weak E a W" using x by (simp add: held_weak_def)
  then obtain Wa where Wa: "held_weak E a W = add_mset x Wa" by (metis multi_member_split)
  show "slot_ok E (held E a S) (held_weak E a (W - {#x#})) a (less_weak ob)"
  proof (cases "weak_count ob = 1")
    case True
    then have "is_dead (strong ob)" "Wa = {#}"
      using O(3) Wa by (cases "is_dead (strong ob)"; simp)+
    then have "held E a S = {#}" using O(2) header_ok_dead [OF settled_ok [OF O(1)]] by simp
    then show ?thesis using True Wa x(2) \<open>Wa = {#}\<close> by (simp add: less_weak_def)
  next
    case False
    have "uint (weak_count ob - 1) = uint (weak_count ob) - 1" by (rule uint_minus_one [OF O(4)])
    moreover have "weak_count ob - 1 \<noteq> 0" using False by (metis eq_iff_diff_eq_0)
    moreover have "obj_ok E (held E a S) (add_mset x Wa) a ob" using lib_okD(5) [OF ok ob] Wa by simp
    ultimately show ?thesis using False Wa x(2) by (auto simp: obj_ok_def less_weak_def)
  qed
  show "moves ob (less_weak ob)"
    using O(3) Wa by (auto simp: is_dead_def awaits_merge_def less_weak_def split: if_splits)
qed (use x(2) pointers_ok_simps(4) [OF lib_okD(3) [OF ok]] in simp_all)

lemma drop_weak_run:
  assumes "heap w a = Some ob" "block ob = full_layout info"
  shows "drop_weak a info w = Return () (w\<lparr>heap := (heap w)(a := less_weak ob)\<rparr>)"
  using drop_weak_last [OF assms(1) _ assms(2)] drop_weak_other [OF assms(1), of info]
  by (cases "weak_count ob = 1") (simp_all add: less_weak_def store_def)

text \<open>The same with the pointers in values counted.\<close>

lemma nlib_lose_weak:
  assumes ok: "nlib E items owns w S (add_mset x W)" and ob: "heap w a = Some ob"
    and x: "WeakReal_header_ptr E x = Inr a"
  shows "nlib E items owns (w\<lparr>heap := (heap w)(a := less_weak ob)\<rparr>) S W"
    "settles t w (w\<lparr>heap := (heap w)(a := less_weak ob)\<rparr>)"
proof -
  note N = nlibD [OF ok]
  let ?w = "w\<lparr>heap := (heap w)(a := less_weak ob)\<rparr>"
  have lib: "lib_ok E items ?w (S + inner_strong owns w) (W + inner_weak owns w)"
    using lib_ok_lose_weak [OF N(1) ob _ x] by simp
  have "value_at w a = None" if one: "weak_count ob = 1"
  proof (rule ccontr)
    assume "value_at w a \<noteq> None"
    then have "contents ob \<noteq> None" using ob by (simp add: value_at_object)
    moreover have "held_weak E a (add_mset x W + inner_weak owns w) \<noteq> {#}" using x by simp
    ultimately show False
      using obj_okD(3,5) [OF lib_okD(5) [OF N(1) ob]] one by (auto simp: size_eq_0_iff_empty [symmetric] simp del: size_eq_0_iff_empty)
  qed
  then have same: "value_at ?w = value_at w"
    using ob by (auto simp: less_weak_def value_at_object)
  show "nlib E items owns ?w S W"
    by (rule nlib_same [OF lib same]) (use N(2) in \<open>simp add: less_weak_def\<close>)
  show "settles t w ?w"
    by (rule settles_slot) (use ob in \<open>auto simp: less_weak_def\<close>)
qed

text \<open>
  The value at \<open>a\<close> is destroyed: its pointers are the destructor's, and \<open>x\<close> stands for the weak
  reference that the strong ones shared, until it is given back.
\<close>

lemma destroy:
  assumes D: "ready E items owns p t n" and ob: "heap w a = Some ob" "contents ob = Some v" "typed E m offset ob"
    and x: "weak_points_to E x a ob" and few: "live w \<le> n" and fin: "finite (dom (heap w))"
    and ok: "nlib E items owns (store a (ob\<lparr>contents := None\<rparr>) w)
      (S + strongs_of (owns v)) (add_mset x W + weaks_of (owns v))"
  defines "R \<equiv> leads E items owns S W t (store a (ob\<lparr>contents := None\<rparr>) w)"
  shows "safely p R R (drop_context_dealloc E m offset a w)"
proof -
  let ?w = "store a (ob\<lparr>contents := None\<rparr>) w"
  note E = env_okD [OF readyD(1) [OF D]]
  obtain info where i: "LayoutInfo_new (allocator_layout E) (layout_for E m) = Some info"
    "value_offset info = offset" "block ob = full_layout info"
    using typed_info [OF ob(3)] by blast
  have "finite (dom (value_at w))" using finite_subset [OF dom_value_at fin] .
  then have "live w = Suc (live ?w)"
    by (rule inner_none(3) [of _ a v]) (use ob in \<open>simp_all add: value_at_object\<close>)
  then have run: "safely p (leads E items owns S (add_mset x W) t ?w) (leads E items owns S (add_mset x W) t ?w)
      (drop_in_place E v ?w)"
    using readyD(2) [OF D ok] few by simp
  have last: "\<exists>w'. drop_weak a info w1 = Return () w' \<and> R w'" if w1: "leads E items owns S (add_mset x W) t ?w w1" for w1
  proof -
    have "x \<in># add_mset x W + inner_weak owns w1" by simp
    from weak_target [OF nlibD(1) [OF leadsD(1) [OF w1]] this] obtain c ob1 where
      c: "WeakReal_header_ptr E x = Inr c" "heap w1 c = Some ob1" "weak_points_to E x c ob1"
      by metis
    have c_a: "c = a" using c(1) weak_points_header [OF x] by simp
    then have "block ob1 = block ob"
      using c(3) x by (auto simp: weak_points_to_def dest!: typed_info)
    then have "drop_weak a info w1 = Return () (w1\<lparr>heap := (heap w1)(a := less_weak ob1)\<rparr>)"
      using drop_weak_run [of w1 a ob1 info] c(2) c_a i(3) by simp
    then show ?thesis
      using nlib_lose_weak [OF leadsD(1) [OF w1] c(2,1), unfolded c_a] settles_trans [OF leadsD(2) [OF w1]]
      by (auto simp: R_def leads_def)
  qed
  have "drop_context_dealloc E m offset a w = with_guard (drop_in_place E v ?w) (drop_weak a info)"
    using i E(1) ob(1,2)
    by (simp add: drop_context_dealloc_def erased_dealloc_def from_to_context LayoutInfo_for_value_def drop_contents_def)
  then show ?thesis using safely_guard [OF run last last] by simp
qed

text \<open>A value is opened: its pointers are in somebody's hands.\<close>

lemma nlib_open:
  fixes w w' :: "('q, 'v) world"
  assumes lib: "lib_ok E items w' (S + inner_strong owns w) (add_mset x (W + inner_weak owns w))"
    and v: "value_at w a = Some v" "value_at w' = (value_at w)(a := None)"
    and fin: "finite (dom (value_at w))" "finite (dom (heap w'))"
  shows "nlib E items owns w' (S + strongs_of (owns v)) (add_mset x W + weaks_of (owns v))"
  using lib fin(2) inner_none(1,2) [OF fin(1) v, of owns] by (simp add: nlib_def ac_simps)

section \<open>Merging an object\<close>

text \<open>
  A merge by the owner's thread or in its place. The object keeps its value when it still has
  references, and is destroyed otherwise; in both cases it is nobody's own afterwards.
\<close>

lemma merge_keeps:
  assumes D: "ready E items owns p t n" and ob: "heap w a = Some ob" "contents ob = Some v"
      "typed E m offset ob" "mergeable_header sid (strong ob)"
    and q: "header_ptr q = a" "drop_info q = erase m offset"
    and x: "weak_points_to E x a ob" and few: "live w \<le> n" and fin: "finite (dom (heap w))"
    and stays: "logical_count (strong ob) \<noteq> 0 \<Longrightarrow>
      nlib E items owns (store a (ob\<lparr>strong := merged_header (strong ob)\<rparr>) w) S W"
    and dies: "logical_count (strong ob) = 0 \<Longrightarrow>
      nlib E items owns (store a (ob\<lparr>strong := merged_header (strong ob), contents := None\<rparr>) w)
        (S + strongs_of (owns v)) (add_mset x W + weaks_of (owns v))"
  defines "R \<equiv> \<lambda>w'. leads E items owns S W t w w' \<and> a \<notin> owned w'"
  shows "safely p R R (explicit_merge E sid q w)"
proof -
  let ?ob = "ob\<lparr>strong := merged_header (strong ob)\<rparr>"
  let ?w = "store a ?ob w"
  have run: "explicit_merge E sid q w = (if logical_count (strong ob) = 0
      then drop_context_dealloc E m offset a ?w else Return () ?w)"
    using on_header_ok [of w a ob "explicit_merge_header sid []"] ob(1) q explicit_merge_header_exact [OF ob(4)]
    by (simp add: explicit_merge_def erased_and_typed_dealloc)
  have none: "owner_id (biased_of (merged_header (strong ob))) = None" by (rule merged_header_settled(2) [OF ob(4)])
  have left: "R w'" if s: "settles t (store a ob' w) w'" "strong ob' = merged_header (strong ob)" "contents ob' \<in> {None, contents ob}"
    and ok: "nlib E items owns w' S W" for w' ob'
  proof -
    have "a \<notin> owned (store a ob' w)" using s(2) none by (simp add: owned_def)
    then have "a \<notin> owned w'" using settles_owned [OF s(1)] by blast
    moreover have "settles t w (store a ob' w)" by (rule settles_store) (use ob(1) s(2,3) none in simp)
    ultimately show ?thesis using settles_trans s(1) ok by (auto simp: R_def leads_def)
  qed
  show ?thesis
  proof (cases "logical_count (strong ob) = 0")
    case False
    then show ?thesis using run stays left [of ?ob ?w] by simp
  next
    case True
    have same: "value_at ?w = value_at w" by (rule value_at_same [OF ob(1)]) simp
    let ?R = "leads E items owns S W t (store a (?ob\<lparr>contents := None\<rparr>) ?w)"
    have "safely p ?R ?R (drop_context_dealloc E m offset a ?w)"
      by (rule destroy [OF D, where v = v and x = x])
        (use ob x few fin dies [OF True] inner_same(3) [OF same] in auto)
    then show ?thesis
      using run True left [of "?ob\<lparr>contents := None\<rparr>"] by (auto simp: leads_def elim!: safely_mono)
  qed
qed

text \<open>The next object of a queue.\<close>

lemma process_step:
  assumes D: "ready E items owns p t n" and ok: "nlib E items owns w S W" and few: "live w \<le> n"
    and e: "entry w i = Some info" and pop: "queue_pop E (queue_inner info) = Some (q, rest)"
  defines "R \<equiv> \<lambda>w'. leads E items owns S W t w w' \<and> owned w' \<subset> owned w"
  shows "safely p R R (explicit_merge E (queue_short_id info) q (set_entry i (info\<lparr>queue_inner := rest\<rparr>) w))"
proof -
  note E = env_okD [OF readyD(1) [OF D]] and N = nlibD [OF ok]
  let ?S = "S + inner_strong owns w" and ?W = "W + inner_weak owns w" and ?a = "header_ptr q"
  let ?w = "set_entry i (info\<lparr>queue_inner := rest\<rparr>) w"
  have items: "items (queue_inner info) = q # items rest" using E(2) pop by (simp add: fifo_def)
  obtain ob where ob: "heap w ?a = Some ob" "awaits_merge (strong ob)"
    "owner_id (biased_of (strong ob)) = Some (info_short_id info)" "mergeable_header (info_short_id info) (strong ob)"
    "contents ob \<noteq> None" "\<exists>m offset. drop_info q = erase m offset \<and> typed E m offset ob"
    using lib_ok_queued [OF N(1) e, of q] items by auto
  then obtain v m offset where v: "contents ob = Some v" "drop_info q = erase m offset" "typed E m offset ob" by auto
  have alive: "\<not> is_dead (strong ob)" using ob(2) by (simp add: awaits_merge_def is_dead_def)
  note O = lib_okD(5) [OF N(1) ob(1)] and M = merged_header_settled [OF ob(4)]
  obtain x where x: "weak_points_to E x ?a ob" using typed_weak [OF E(3) obj_okD(9) [OF O] v(3)] by blast
  have hx: "WeakReal_header_ptr E x = Inr ?a" by (rule weak_points_header [OF x])
  have w0: "heap ?w ?a = Some ob" "live ?w \<le> n" "finite (dom (heap ?w))" "store ?a ob' ?w = set_entry i (info\<lparr>queue_inner := rest\<rparr>) (store ?a ob' w)"
    for ob'
    using ob(1) few inner_same(3) [of ?w w, OF value_at_simps(4)] N(2) by (simp_all add: store_def set_entry_def)
  have stays: "nlib E items owns (store ?a (ob\<lparr>strong := merged_header (strong ob)\<rparr>) ?w) S W"
    if "logical_count (strong ob) \<noteq> 0"
    unfolding w0(4)
  proof (rule nlib_same [OF lib_ok_unqueue [OF N(1) e items refl ob(1)]])
    show "obj_ok E (held E ?a ?S) (held_weak E ?a ?W) ?a (ob\<lparr>strong := merged_header (strong ob)\<rparr>)"
      by (rule obj_ok_merge [OF O alive ob(4) that])
  qed (use M(2) N(2) lib_okD(3) [OF N(1)] value_at_object [OF ob(1)] in \<open>auto simp: fun_upd_idem\<close>)
  have dies: "nlib E items owns (store ?a (ob\<lparr>strong := merged_header (strong ob), contents := None\<rparr>) ?w)
      (S + strongs_of (owns v)) (add_mset x W + weaks_of (owns v))" if zero: "logical_count (strong ob) = 0"
    unfolding w0(4)
  proof (rule nlib_open [OF lib_ok_unqueue [OF N(1) e items refl ob(1)], where a = ?a])
    have "held E ?a ?S = {#}" using obj_okD(2) [OF O] zero by simp
    then show "obj_ok E (held E ?a ?S) (held_weak E ?a (add_mset x ?W)) ?a
        (ob\<lparr>strong := merged_header (strong ob), contents := None\<rparr>)"
      using obj_ok_open [OF O alive M(1) _ x] M(3) zero hx by simp
    show "pointers_ok E ?S (add_mset x ?W)" by (rule pointers_ok_simps(2) [OF lib_okD(3) [OF N(1)] hx])
  qed (use M(2) N(2,3) value_at_object [OF ob(1)] v(1) hx in \<open>auto simp: finite_insert\<close>)
  have sid: "queue_short_id info = info_short_id info" by (rule queue_ids [OF lib_okD(1) [OF N(1)] e])
  let ?R = "\<lambda>w'. leads E items owns S W t ?w w' \<and> ?a \<notin> owned w'"
  have run: "safely p ?R ?R (explicit_merge E (info_short_id info) q ?w)"
    by (rule merge_keeps [OF D w0(1) v(1,3) ob(4) refl v(2) x w0(2,3) stays dies])
  have s: "settles t w ?w" by (rule settles_set_entry [OF e]) (simp add: same_queue_def)
  have "?a \<in> owned w" using ob(1,3) by (simp add: owned_def)
  then have "R w'" if "?R w'" for w'
    using leads_trans [OF s] settles_owned [OF settles_trans [OF s leadsD(2)]] that unfolding R_def by blast
  then show ?thesis using run sid by (auto elim!: safely_mono)
qed

end
