(* ===== verification/Client_Runtime.thy ===== *)
theory Client_Runtime
  imports Client_Nesting
begin

text \<open>
  What happens to the library behind the program's back keeps the invariant: the initialisation of a
  thread, the collections, explicit or before an operation or in the middle of a destructor, and the
  end of a thread.
\<close>

section \<open>Initialising a thread\<close>

text \<open>The table of threads is the same, or has one entry more, that of a new thread or of a failure.\<close>

definition grows :: "'q \<Rightarrow> ('q, 'z) runtime_scheme \<Rightarrow> ('q, 'z) runtime_scheme \<Rightarrow> bool" where
  "grows q rt rt' \<longleftrightarrow>
     (if threads rt' = threads rt then ids_exhausted rt' = ids_exhausted rt
      else \<exists>i e. threads rt i = None \<and> threads rt' = (threads rt)(i \<mapsto> e) \<and>
        (case e of
           Inl _ \<Rightarrow> ids_exhausted rt'
         | Inr info \<Rightarrow> ids_exhausted rt' = ids_exhausted rt \<and> state_flag info = Live \<and> queue_strong info = 1
             \<and> queue_inner info = q))"

lemma grows_refl [simp]: "grows q rt rt"
  by (simp add: grows_def)

lemma grows_entry:
  assumes "threads rt i = None" "threads rt' = (threads rt)(i \<mapsto> e)"
    "case e of Inl _ \<Rightarrow> ids_exhausted rt'
     | Inr info \<Rightarrow> ids_exhausted rt' = ids_exhausted rt \<and> state_flag info = Live \<and> queue_strong info = 1
         \<and> queue_inner info = q"
  shows "grows q rt rt'"
proof -
  have "threads rt' \<noteq> threads rt" using assms(1,2) by (metis fun_upd_same option.distinct(1))
  then show ?thesis using assms unfolding grows_def by auto
qed

lemma grows_tls [simp]: "grows q rt (rt'\<lparr>tls := f\<rparr>) = grows q rt rt'"
  by (simp add: grows_def cong: sum.case_cong)

lemma init_thread_grows:
  assumes ok: "runtime_ok rt" and un: "tls rt t = Tls_uninit" and fresh: "fresh_index index rt"
    and init: "init_thread q index t rt = Inr (r, rt')"
  shows "grows q rt rt'"
  using ok un fresh
proof (cases rule: init_thread_cases [where q = q])
  case 1
  then show ?thesis using init by simp
next
  case (2 rt1)
  then show ?thesis
    using init fresh by (auto simp: fresh_index_def intro!: grows_entry)
next
  case (3 info)
  have lt: "unat index < 2 ^ 64 - 1" "threads rt (unat index) = None"
    using fresh 3(2) by (simp_all add: fresh_index_def)
  have "state_flag info = Live \<and> queue_strong info = 1 \<and> queue_inner info = q"
    using lt(1)
  proof (cases rule: new_thread_entry_cases [where q = q])
    case 1
    then show ?thesis using 3(1) by simp
  next
    case (2 info')
    then show ?thesis using 3(1) by simp
  qed
  then show ?thesis using init 3(3) lt(2) by (auto intro!: grows_entry)
qed

lemma with_current_grows:
  assumes "runtime_ok rt" "tls rt t = Tls_uninit \<Longrightarrow> fresh_index index rt"
    "with_current q index t rt = Inr (r, rt')"
  shows "grows q rt rt'"
proof (cases "tls rt t")
  case Tls_uninit
  then obtain v rt1 where i: "init_thread q index t rt = Inr (v, rt1)" "rt' = rt1\<lparr>tls := (tls rt1)(t := Tls_alive v)\<rparr>"
    using assms(3) by (auto simp: with_current_def checked_simps)
  show ?thesis
    using init_thread_grows [OF assms(1) Tls_uninit assms(2) [OF Tls_uninit] i(1)] i(2) by simp
qed (use assms(3) in \<open>auto simp: with_current_def\<close>)

text \<open>A new entry is that of the thread.\<close>

lemma with_current_staffed:
  fixes w :: "('q, 'v) world"
  assumes ok: "runtime_ok w" "staffed w" and fresh: "tls w t = Tls_uninit \<Longrightarrow> fresh_index index w"
    and cur: "with_current q index t w = Inr (r, w')"
  shows "staffed w'"
proof (cases "tls w t")
  case Tls_uninit
  then obtain v w1 where i: "init_thread q index t w = Inr (v, w1)" "w' = w1\<lparr>tls := (tls w1)(t := Tls_alive v)\<rparr>"
    using cur by (auto simp: with_current_def checked_simps)
  have kept: "\<exists>u st. u \<noteq> t \<and> tls w u = Tls_alive (Inr st) \<and> shared_info st = i"
    if "threads w i = Some (Inr info)" "0 < queue_strong info" for i info
    using ok(2) that Tls_uninit unfolding staffed_def by (metis entry_threads tls_slot.distinct(1))
  from ok(1) Tls_uninit fresh [OF Tls_uninit] show ?thesis
  proof (cases rule: init_thread_cases [where q = q])
    case 1
    then show ?thesis using i by (auto simp: staffed_def entry_threads dest!: kept)
  next
    case (2 rt1)
    then show ?thesis using i by (auto simp: staffed_def entry_threads dest!: kept)
  next
    case (3 info)
    then show ?thesis using i by (auto simp: staffed_def entry_threads dest!: kept)
  qed
qed (use cur ok(2) in \<open>auto simp: with_current_def\<close>)

text \<open>There is always room for one more entry, or no more is needed.\<close>

lemma lib_ok_fresh:
  assumes ok: "lib_ok E items w S W" and E: "indices_fresh E"
  shows "fresh_index (next_index E (threads w)) w"
proof (cases "ids_exhausted w")
  case False
  have "threads w 4095 = None"
  proof (cases "threads w 4095")
    case (Some e)
    then obtain info where "threads w 4095 = Some (Inr info)"
      using lib_okD(2) [OF ok] False by (cases e) (auto simp: table_open_def)
    from table_okD [OF runtime_okD(2) [OF lib_okD(1) [OF ok]] this] show ?thesis
      by (auto simp: short_id_ok_alt)
  qed
  then have "threads w (unat (next_index E (threads w))) = None \<and> unat (next_index E (threads w)) < 2 ^ 64 - 1"
    using E unfolding indices_fresh_def by (elim allE [of _ "threads w"] allE [of _ 4095]) simp
  then show ?thesis by (simp add: fresh_index_def)
qed (simp add: fresh_index_def)

lemma owner_ok_grows:
  assumes own: "owner_ok items w a h" and t: "threads w i = None" "threads w' = (threads w)(i \<mapsto> e)"
  shows "owner_ok items w' a h"
proof -
  have "get_by_id sid w' = Inr (Some (j, x))" if "get_by_id sid w = Inr (Some (j, x))" for sid j x
  proof -
    have "entry w j = Some x" using that by (auto simp: get_by_id_entry)
    then have "j \<noteq> i" using t(1) by (auto simp: entry_def)
    then have "entry w' j = entry w j" using t(2) by (simp add: entry_def)
    then show ?thesis using that by (simp add: get_by_id_entry)
  qed
  then show ?thesis using own by (auto simp: owner_ok_def split: option.splits)
qed

lemma lib_ok_grows:
  assumes E: "env_ok E items" and ok: "lib_ok E items w S W"
    and w': "runtime_ok w'" "grows (queue_new E) w w'" "heap w' = heap w" "staffed w'"
  shows "lib_ok E items w' S W"
proof (cases "threads w' = threads w")
  case True
  then show ?thesis
    using ok w' owner_ok_frame [OF True]
    by (simp add: lib_ok_def owners_ok_def queues_ok_def table_open_def entry_def grows_def)
next
  case False
  then obtain i e where e: "threads w i = None" "threads w' = (threads w)(i \<mapsto> e)"
    "case e of Inl _ \<Rightarrow> ids_exhausted w'
     | Inr info \<Rightarrow> ids_exhausted w' = ids_exhausted w \<and> state_flag info = Live \<and> queue_strong info = 1
         \<and> queue_inner info = queue_new E"
    using w'(2) by (auto simp: grows_def)
  note L = lib_okD [OF ok]
  have "owner_ok items w' a (strong ob)" if "heap w' a = Some ob" for a ob
    using L(6) [of a ob] that w'(3) owner_ok_grows [OF _ e(1,2)] by simp
  moreover have "queue_ok E items (heap w') info" if x: "entry w' j = Some info" for j info
  proof (cases "j = i")
    case True
    then have "e = Inr info" using x e(2) by (auto simp: entry_def split: sum.splits)
    then show ?thesis using e(3) env_okD(2) [OF E] by (simp add: queue_ok_def fifo_def)
  next
    case False
    then show ?thesis using x e(2) L(7) [of j info] w'(3) by (simp add: entry_def)
  qed
  moreover have "table_open w'"
    using L(2) e w'(4) by (auto simp: table_open_def split: sum.splits if_splits)
  ultimately show ?thesis
    using w' L(3) ok by (simp add: lib_ok_def owners_ok_def queues_ok_def)
qed

text \<open>Nothing else changes.\<close>

lemma with_current_tls:
  assumes "runtime_ok rt" "tls rt t = Tls_uninit \<Longrightarrow> fresh_index index rt"
    "with_current q index t rt = Inr (r, rt')" "u \<noteq> t"
  shows "tls rt' u = tls rt u"
proof (cases "tls rt t")
  case Tls_uninit
  then obtain v rt1 where i: "init_thread q index t rt = Inr (v, rt1)" "rt' = rt1\<lparr>tls := (tls rt1)(t := Tls_alive v)\<rparr>"
    using assms(3) by (auto simp: with_current_def checked_simps)
  from assms(1) Tls_uninit assms(2) [OF Tls_uninit] show ?thesis
    by (cases rule: init_thread_cases [where q = q]) (use i assms(4) in auto)
qed (use assms(3) in \<open>auto simp: with_current_def\<close>)

lemma settles_grows:
  fixes w w' :: "('q, 'v) world"
  assumes g: "grows q w w'" and h: "heap w' = heap w"
    and t: "\<And>u. u \<noteq> t \<or> tls w u \<noteq> Tls_uninit \<Longrightarrow> tls w' u = tls w u"
  shows "settles t w w'"
proof -
  have "keeps_entry (entry w i) (entry w' i)" for i
  proof (cases "threads w' = threads w")
    case True
    then have "entry w' i = entry w i" by (simp add: entry_def)
    then show ?thesis by (simp add: keeps_entry_refl)
  next
    case False
    then obtain j e where e: "threads w j = None" "threads w' = (threads w)(j \<mapsto> e)"
      "case e of Inl _ \<Rightarrow> ids_exhausted w'
       | Inr info \<Rightarrow> ids_exhausted w' = ids_exhausted w \<and> state_flag info = Live \<and> queue_strong info = 1
           \<and> queue_inner info = q"
      using g by (auto simp: grows_def)
    show ?thesis
    proof (cases "i = j")
      case True
      then show ?thesis using e by (cases e) (simp_all add: entry_def)
    next
      case False
      then have "entry w' i = entry w i" using e(2) by (simp add: entry_def)
      then show ?thesis by (simp add: keeps_entry_refl)
    qed
  qed
  then show ?thesis using h t by (simp add: settles_def fades_refl)
qed

lemma with_current_keeps:
  assumes E: "env_ok E items" and ok: "lib_ok E items w S W"
  obtains r w' where "with_current (queue_new E) (next_index E (threads w)) t w = Inr (r, w')"
    "lib_ok E items w' S W" "heap w' = heap w" "\<And>st. r = Inr st \<longleftrightarrow> tls w' t = Tls_alive (Inr st)"
    "settles t w w'"
proof -
  have fresh: "fresh_index (next_index E (threads w)) w" by (rule lib_ok_fresh [OF ok env_okD(4) [OF E]])
  obtain r w' where r: "with_current (queue_new E) (next_index E (threads w)) t w = Inr (r, w')" "runtime_ok w'"
    "\<And>st. r = Inr st \<longleftrightarrow> tls w' t = Tls_alive (Inr st)" "tls w t \<noteq> Tls_uninit \<Longrightarrow> w' = w"
    by (rule with_current_ok [OF lib_okD(1) [OF ok], of t "next_index E (threads w)" "queue_new E"])
      (use fresh in auto)
  have h: "heap w' = heap w" by (rule heap_more [OF with_current_frame [OF r(1)]])
  note L = lib_okD [OF ok]
  have g: "grows (queue_new E) w w'" by (rule with_current_grows [OF L(1) fresh r(1)])
  have "staffed w'" by (rule with_current_staffed [OF L(1) table_openD(2) [OF L(2)] fresh r(1)])
  from lib_ok_grows [OF E ok r(2) g h this] have ok': "lib_ok E items w' S W" .
  have "settles t w w'"
    by (rule settles_grows [OF g h]) (use with_current_tls [OF L(1) fresh r(1)] r(4) in auto)
  then show thesis using that r h ok' by blast
qed

section \<open>Collecting\<close>

lemma nlib_set_entry:
  assumes ok: "nlib E items owns w S W" and e: "entry w i = Some info"
    and same: "info_short_id info' = info_short_id info" "queue_short_id info' = queue_short_id info"
      "queue_inner info' = queue_inner info"
    and live: "0 < queue_strong info" "0 < queue_strong info'" "is_live (state_flag info')"
      "items (queue_inner info) = [] \<or> state_flag info' = QueuedObjects"
  shows "nlib E items owns (set_entry i info' w) S W"
proof (rule nlib_same)
  note N = nlibD [OF ok] and L = lib_okD [OF nlibD(1) [OF ok]]
  show "lib_ok E items (set_entry i info' w) (S + inner_strong owns w) (W + inner_weak owns w)"
  proof (rule lib_ok_entry [OF N(1) e same])
    show "runtime_ok (set_entry i info' w)" by (rule runtime_ok_set_entry [OF L(1) e same(1,2)]) (use live in simp)
    show "table_open (set_entry i info' w)" by (rule table_open_set_entry [OF L(2) e]) (use live in simp)
  qed (use live in simp_all)
  show "finite (dom (heap (set_entry i info' w)))" using N(2) by simp
qed simp

text \<open>
  The loop over a queue ends: every object it merges is nobody's own from then on, and no destructor
  that it runs makes one anybody's.
\<close>

lemma process_keeps:
  assumes D: "ready E items owns p t n" and ok: "nlib E items owns w S W" and few: "live w \<le> n"
    and e: "entry w i = Some info"
  defines "R \<equiv> \<lambda>w'. leads E items owns S W t w w' \<and> (\<exists>info'. entry w' i = Some info' \<and> items (queue_inner info') = [])"
  obtains r where "process_loop E i w = Some r" "safely p R (leads E items owns S W t w) r"
proof -
  have "\<exists>r. process_loop E i w = Some r \<and> safely p (\<lambda>w'. leads E items owns S W t w w'
      \<and> (\<exists>info'. entry w' i = Some info' \<and> items (queue_inner info') = [])) (leads E items owns S W t w) r"
    using ok few e
  proof (induction "card (owned w)" arbitrary: w info rule: less_induct)
    case less
    let ?R = "\<lambda>w w'. leads E items owns S W t w w' \<and> (\<exists>info'. entry w' i = Some info' \<and> items (queue_inner info') = [])"
    show ?case
    proof (cases "queue_pop E (queue_inner info)")
      case None
      then have "items (queue_inner info) = []" using env_okD(2) [OF readyD(1) [OF D]] by (simp add: fifo_def)
      moreover have "process_loop E i w = Some (Return () w)"
        by (subst process_loop.simps) (simp add: less.prems(3) None)
      ultimately show ?thesis using less.prems by (simp add: leads_def)
    next
      case (Some q)
      obtain ob rest where q: "q = (ob, rest)" by (cases q)
      let ?m = "explicit_merge E (queue_short_id info) ob (set_entry i (info\<lparr>queue_inner := rest\<rparr>) w)"
      let ?R1 = "\<lambda>w'. leads E items owns S W t w w' \<and> owned w' \<subset> owned w"
      have run: "process_loop E i w = (case ?m of Return _ w \<Rightarrow> process_loop E i w
          | Unwind w \<Rightarrow> Some (Unwind w) | Halt e \<Rightarrow> Some (Halt e))"
        by (subst process_loop.simps) (simp add: less.prems(3) Some q)
      have "safely p ?R1 ?R1 ?m"
        by (rule process_step [OF D less.prems(1,2,3)]) (use Some q in simp)
      then show ?thesis
      proof (cases rule: safelyE)
        case (returns u w1)
        then have w1: "nlib E items owns w1 S W" "settles t w w1" "owned w1 \<subset> owned w" by (simp_all add: leads_def)
        have "finite (owned w)" by (rule finite_subset [OF owned_subset nlibD(2) [OF less.prems(1)]])
        then have "card (owned w1) < card (owned w)" by (rule psubset_card_mono [OF _ w1(3)])
        moreover have "live w1 \<le> n" using settles_live [OF w1(2) nlibD(3) [OF less.prems(1)]] less.prems(2) by simp
        moreover obtain info1 where "entry w1 i = Some info1" by (rule settles_entry [OF w1(2) less.prems(3)])
        ultimately obtain r where r: "process_loop E i w1 = Some r" "safely p (?R w1) (leads E items owns S W t w1) r"
          using less.hyps w1(1) by blast
        have "safely p (?R w) (leads E items owns S W t w) r"
          by (rule safely_mono [OF r(2)]) (use leads_trans [OF w1(2)] in blast)+
        then show ?thesis using r(1) run returns(1) by simp
      qed (use run in simp_all)
    qed
  qed
  then show thesis using that unfolding R_def by blast
qed

text \<open>A collection holds the queue itself while it runs.\<close>

lemma settles_around:
  fixes w :: "('q, 'v) world"
  assumes s: "settles t (set_entry i x w) w'" and e: "entry w i = Some info" and same: "same_queue info y"
  shows "settles t w (set_entry i y w')"
proof -
  have "keeps_entry (entry w j) (entry (set_entry i y w') j)" for j
  proof (cases "j = i")
    case True
    then show ?thesis using e same by simp
  next
    case False
    then have "entry (set_entry i x w) j = entry w j" "entry (set_entry i y w') j = entry w' j"
      by (simp_all add: entry_def)
    then show ?thesis using settlesD(2) [OF s, of j] by simp
  qed
  then show ?thesis using s by (simp add: settles_def)
qed

lemma local_collect_keeps:
  assumes D: "ready E items owns p t n" and ok: "nlib E items owns w S W" and few: "live w \<le> n"
    and st: "tls w t = Tls_alive (Inr st)"
  defines "R \<equiv> leads E items owns S W t w"
  shows "safely p R R (local_collect_force E st w)"
proof -
  let ?i = "shared_info st"
  note N = nlibD [OF ok]
  obtain info where e: "entry w ?i = Some info" "is_live (state_flag info)" "0 < queue_strong info"
    using alive_facts(2) [OF lib_okD(1) [OF N(1)] st] by blast
  define held where "held = info\<lparr>queue_strong := queue_strong info + 1\<rparr>"
  let ?w1 = "set_entry ?i held w" and ?L = "leads E items owns S W t (set_entry ?i held w)"
  have flag: "items (queue_inner x) = [] \<or> state_flag x = QueuedObjects"
    if "nlib E items owns w2 S W" "entry w2 ?i = Some x" "0 < queue_strong x" for w2 x
    using lib_okD(7) [OF nlibD(1) [OF that(1)] that(2)] that(3) by (simp add: queue_ok_def)
  have ok1: "nlib E items owns ?w1 S W"
    by (rule nlib_set_entry [OF ok e(1)]) (use e flag [OF ok e(1,3)] in \<open>simp_all add: held_def\<close>)
  have entry: "\<exists>x. entry w2 ?i = Some x \<and> queue_strong x = queue_strong info + 1 \<and> is_live (state_flag x)
      \<and> info_short_id x = info_short_id info" if w2: "?L w2" for w2
  proof -
    obtain x where "entry w2 ?i = Some x" "same_queue held x"
      by (rule settles_entry [OF leadsD(2) [OF w2] entry_set_entry])
    then show ?thesis using e(2) by (auto simp: same_queue_def held_def)
  qed
  have last: "\<exists>w'. drop_queue_arc E ?i w2 = Return () w' \<and> R w'" if w2: "?L w2" for w2
  proof -
    obtain x where x: "entry w2 ?i = Some x" "queue_strong x = queue_strong info + 1" "is_live (state_flag x)"
      "info_short_id x = info_short_id info"
      using entry [OF w2] by blast
    let ?x = "x\<lparr>queue_strong := queue_strong info\<rparr>"
    have "drop_queue_arc E ?i w2 = Return () (set_entry ?i ?x w2)"
      using x(1,2) e(3) by (simp add: drop_queue_arc_def with_entry_def Let_def)
    moreover have "nlib E items owns (set_entry ?i ?x w2) S W"
      by (rule nlib_set_entry [OF leadsD(1) [OF w2] x(1)]) (use e(3) x flag [OF leadsD(1) [OF w2] x(1)] in simp_all)
    moreover have "settles t w (set_entry ?i ?x w2)"
      by (rule settles_around [OF leadsD(2) [OF w2] e(1)]) (use e(2) x(3,4) in \<open>simp add: same_queue_def\<close>)
    ultimately show ?thesis by (simp add: R_def leads_def)
  qed
  have swap: "\<exists>w3 x. swap_flag ?i QueuedObjects Live w2 = Return () w3 \<and> ?L w3
      \<and> entry w3 ?i = Some x \<and> items (queue_inner x) = []"
    if w2: "?L w2" "entry w2 ?i = Some x" "items (queue_inner x) = []" for w2 x
  proof -
    let ?x = "x\<lparr>state_flag := Live\<rparr>"
    have x: "0 < queue_strong x" "is_live (state_flag x)"
      using entry [OF w2(1)] unfolding w2(2) by simp_all
    have "x = ?x \<or> state_flag x = QueuedObjects" using x(2) by (cases "state_flag x") auto
    then have "swap_flag ?i QueuedObjects Live w2 = Return () (set_entry ?i ?x w2)"
      using w2(2) set_entry_same [OF w2(2)] by (auto simp: swap_flag_def with_entry_def)
    moreover have "nlib E items owns (set_entry ?i ?x w2) S W"
      by (rule nlib_set_entry [OF leadsD(1) [OF w2(1)] w2(2)]) (use x w2(3) in simp_all)
    moreover have "settles t w2 (set_entry ?i ?x w2)"
      by (rule settles_set_entry [OF w2(2)]) (use x(2) in \<open>simp add: same_queue_def\<close>)
    ultimately show ?thesis using settles_trans [OF leadsD(2) [OF w2(1)]] w2(3) by (simp add: leads_def)
  qed
  let ?RL = "\<lambda>w2. ?L w2 \<and> (\<exists>x. entry w2 ?i = Some x \<and> items (queue_inner x) = [])"
  obtain r where r: "process_loop E ?i ?w1 = Some r" "safely p ?RL ?L r"
    by (rule process_keeps [OF D ok1 _ entry_set_entry]) (use few inner_same(3) [of ?w1 w, OF value_at_simps(4)] in auto)
  have empty: "queue_is_empty E q \<longleftrightarrow> items q = []" for q using env_okD(2) [OF readyD(1) [OF D]] by (simp add: fifo_def)
  have "safely p ?L ?L (finite_run (collect_loop E ?i ?w1))"
    using r(2)
  proof (cases rule: safelyE)
    case (returns u w2)
    then obtain w3 x where "swap_flag ?i QueuedObjects Live w2 = Return () w3" "?L w3"
      "entry w3 ?i = Some x" "items (queue_inner x) = []"
      using swap by blast
    then show ?thesis
      by (subst collect_loop.simps) (simp add: do_process_def finite_run_def r(1) returns(1) empty)
  qed (subst collect_loop.simps, simp add: do_process_def finite_run_def r(1))+
  then have "safely p R R (with_guard (finite_run (collect_loop E ?i ?w1)) (drop_queue_arc E ?i))"
    by (rule safely_guard) (use last in blast)+
  then show ?thesis
    using e by (simp add: local_collect_force_def with_entry_def upgrade_queue_def held_def)
qed

lemma with_current_state_keeps:
  assumes D: "ready E items owns p t n" and ok: "nlib E items owns w S W" and few: "live w \<le> n"
    and f: "\<And>w1 st. nlib E items owns w1 S W \<Longrightarrow> live w1 \<le> n \<Longrightarrow> tls w1 t = Tls_alive (Inr st) \<Longrightarrow>
      safely p (leads E items owns S W t w1) (\<lambda>w'. c \<and> leads E items owns S W t w1 w') (f st w1)"
  shows "safely p (leads E items owns S W t w) (\<lambda>w'. c \<and> leads E items owns S W t w w') (with_current_state E t f w)"
proof -
  note N = nlibD [OF ok]
  obtain r w1 where r: "with_current (queue_new E) (next_index E (threads w)) t w = Inr (r, w1)"
    "lib_ok E items w1 (S + inner_strong owns w) (W + inner_weak owns w)" "heap w1 = heap w"
    "\<And>st. r = Inr st \<longleftrightarrow> tls w1 t = Tls_alive (Inr st)" "settles t w w1"
    using with_current_keeps [OF readyD(1) [OF D] N(1), of t] by blast
  have ok1: "nlib E items owns w1 S W"
    by (rule nlib_same [OF r(2) value_at_heap [OF r(3)]]) (use N(2) r(3) in simp)
  have few1: "live w1 \<le> n" using inner_same(3) [OF value_at_heap [OF r(3)]] few by simp
  show ?thesis
  proof (cases r)
    case (Inl e)
    then show ?thesis using r(1,5) ok1 by (simp add: with_current_state_def leads_def)
  next
    case (Inr st)
    have "safely p (leads E items owns S W t w1) (\<lambda>w'. c \<and> leads E items owns S W t w1 w') (f st w1)"
      using f [OF ok1 few1] r(4) Inr by blast
    then have "safely p (leads E items owns S W t w) (\<lambda>w'. c \<and> leads E items owns S W t w w')
        (bind_outcome (f st w1) (\<lambda>x w. Return (Inr x :: LocalThreadAccessError + _) w))"
      by (rule safely_bind) (use leads_trans [OF r(5)] in auto)
    then show ?thesis using r(1) Inr by (simp add: with_current_state_def)
  qed
qed

lemma collect_force_keeps:
  assumes D: "ready E items owns p t n" and ok: "nlib E items owns w S W" and few: "live w \<le> n"
  defines "R \<equiv> leads E items owns S W t w"
  shows "safely p R R (collect_force E t w)"
proof -
  have "safely p (leads E items owns S W t w1) (\<lambda>w'. True \<and> leads E items owns S W t w1 w') (local_collect_force E st w1)"
    if "nlib E items owns w1 S W" "live w1 \<le> n" "tls w1 t = Tls_alive (Inr st)" for w1 st
    using local_collect_keeps [OF D that] by simp
  from with_current_state_keeps [OF D ok few this]
  show ?thesis unfolding collect_force_def R_def by (rule safely_bind) simp_all
qed

lemma collect_keeps:
  assumes D: "ready E items owns p t n" and ok: "nlib E items owns w S W" and few: "live w \<le> n"
  defines "R \<equiv> leads E items owns S W t w"
  shows "safely p R (\<lambda>w'. pol = MayPanic \<and> R w') (collect_with E pol t w)"
proof (cases "currently_needs_collect t w")
  case True
  let ?f = "\<lambda>st w. maybe_abort_unwind pol
    (if thread_panicking E t then Return () w
     else with_entry (shared_info st) (\<lambda>info w.
       if state_flag info \<noteq> Live then local_collect_force E st w else Return () w) w)"
  have f: "safely p (leads E items owns S W t w1) (\<lambda>w'. pol = MayPanic \<and> leads E items owns S W t w1 w') (?f st w1)"
    if w1: "nlib E items owns w1 S W" "live w1 \<le> n" "tls w1 t = Tls_alive (Inr st)" for w1 st
  proof -
    obtain info where e: "entry w1 (shared_info st) = Some info"
      using alive_facts(2) [OF lib_okD(1) [OF nlibD(1) [OF w1(1)]] w1(3)] by blast
    have "leads E items owns S W t w1 w1" using w1(1) by (simp add: leads_def)
    then show ?thesis
      using local_collect_keeps [OF D w1] e
      by (cases pol) (auto simp: with_entry_def intro: safely_abort)
  qed
  have "safely p R (\<lambda>w'. pol = MayPanic \<and> R w') (with_current_state E t ?f w)"
    unfolding R_def by (rule with_current_state_keeps [OF D ok few]) (rule f)
  then have "safely p R (\<lambda>w'. pol = MayPanic \<and> R w') (collect_slow E pol t w)"
    unfolding collect_slow_def by (rule safely_bind) simp_all
  then show ?thesis using True by (simp add: collect_with_def)
qed (use ok in \<open>simp add: collect_with_def R_def leads_def\<close>)

text \<open>The collection before an operation, when the build has it. A panic in it aborts.\<close>

lemma collected_first:
  assumes D: "ready E items owns p t n" and ok: "nlib E items owns w S W" and few: "live w \<le> n"
  obtains (collected) w' where "collect_if c E t w = Return () w'" "nlib E items owns w' S W" "settles t w w'" "live w' \<le> n"
  | (aborts) p "collect_if c E t w = Halt Nounwind_abort"
proof (cases "c \<or> implicit_collect_disable E \<or> no_implicit_collect E")
  case True
  then show thesis using collected [of w] ok few by (auto simp: collect_if_def collect_implicit_def)
next
  case False
  then have run: "collect_if c E t w = collect_with E NeverPanic t w"
    by (simp add: collect_if_def collect_implicit_def collect_nounwind_def)
  from collect_keeps [OF D ok few, of NeverPanic] show thesis
  proof (cases rule: safelyE)
    case (returns u w')
    then have "settles t w w'" "nlib E items owns w' S W" by (simp_all add: leads_def)
    moreover from this have "live w' \<le> n" using settles_live [OF _ nlibD(3) [OF ok]] few le_trans by blast
    ultimately show thesis using collected returns(1) run by simp
  qed (use aborts run in auto)
qed

section \<open>The end of a thread\<close>

text \<open>Between operations, no collection and no end of a thread is under way.\<close>

definition quiet :: "('q, 'v) world \<Rightarrow> bool" where
  "quiet w \<longleftrightarrow> (\<forall>i info. entry w i = Some info \<longrightarrow>
     queue_strong info = 1 \<or> queue_strong info = 0 \<and> state_flag info = Dead)"

lemma quiet_entry:
  assumes "quiet w" "keeps_entry (entry w i) (Some y)"
  shows "queue_strong y = 1 \<or> queue_strong y = 0 \<and> state_flag y = Dead"
proof (cases "entry w i")
  case (Some x)
  then have "queue_strong x = 1 \<or> queue_strong x = 0 \<and> state_flag x = Dead" using assms(1) unfolding quiet_def by blast
  then show ?thesis using assms(2) Some by (auto simp: same_queue_def)
qed (use assms(2) in simp)

lemma settles_quiet:
  assumes "settles t w w'" "quiet w"
  shows "quiet w'"
  unfolding quiet_def
proof (intro allI impI)
  fix i y
  assume "entry w' i = Some y"
  then show "queue_strong y = 1 \<or> queue_strong y = 0 \<and> state_flag y = Dead"
    using quiet_entry [OF assms(2), of i y] settlesD(2) [OF assms(1), of i] by simp
qed

lemma runtime_ok_exit:
  assumes ok: "runtime_ok (w :: ('q, 'v) world)" and st: "tls w t = Tls_alive (Inr st)"
    and e: "entry w (shared_info st) = Some info"
    and same: "info_short_id info' = info_short_id info" "queue_short_id info' = queue_short_id info"
    and w': "threads w' = (threads w)(shared_info st \<mapsto> Inr info')" "tls w' = (tls w)(t := Tls_destroyed)"
      "fast w' = (fast w)(t := \<lparr>status = DeadOrDying, fast_short_id = None, shared_state_flag = None\<rparr>)"
  shows "runtime_ok w'"
proof -
  have "thread_ok w' u" for u
  proof (cases "u = t")
    case True
    then show ?thesis using w' by (simp add: thread_ok_def)
  next
    case False
    have "alive_entry st' w'" if "tls w u = Tls_alive (Inr st')" "alive_entry st' w" for st'
    proof -
      have "shared_info st' \<noteq> shared_info st"
        using runtime_okD(3) [OF ok] that(1) st False by (auto simp: entries_distinct_def)
      then show ?thesis using that(2) w'(1) by (simp add: alive_entry_def)
    qed
    then show ?thesis
      using runtime_okD(1) [OF ok, of u] False w'(2,3) by (auto simp: thread_ok_def split: tls_slot.splits sum.splits)
  qed
  moreover have "table_ok w'"
    using runtime_okD(2) [OF ok] e same w'(1) by (auto simp: table_ok_def entry_threads)
  moreover have "entries_distinct w'"
    using runtime_okD(3) [OF ok] w'(2) by (auto simp: entries_distinct_def)
  ultimately show ?thesis by (simp add: runtime_ok_def)
qed

lemma runtime_ok_forget:
  assumes ok: "runtime_ok w" and none: "\<And>st. tls w t \<noteq> Tls_alive (Inr st)"
  shows "runtime_ok (w\<lparr>tls := (tls w)(t := Tls_destroyed)\<rparr>)"
proof -
  have "thread_ok (w\<lparr>tls := (tls w)(t := Tls_destroyed)\<rparr>) u" for u
    using runtime_okD(1) [OF ok, of u] none
    by (cases "u = t") (auto simp: thread_ok_def fast_init_def split: tls_slot.splits sum.splits)
  then show ?thesis
    using ok by (auto simp: runtime_ok_def table_ok_def entries_distinct_def)
qed

lemma staffed_exit:
  assumes "staffed w" "tls w t = Tls_alive (Inr st)" "threads w' = (threads w)(shared_info st \<mapsto> Inr info')"
    "queue_strong info' = 0" "tls w' = (tls w)(t := Tls_destroyed)"
  shows "staffed w'"
  unfolding staffed_def
proof (intro allI impI)
  fix i info
  assume i: "entry w' i = Some info \<and> 0 < queue_strong info"
  then have "i \<noteq> shared_info st" "entry w i = Some info"
    using assms(3,4) by (auto simp: entry_threads split: if_splits)
  then obtain u st' where u: "tls w u = Tls_alive (Inr st')" "shared_info st' = i"
    using assms(1) i unfolding staffed_def by blast
  then have "u \<noteq> t" using \<open>i \<noteq> shared_info st\<close> assms(2) by auto
  then show "\<exists>u st'. tls w' u = Tls_alive (Inr st') \<and> shared_info st' = i" using u assms(5) by auto
qed

lemma staffed_forget:
  "staffed w \<Longrightarrow> (\<And>st. tls w t \<noteq> Tls_alive (Inr st)) \<Longrightarrow> staffed (w\<lparr>tls := (tls w)(t := Tls_destroyed)\<rparr>)"
  unfolding staffed_def by (simp add: entry_def) metis

text \<open>The thread gives up its queue, and says at last that nothing more will happen with it.\<close>

lemma dying_keeps:
  assumes ok: "nlib E items owns w S W" and st: "tls w t = Tls_alive (Inr st)" and e: "entry w (shared_info st) = Some info"
    and w1: "threads w1 = (threads w)(shared_info st \<mapsto> Inr (info\<lparr>state_flag := Dying, queue_strong := 0\<rparr>))"
      "heap w1 = heap w" "tls w1 = (tls w)(t := Tls_destroyed)" "ids_exhausted w1 = ids_exhausted w"
      "fast w1 = (fast w)(t := \<lparr>status = DeadOrDying, fast_short_id = None, shared_state_flag = None\<rparr>)"
  shows "nlib E items owns w1 S W" "live w1 = live w"
proof -
  note N = nlibD [OF ok] and L = lib_okD [OF nlibD(1) [OF ok]]
  have "runtime_ok w1" by (rule runtime_ok_exit [OF L(1) st e _ _ w1(1,3,5)]) simp_all
  moreover have "table_open w1"
    using L(2) w1(1,4) staffed_exit [OF table_openD(2) [OF L(2)] st w1(1) _ w1(3)] by (simp add: table_open_def)
  ultimately have "lib_ok E items w1 (S + inner_strong owns w) (W + inner_weak owns w)"
    by (intro lib_ok_entry [OF N(1) e, of "info\<lparr>state_flag := Dying, queue_strong := 0\<rparr>", OF _ _ _ _ _ _ w1(1,2)])
      simp_all
  then show "nlib E items owns w1 S W"
    by (rule nlib_same) (use N(2) w1(2) value_at_heap [OF w1(2)] in simp_all)
  show "live w1 = live w" by (rule inner_same(3) [OF value_at_heap [OF w1(2)]])
qed

lemma dead_keeps:
  assumes ok: "nlib E items owns w S W" and e: "entry w i = Some info"
    and gone: "queue_strong info = 0" "state_flag info = Dying" "items (queue_inner info) = []"
  shows "nlib E items owns (set_entry i (info\<lparr>state_flag := Dead\<rparr>) w) S W"
proof -
  note N = nlibD [OF ok] and L = lib_okD [OF nlibD(1) [OF ok]]
  let ?w = "set_entry i (info\<lparr>state_flag := Dead\<rparr>) w"
  have "lib_ok E items ?w (S + inner_strong owns w) (W + inner_weak owns w)"
  proof (rule lib_ok_entry [OF N(1) e])
    show "runtime_ok ?w" by (rule runtime_ok_set_entry [OF L(1) e]) (use gone in simp_all)
    show "table_open ?w" by (rule table_open_set_entry [OF L(2) e]) (use gone in simp)
  qed (use gone in simp_all)
  then show ?thesis by (rule nlib_same) (use N(2) in simp_all)
qed

lemma thread_exit_keeps:
  fixes w :: "('q, 'v) world"
  assumes D: "ready E items owns p t n" and ok: "nlib E items owns w S W" and few: "live w \<le> n" and quiet: "quiet w"
  obtains (ends) w' where "thread_exit E t w = Return () w'" "nlib E items owns w' S W" "quiet w'"
    "tls w' = (tls w)(t := Tls_destroyed)" "\<And>a. fades (heap w a) (heap w' a)"
  | (aborts) p "thread_exit E t w = Halt Nounwind_abort"
proof (cases "\<exists>st. tls w t = Tls_alive (Inr st)")
  case True
  then obtain st where st: "tls w t = Tls_alive (Inr st)" ..
  let ?i = "shared_info st"
  note N = nlibD [OF ok] and L = lib_okD [OF nlibD(1) [OF ok]]
  obtain info where e: "entry w ?i = Some info" "is_live (state_flag info)" "0 < queue_strong info"
    using alive_facts(2) [OF L(1) st] by blast
  then have one: "queue_strong info = 1" using quiet unfolding quiet_def by (metis less_irrefl)
  define w0 where "w0 = w\<lparr>tls := (tls w)(t := Tls_destroyed),
    fast := (fast w)(t := \<lparr>status = DeadOrDying, fast_short_id = None, shared_state_flag = None\<rparr>)\<rparr>"
  let ?dying = "info\<lparr>state_flag := Dying, queue_strong := 0\<rparr>"
  let ?w1 = "set_entry ?i ?dying w0"
  have w1: "threads ?w1 = (threads w)(?i \<mapsto> Inr ?dying)" "heap ?w1 = heap w" "tls ?w1 = (tls w)(t := Tls_destroyed)"
    "fast ?w1 = (fast w)(t := \<lparr>status = DeadOrDying, fast_short_id = None, shared_state_flag = None\<rparr>)"
    "ids_exhausted ?w1 = ids_exhausted w"
    by (simp_all add: w0_def)
  note dying = dying_keeps [OF ok st e(1) w1(1-3,5,4)]
  have few1: "live ?w1 \<le> n" using dying(2) few by simp
  have run: "thread_exit E t w = abort_unwind (bind_outcome (finite_run (process_loop E ?i ?w1)) (\<lambda>_.
      with_entry ?i (\<lambda>info w. if state_flag info = Dying then Return () (set_entry ?i (info\<lparr>state_flag := Dead\<rparr>) w)
        else Halt Assertion_failed)))"
  proof -
    have "thread_exit E t w = abort_unwind (drop_local_state E t st (w\<lparr>tls := (tls w)(t := Tls_destroyed)\<rparr>))"
      using st by (simp add: thread_exit_def Let_def)
    then show ?thesis
      using alive_facts(1) [OF L(1) st] e(1,2) one
      by (simp add: drop_local_state_def with_entry_def drop_queue_arc_def w0_def Let_def do_process_def entry_def)
  qed
  obtain r where r: "process_loop E ?i ?w1 = Some r" "safely p (\<lambda>w'. leads E items owns S W t ?w1 w'
      \<and> (\<exists>info'. entry w' ?i = Some info' \<and> items (queue_inner info') = [])) (leads E items owns S W t ?w1) r"
    by (rule process_keeps [OF D dying(1) few1 entry_set_entry])
  from r(2) show thesis
  proof (cases rule: safelyE)
    case (returns u w2)
    then obtain info2 where w2: "r = Return () w2" "nlib E items owns w2 S W" "settles t ?w1 w2"
      "entry w2 ?i = Some info2" "items (queue_inner info2) = []"
      by (auto simp: leads_def)
    have q2: "queue_strong info2 = 0" "state_flag info2 = Dying"
      using settles_entry [OF w2(3) entry_set_entry] w2(4) by (auto simp: same_queue_def)
    let ?dead = "info2\<lparr>state_flag := Dead\<rparr>"
    let ?w = "set_entry ?i ?dead w2"
    have run: "thread_exit E t w = Return () ?w"
      using run r(1) w2(1,4) q2(2) by (simp add: finite_run_def with_entry_def)
    have "nlib E items owns ?w S W" by (rule dead_keeps [OF w2(2,4) q2 w2(5)])
    moreover have "quiet ?w"
      unfolding quiet_def
    proof (intro allI impI)
      fix j y
      assume y: "entry ?w j = Some y"
      show "queue_strong y = 1 \<or> queue_strong y = 0 \<and> state_flag y = Dead"
      proof (cases "j = ?i")
        case False
        then have "entry w2 j = Some y" "entry ?w1 j = entry w j" using y w1(1) by (simp_all add: entry_def)
        then show ?thesis
          using settlesD(2) [OF w2(3), of j] quiet_entry [OF quiet, of j y] by simp
      qed (use y q2 in auto)
    qed
    moreover have "tls ?w = (tls w)(t := Tls_destroyed)"
    proof
      fix u
      show "tls ?w u = ((tls w)(t := Tls_destroyed)) u"
        using settlesD(3) [OF w2(3), of u] w1(3) by (cases "u = t") simp_all
    qed
    moreover have "fades (heap w a) (heap ?w a)" for a
      using settlesD(1) [OF w2(3), of a] w1(2) by simp
    ultimately show thesis using ends run by blast
  qed (use aborts run r(1) in \<open>simp_all add: finite_run_def\<close>)
next
  case False
  let ?w = "w\<lparr>tls := (tls w)(t := Tls_destroyed)\<rparr>"
  note N = nlibD [OF ok]
  have run: "thread_exit E t w = Return () ?w"
    using False by (auto simp: thread_exit_def Let_def split: tls_slot.splits sum.splits)
  have "runtime_ok ?w" using runtime_ok_forget [OF lib_okD(1) [OF N(1)]] False by blast
  moreover have "staffed ?w" using staffed_forget [OF table_openD(2) [OF lib_okD(2) [OF N(1)]]] False by blast
  ultimately have "lib_ok E items ?w (S + inner_strong owns w) (W + inner_weak owns w)"
    using N(1) owner_ok_frame [of ?w w]
    by (simp add: lib_ok_def owners_ok_def queues_ok_def table_open_def entry_def)
  then have "nlib E items owns ?w S W"
    by (rule nlib_same) (use N(2) value_at_heap [of ?w w] in simp_all)
  moreover have "quiet ?w" using quiet by (simp add: quiet_def entry_def)
  ultimately show thesis using ends run by (simp add: fades_refl)
qed

section \<open>The header of a new object\<close>

lemma init_keeps:
  assumes E: "env_ok E items" and ok: "lib_ok E items w S W"
  obtains this_id w' where "init (queue_new E) (next_index E (threads w)) t w = Inr (init_for this_id, w')"
    "lib_ok E items w' S W" "heap w' = heap w" "settles t w w'"
    "\<And>s. this_id = Some s \<Longrightarrow> short_id_ok s \<and>
       (\<exists>i info. get_by_id s w' = Inr (Some (i, info)) \<and> info_short_id info = s)"
proof -
  note L = lib_okD [OF ok]
  have fresh: "fresh_index (next_index E (threads w)) w" by (rule lib_ok_fresh [OF ok env_okD(4) [OF E]])
  obtain this_id w' where i: "init (queue_new E) (next_index E (threads w)) t w = Inr (init_for this_id, w')"
    "runtime_ok w'" "\<And>s. this_id = Some s \<Longrightarrow> short_id_ok s \<and> existing_short_id t w' = Inr (Inr s)"
    "runtime.more w' = runtime.more w"
    using init_ok [OF L(1), of t "next_index E (threads w)" "queue_new E"] fresh by metis
  obtain r where r: "existing_short_id t w = Inr r"
    using existing_short_id_total [OF runtime_okD(1) [OF L(1)]] by blast
  have kept: "lib_ok E items w' S W \<and> settles t w w'"
  proof (cases "r = Inl Uninitialized")
    case True
    then obtain x where x: "with_current (queue_new E) (next_index E (threads w)) t w = Inr (x, w')"
      using i(1) r by (auto simp: init_def init_tid_def checked_simps)
    obtain y w1 where "with_current (queue_new E) (next_index E (threads w)) t w = Inr (y, w1)"
      "lib_ok E items w1 S W" "settles t w w1"
      using with_current_keeps [OF E ok, of t] by metis
    then show ?thesis using x by simp
  next
    case False
    then have "w' = w"
      using i(1) r by (auto simp: init_def split: sum.splits LocalThreadAccessError.splits)
    then show ?thesis using ok by simp
  qed
  have "\<exists>j info. get_by_id s w' = Inr (Some (j, info)) \<and> info_short_id info = s" if s: "this_id = Some s" for s
  proof -
    obtain st where st: "tls w' t = Tls_alive (Inr st)" "local_short_id st = s"
      using i(3) [OF s] existing_short_id_Inr [OF runtime_okD(1) [OF i(2)]] by blast
    obtain info where info: "entry w' (shared_info st) = Some info" "info_short_id info = s"
      using alive_facts(2) [OF i(2) st(1)] st(2) by blast
    have "short_id_ok s \<and> short_id_nat s = shared_info st + 1"
      using table_okD [OF runtime_okD(2) [OF i(2)]] info by (auto simp: entry_threads)
    then obtain k where "ShortThreadId_index s = Inr k" "unat k = shared_info st"
      using ShortThreadId_index_ok [of s] by auto
    then have "get_by_id s w' = Inr (Some (shared_info st, info))"
      using info(1) by (simp add: get_by_id_entry)
    then show ?thesis using info(2) by blast
  qed
  then show thesis using that [OF i(1) _ heap_more [OF i(4)]] kept i(3) by blast
qed

end
