(* ===== verification/Client_Steps.thy ===== *)
theory Client_Steps
  imports Client_Runtime
begin

text \<open>
  Every operation of the library, called on pointers that exist, in the program's hands or in values,
  returns with the invariant kept for the pointers that exist afterwards, or stops for one of the
  reasons it may stop for: no memory, or too many weak pointers.
\<close>

section \<open>Preparations\<close>

lemma Brc_same [simp]: "Brc_from_raw (value_ptr b) (meta b) = b"
  by (cases b) (simp add: Brc_from_raw_def)

lemma weak_of_header: "WeakReal_header_ptr E (weak_of b) = Brc_header_ptr E b"
  by (simp add: WeakReal_header_ptr_def WeakReal_layout_info_def Brc_header_ptr_def Brc_layout_def weak_of_def
      Weak_from_raw_def)

lemma my_id:
  assumes "lib_ok E items w S W"
  obtains me where "existing_short_id t w = Inr me" "my_short_id t w = Return me w"
  using existing_short_id_total [OF runtime_okD(1) [OF lib_okD(1) [OF assms]]] by (auto simp: my_short_id_def)

lemma held_size: "size (held E a S) \<le> size S"
  unfolding held_def by (rule size_filter_mset_lesseq)

lemma few_shared:
  assumes "lib_ok E items w S W" "heap w a = Some ob" "size S < 2 ^ 60"
  shows "shared_value (strong ob) < 2 ^ 60"
proof -
  have "shared_value (strong ob) \<le> logical_count (strong ob)" by (simp add: logical_count_def)
  also have "\<dots> = int (size (held E a S))" by (rule obj_okD(2) [OF lib_okD(5) [OF assms(1,2)]])
  also have "\<dots> \<le> int (size S)" using held_size [of E a S] by simp
  also have "\<dots> < 2 ^ 60" using assms(3) by simp
  finally show ?thesis .
qed

lemma set_heap_store: "w\<lparr>heap := (heap w)(a := Some ob)\<rparr> = store a ob w"
  by (simp add: store_def)

lemma header_of_points: "points_to E b a ob \<Longrightarrow> Brc_header_ptr E b = Inr a"
  using points_to_info by blast

text \<open>An operation that only changes counts.\<close>

definition counts_only :: "('q, 'v) world \<Rightarrow> ('q, 'v) world \<Rightarrow> bool" where
  "counts_only w w' \<longleftrightarrow> value_at w' = value_at w \<and> (\<forall>t. settles t w w')"

lemma counts_only_refl [simp]: "counts_only w w"
  by (simp add: counts_only_def)

lemma counts_only_store:
  assumes "heap w a = Some ob" "contents ob' = contents ob"
    "owner_id (biased_of (strong ob')) = owner_id (biased_of (strong ob))"
  shows "counts_only w (store a ob' w)"
proof -
  have "settles t w (store a ob' w)" for t by (rule settles_store) (use assms in simp)
  then show ?thesis using value_at_same [OF assms(1,2)] by (simp add: counts_only_def)
qed

lemma fades_dom: "fades (H a) (H' a) \<Longrightarrow> H' a \<noteq> None \<Longrightarrow> H a \<noteq> None"
  by auto

lemma settles_dom: "settles t w w' \<Longrightarrow> dom (heap w') \<subseteq> dom (heap w)"
  using fades_dom [of "heap w" _ "heap w'"] settlesD(1) [of t w w'] by blast

lemma nlib_counts:
  assumes "lib_ok E items w' (S + inner_strong owns w) (W + inner_weak owns w)" "counts_only w w'" "finite (dom (heap w))"
  shows "nlib E items owns w' S W"
  using nlib_same [OF assms(1)] assms(2) finite_subset [OF settles_dom [of undefined w w'] assms(3)]
  by (simp add: counts_only_def)

section \<open>Cloning\<close>

text \<open>One more strong pointer to an object whose header says so.\<close>

lemma lib_ok_gain:
  assumes ok: "lib_ok E items w S W" and ob: "heap w a = Some ob" "\<not> is_dead (strong ob)"
    and h': "settled h'" "same_place (strong ob) h'" "logical_count h' = logical_count (strong ob) + 1"
    and b: "Brc_header_ptr E b = Inr a" "weak_points_to E (weak_of b) a ob"
  shows "lib_ok E items (store a (ob\<lparr>strong := h'\<rparr>) w) (add_mset b S) W"
  unfolding set_heap_store [symmetric]
proof (rule lib_ok_object [OF ok ob(1)])
  show "slot_ok E (held E a (add_mset b S)) (held_weak E a W) a (Some (ob\<lparr>strong := h'\<rparr>))"
    using obj_ok_gain [OF lib_okD(5) [OF ok ob(1)] ob(2) h'(1,3) b(2)] b(1) by simp
  show "moves ob (Some (ob\<lparr>strong := h'\<rparr>))" using h'(2) by simp
  show "pointers_ok E (add_mset b S) W" by (rule pointers_ok_simps(1) [OF lib_okD(3) [OF ok] b(1)])
qed (use b(1) in simp)

lemma counting_safeD:
  assumes "counting_safe w t (Inr a)" "existing_short_id t w = Inr me" "heap w a = Some ob"
  shows "safe_to_count me (strong ob)"
  using assms by (simp add: counting_safe_def at_header_def)

lemma clone_keeps:
  assumes ok: "lib_ok E items w S W" and h: "h \<in># S"
    and safe: "counting_safe w t (Brc_header_ptr E h)" and small: "size S < 2 ^ 60"
  obtains w' where "Brc_clone_no_collect E t h w = Return h w'" "lib_ok E items w' (add_mset h S) W" "counts_only w w'"
proof -
  obtain a ob where ob: "Brc_header_ptr E h = Inr a" "heap w a = Some ob" "h \<in># held E a S"
    "obj_ok E (held E a S) (held_weak E a W) a ob" "points_to E h a ob"
    by (rule strong_target [OF ok h])
  obtain me where me: "existing_short_id t w = Inr me" "my_short_id t w = Return me w" by (rule my_id [OF ok])
  note O = obj_okD [OF ob(4)] and A = obj_ok_alive [OF ob(4,3)]
  have "shared_value (strong ob) < 2 ^ 60" by (rule few_shared [OF ok ob(2) small])
  then obtain h' where h': "increment_strong (debug_assertions E) me (strong ob) = Inr h'" "settled h'"
    "same_place (strong ob) h'" "logical_count h' = logical_count (strong ob) + 1"
    using increment_settled [OF O(1), of me "debug_assertions E"] counting_safeD [of w t a me ob] safe ob(1,2) me(1)
    by auto
  have "Brc_clone_no_collect E t h w = Return h (store a (ob\<lparr>strong := h'\<rparr>) w)"
    using ob(1,2) me(2) h'(1) by (simp add: Brc_clone_no_collect_def on_header_def)
  moreover have "lib_ok E items (store a (ob\<lparr>strong := h'\<rparr>) w) (add_mset h S) W"
    using lib_ok_gain [OF ok ob(2) A(1) h'(2-4) ob(1)] O(7) [OF ob(3)] by simp
  moreover have "counts_only w (store a (ob\<lparr>strong := h'\<rparr>) w)"
    by (rule counts_only_store [OF ob(2)]) (use h'(3) in \<open>simp_all add: same_place_def\<close>)
  ultimately show thesis using that by blast
qed

lemma clone_shared_keeps:
  assumes ok: "lib_ok E items w S W" and h: "h \<in># S"
    and safe: "at_header w (Brc_header_ptr E h) (\<lambda>h. \<not> awaits_merge h)" and small: "size S < 2 ^ 60"
  obtains w' where "Brc_clone_shared E h w = Return h w'" "lib_ok E items w' (add_mset h S) W" "counts_only w w'"
proof -
  obtain a ob where ob: "Brc_header_ptr E h = Inr a" "heap w a = Some ob" "h \<in># held E a S"
    "obj_ok E (held E a S) (held_weak E a W) a ob" "points_to E h a ob"
    by (rule strong_target [OF ok h])
  note O = obj_okD [OF ob(4)] and A = obj_ok_alive [OF ob(4,3)]
  have small': "shared_value (strong ob) < 2 ^ 60" by (rule few_shared [OF ok ob(2) small])
  have "\<not> awaits_merge (strong ob)" using safe ob(1,2) by (simp add: at_header_def)
  note h' = fetch_add_settled [OF O(1) this small']
  let ?h = "(strong ob)\<lparr>shared_word := shared_word (strong ob) + 1\<rparr>"
  have "increment_strong_shared (shared_word (strong ob)) = Inr (shared_word (strong ob) + 1)"
    using small' by (simp add: increment_strong_shared_Inr)
  then have "Brc_clone_shared E h w = Return h (store a (ob\<lparr>strong := ?h\<rparr>) w)"
    using ob(1,2) by (simp add: Brc_clone_shared_def on_header_def)
  moreover have "lib_ok E items (store a (ob\<lparr>strong := ?h\<rparr>) w) (add_mset h S) W"
    using lib_ok_gain [OF ok ob(2) A(1), of ?h, OF _ _ _ ob(1)] h' O(7) [OF ob(3)] by simp
  moreover have "counts_only w (store a (ob\<lparr>strong := ?h\<rparr>) w)"
    by (rule counts_only_store [OF ob(2)]) (use h' in \<open>simp_all add: same_place_def\<close>)
  ultimately show thesis using that by blast
qed

section \<open>Upgrading\<close>

lemma upgrade_keeps:
  assumes ok: "lib_ok E items w S W" and x: "x \<in># W"
    and safe: "counting_safe w t (WeakReal_header_ptr E x)" and small: "size S < 2 ^ 60"
  obtains "Weak_upgrade E t x w = Return None w"
  | b w' where "Weak_upgrade E t x w = Return (Some b) w'" "lib_ok E items w' (add_mset b S) W" "counts_only w w'"
proof -
  obtain a ob where ob: "WeakReal_header_ptr E x = Inr a" "heap w a = Some ob" "x \<in># held_weak E a W"
    "obj_ok E (held E a S) (held_weak E a W) a ob" "weak_points_to E x a ob"
    by (rule weak_target [OF ok x])
  obtain me where me: "existing_short_id t w = Inr me" "my_short_id t w = Return me w" by (rule my_id [OF ok])
  note O = obj_okD [OF ob(4)]
  have "shared_value (strong ob) < 2 ^ 60" by (rule few_shared [OF ok ob(2) small])
  then have up: "if is_dead (strong ob)
     then increment_strong_unless_zero (debug_assertions E) me [] (strong ob) = Inr (Inl ZeroReferenceCountError)
     else \<exists>h'. increment_strong_unless_zero (debug_assertions E) me [] (strong ob) = Inr (Inr h') \<and> settled h'
       \<and> same_place (strong ob) h' \<and> logical_count h' = logical_count (strong ob) + 1"
    using unless_zero_settled [OF O(1), of me "debug_assertions E"] counting_safeD [of w t a me ob] safe ob(1,2) me(1)
    by simp
  let ?b = "Brc_from_raw (value_ptr_or_reserved x) (weak_meta x)"
  show thesis
  proof (cases "is_dead (strong ob)")
    case True
    then have "Weak_upgrade E t x w = Return None (store a ob w)"
      unfolding Weak_upgrade_def on_real_object(1) [OF ob(5)]
      using up me(2) ob(2) by (simp add: on_header_def)
    then show thesis using that(1) store_same [OF ob(2)] by simp
  next
    case False
    then obtain h' where h': "increment_strong_unless_zero (debug_assertions E) me [] (strong ob) = Inr (Inr h')"
      "settled h'" "same_place (strong ob) h'" "logical_count h' = logical_count (strong ob) + 1"
      using up by auto
    have "Weak_upgrade E t x w = Return (Some ?b) (store a (ob\<lparr>strong := h'\<rparr>) w)"
      unfolding Weak_upgrade_def on_real_object(1) [OF ob(5)]
      using h'(1) me(2) ob(2) by (simp add: on_header_def)
    moreover have "lib_ok E items (store a (ob\<lparr>strong := h'\<rparr>) w) (add_mset ?b S) W"
    proof (rule lib_ok_gain [OF ok ob(2) False h'(2-4)])
      show "Brc_header_ptr E ?b = Inr a" using ob(1) weak_of_header [of E ?b] weak_of_Brc [of x] by simp
      show "weak_points_to E (weak_of ?b) a ob" using ob(5) by (simp add: weak_of_Brc)
    qed
    moreover have "counts_only w (store a (ob\<lparr>strong := h'\<rparr>) w)"
      by (rule counts_only_store [OF ob(2)]) (use h'(3) in \<open>simp_all add: same_place_def\<close>)
    ultimately show thesis using that(2) by blast
  qed
qed

section \<open>Weak pointers\<close>

text \<open>One more weak pointer, below the threshold.\<close>

lemma lib_ok_gain_weak:
  assumes ok: "lib_ok E items w S W" and ob: "heap w a = Some ob"
    and few: "weak_count ob \<le> WEAK_OVERFLOW_THRESHOLD"
    and x: "WeakReal_header_ptr E x = Inr a" "weak_points_to E x a ob"
  shows "lib_ok E items (store a (ob\<lparr>weak_count := weak_count ob + 1\<rparr>) w) S (add_mset x W)"
    "counts_only w (store a (ob\<lparr>weak_count := weak_count ob + 1\<rparr>) w)"
proof -
  show "counts_only w (store a (ob\<lparr>weak_count := weak_count ob + 1\<rparr>) w)"
    by (rule counts_only_store [OF ob]) simp_all
  show "lib_ok E items (store a (ob\<lparr>weak_count := weak_count ob + 1\<rparr>) w) S (add_mset x W)"
    unfolding set_heap_store [symmetric]
  proof (rule lib_ok_object [OF ok ob])
    note O = lib_okD(5) [OF ok ob]
    have le: "uint (weak_count ob) \<le> 2 ^ 31 - 1"
      using few uint_WEAK_OVERFLOW_THRESHOLD by (simp add: word_le_def)
    have plus: "uint (weak_count ob + 1) = uint (weak_count ob) + 1" by (rule uint32_plus_one) (use le in simp)
    have "weak_count ob + 1 \<noteq> 0"
    proof
      assume "weak_count ob + 1 = 0"
      then have "uint (weak_count ob) + 1 = 0" using plus by simp
      then show False using uint_ge_0 [of "weak_count ob"] by linarith
    qed
    then show "slot_ok E (held E a S) (held_weak E a (add_mset x W)) a (Some (ob\<lparr>weak_count := weak_count ob + 1\<rparr>))"
      using O x plus le by (auto simp: obj_ok_def)
    show "pointers_ok E S (add_mset x W)" by (rule pointers_ok_simps(2) [OF lib_okD(3) [OF ok] x(1)])
  qed (use x(1) in simp_all)
qed

text \<open>The count is never locked between operations.\<close>

lemma not_locked:
  assumes "lib_ok E items w S W" "heap w a = Some ob"
  shows "weak_count ob \<noteq> WEAK_LOCKED_COUNT"
proof
  assume "weak_count ob = WEAK_LOCKED_COUNT"
  then have "uint (weak_count ob) = 2 ^ 32 - 1" using uint_WEAK_LOCKED_COUNT by simp
  then show False using obj_okD(6) [OF lib_okD(5) [OF assms]] by simp
qed

lemma downgrade_keeps:
  assumes ok: "lib_ok E items w S W" and h: "h \<in># S"
  obtains "Brc_downgrade E h w = Halt (Fatal Weak_refcnt_overflow)"
  | x w' where "Brc_downgrade E h w = Return x w'" "lib_ok E items w' S (add_mset x W)" "counts_only w w'"
proof -
  obtain a ob where ob: "Brc_header_ptr E h = Inr a" "heap w a = Some ob" "h \<in># held E a S"
    "obj_ok E (held E a S) (held_weak E a W) a ob" "points_to E h a ob"
    by (rule strong_target [OF ok h])
  note O = obj_okD [OF ob(4)]
  show thesis
  proof (cases "weak_count ob > WEAK_OVERFLOW_THRESHOLD")
    case True
    then show thesis
      using that(1) ob(1,2) not_locked [OF ok ob(2)] by (simp add: Brc_downgrade_def)
  next
    case False
    let ?w = "store a (ob\<lparr>weak_count := weak_count ob + 1\<rparr>) w"
    have "Brc_downgrade E h w = Return (weak_of h) ?w"
      using False ob(1,2) not_locked [OF ok ob(2)] by (simp add: Brc_downgrade_def weak_of_def)
    moreover have "lib_ok E items ?w S (add_mset (weak_of h) W)" "counts_only w ?w"
      by (rule lib_ok_gain_weak [OF ok ob(2), of "weak_of h"];
        use False ob(1) O(7) [OF ob(3)] in \<open>simp add: weak_of_header\<close>)+
    ultimately show thesis using that(2) by blast
  qed
qed

lemma weak_clone_keeps:
  assumes ok: "lib_ok E items w S W" and x: "x \<in># W"
  obtains "Weak_clone E x w = Halt (Fatal Weak_refcnt_overflow)"
  | w' where "Weak_clone E x w = Return x w'" "lib_ok E items w' S (add_mset x W)" "counts_only w w'"
proof -
  obtain a ob where ob: "WeakReal_header_ptr E x = Inr a" "heap w a = Some ob" "x \<in># held_weak E a W"
    "obj_ok E (held E a S) (held_weak E a W) a ob" "weak_points_to E x a ob"
    by (rule weak_target [OF ok x])
  note O = obj_okD [OF ob(4)]
  note run = on_real_object(1) [OF ob(5)]
  show thesis
  proof (cases "weak_count ob > WEAK_OVERFLOW_THRESHOLD")
    case True
    then show thesis using that(1) ob(2) unfolding Weak_clone_def run by simp
  next
    case False
    let ?w = "store a (ob\<lparr>weak_count := weak_count ob + 1\<rparr>) w"
    have "Weak_clone E x w = Return x ?w" using False ob(2) unfolding Weak_clone_def run by simp
    moreover have "lib_ok E items ?w S (add_mset x W)" "counts_only w ?w"
      by (rule lib_ok_gain_weak [OF ok ob(2), of x]; use False ob(1,5) in simp)+
    ultimately show thesis using that(2) by blast
  qed
qed

lemma weak_drop_keeps:
  assumes ok: "nlib E items owns w S (add_mset x W)"
  obtains w' where "Weak_drop E x w = Return () w'" "nlib E items owns w' S W" "\<And>t. settles t w w'"
proof -
  have x: "x \<in># add_mset x W + inner_weak owns w" by simp
  obtain a ob where ob: "WeakReal_header_ptr E x = Inr a" "heap w a = Some ob" "weak_points_to E x a ob"
    using weak_target [OF nlibD(1) [OF ok] x] by metis
  have "Weak_drop E x w = Return () (w\<lparr>heap := (heap w)(a := less_weak ob)\<rparr>)"
    using weak_drop_effect [OF ob(2,3)] by (simp add: less_weak_def store_def)
  then show thesis using that nlib_lose_weak [OF ok ob(2,1)] by blast
qed

section \<open>Exclusive access\<close>

lemma strong_at_object:
  assumes ok: "lib_ok E items w S W" and h: "h \<in># S"
  obtains a ob me where "Brc_header_ptr E h = Inr a" "heap w a = Some ob" "h \<in># held E a S"
    "obj_ok E (held E a S) (held_weak E a W) a ob" "points_to E h a ob"
    "existing_short_id t w = Inr me" "my_short_id t w = Return me w" "at_object E t h w a ob me"
proof -
  obtain a ob where ob: "Brc_header_ptr E h = Inr a" "heap w a = Some ob" "h \<in># held E a S"
    "obj_ok E (held E a S) (held_weak E a W) a ob" "points_to E h a ob"
    by (rule strong_target [OF ok h])
  obtain me where me: "existing_short_id t w = Inr me" "my_short_id t w = Return me w" by (rule my_id [OF ok])
  have "at_object E t h w a ob me"
    using ob(2,5) me(1) settled_ok [OF obj_okD(1) [OF ob(4)]] by (simp add: at_object_def)
  with ob me show thesis by (rule that)
qed

text \<open>
  \<open>get_mut\<close> gives access only to the one pointer there is, so that what is written through it is what
  every later pointer to the object reads.
\<close>

lemma write_keeps:
  assumes ok: "lib_ok E items w S W" and ob: "heap w a = Some ob" "contents ob = Some old"
    and a: "Brc_header_ptr E h = Inr a"
  shows "write_value E h v w = Return () (store a (ob\<lparr>contents := Some v\<rparr>) w)"
    "lib_ok E items (store a (ob\<lparr>contents := Some v\<rparr>) w) S W"
proof -
  show "write_value E h v w = Return () (store a (ob\<lparr>contents := Some v\<rparr>) w)"
    using ob(1) a by (simp add: write_value_def)
  show "lib_ok E items (store a (ob\<lparr>contents := Some v\<rparr>) w) S W"
    unfolding set_heap_store [symmetric]
  proof (rule lib_ok_object [OF ok ob(1)])
    show "slot_ok E (held E a S) (held_weak E a W) a (Some (ob\<lparr>contents := Some v\<rparr>))"
      using lib_okD(5) [OF ok ob(1)] ob(2) by (auto simp: obj_ok_def)
  qed (use lib_okD(3) [OF ok] in simp_all)
qed

text \<open>What \<open>is_unique\<close> finds unique has one pointer.\<close>

lemma unique_one:
  assumes ob: "obj_ok E (held E a S) (held_weak E a W) a ob" and h: "h \<in># held E a S" and u: "known_unique me ob"
  shows "held E a S = {#h#}" "held_weak E a W = {#}"
proof -
  have "size (held E a S) = 1" and weak: "held_weak E a W = {#}"
    using obj_okD(2,3) [OF ob] obj_ok_alive(1) [OF ob h] u by (simp_all add: known_unique_def)
  then obtain y where "held E a S = {#y#}" using size_1_singleton_mset by blast
  then show "held E a S = {#h#}" using h by simp
  show "held_weak E a W = {#}" by (rule weak)
qed

lemma replace_keeps:
  assumes ok: "lib_ok E items w S W" and h: "h \<in># S"
  obtains "Brc_replace E t h v w = Return None w"
  | a ob old where "Brc_replace E t h v w = Return (Some old) (store a (ob\<lparr>contents := Some v\<rparr>) w)"
    "lib_ok E items (store a (ob\<lparr>contents := Some v\<rparr>) w) S W" "heap w a = Some ob" "contents ob = Some old"
    "Brc_header_ptr E h = Inr a" "held E a S = {#h#}" "held_weak E a W = {#}"
proof -
  obtain a ob me where ob: "Brc_header_ptr E h = Inr a" "heap w a = Some ob" "h \<in># held E a S"
    "obj_ok E (held E a S) (held_weak E a W) a ob" "points_to E h a ob"
    "existing_short_id t w = Inr me" "my_short_id t w = Return me w" "at_object E t h w a ob me"
    by (rule strong_at_object [OF ok h, of t])
  have get: "Brc_get_mut E t h w = Return (if known_unique me ob then Some (value_ptr h) else None) w"
    by (simp add: Brc_get_mut_def is_unique_answer [OF ob(8)] Brc_get_mut_unchecked_def)
  obtain old where old: "contents ob = Some old"
    using obj_okD(5) [OF ob(4)] obj_ok_alive(1) [OF ob(4,3)] by auto
  have deref: "Brc_deref E h w = Return old w" using ob(1,2) old by (simp add: Brc_deref_def Brc_object_def)
  show thesis
  proof (cases "known_unique me ob")
    case False
    then show thesis using that(1) get by (simp add: Brc_replace_def)
  next
    case True
    note one = unique_one [OF ob(4,3) True] and W = write_keeps [OF ok ob(2) old ob(1), of v]
    have "Brc_replace E t h v w = Return (Some old) (store a (ob\<lparr>contents := Some v\<rparr>) w)"
      using get True deref W(1) by (simp add: Brc_replace_def)
    then show thesis using that(2) W(2) ob(1,2) old one by blast
  qed
qed

section \<open>Dropping\<close>

text \<open>Handing an object that begins to wait to a queue that is there.\<close>

lemma lib_ok_enqueue:
  assumes ok: "lib_ok E items w S W" and ob: "heap w a = Some ob" "\<not> awaits_merge (strong ob)"
    and ob': "obj_ok E (held E a S') (held_weak E a W) a ob'" "block ob' = block ob" "awaits_merge (strong ob')"
      "queued (shared_of (strong ob'))" "owner_id (biased_of (strong ob')) = Some (info_short_id info)"
    and ptrs: "pointers_ok E S' W" and frame: "\<And>c. c \<noteq> a \<Longrightarrow> held E c S' = held E c S"
    and e: "get_by_id (info_short_id info) w = Inr (Some (i, info))" "queue_strong info \<noteq> 0"
    and q: "items q' = items (queue_inner info) @ [q]" "header_ptr q = a" "drop_info q = erase m offset"
      "typed E m offset ob"
  shows "lib_ok E items (set_entry i (info\<lparr>queue_inner := q', state_flag := QueuedObjects\<rparr>) (store a ob' w)) S' W"
proof -
  let ?info = "info\<lparr>queue_inner := q', state_flag := QueuedObjects\<rparr>"
  let ?w = "set_entry i ?info (store a ob' w)"
  note L = lib_okD [OF ok]
  have ei: "entry w i = Some info" using e(1) by (auto simp: get_by_id_entry)
  have qi: "queue_ok E items (heap w) info" by (rule L(7) [OF ei])
  have live: "0 < queue_strong info" "is_live (state_flag info)" using qi e(2) by (simp_all add: queue_ok_def)
  have settled: "settled (strong ob)" by (rule obj_okD(1) [OF L(5) [OF ob(1)]])
  have not_a: "header_ptr y \<noteq> a" if "waits_in E (heap w) sid y" for sid y
    using waits_in_awaits(1) [OF that _ settled] ob by blast
  then have wait: "waits_in E (heap ?w) sid y" if "waits_in E (heap w) sid y" for sid y
    using that not_a [OF that] by (simp add: waits_in_def)
  have entries: "entry ?w j = (if j = i then Some ?info else entry w j)" for j
    by (simp add: entry_def)
  have ids: "queue_short_id info = info_short_id info" by (rule queue_ids [OF L(1) ei])
  have "runtime_ok ?w"
    by (rule runtime_ok_set_entry [of _ _ info]) (use L(1) ei live in \<open>simp_all add: entry_def\<close>)
  moreover have "table_open ?w"
    by (rule table_open_set_entry [of _ _ info]) (use L(2) ei live in \<open>simp_all add: table_open_def entry_def\<close>)
  moreover have "heap_ok E (heap ?w) S' W"
    using ob'(1) frame L(4) by (simp add: heap_ok_def)
  moreover have "owner_ok items ?w c (strong x)" if x: "heap ?w c = Some x" for c x
  proof (cases "c = a")
    case True
    have "get_by_id (info_short_id info) ?w = Inr (Some (i, ?info))"
      using e(1) entries by (auto simp: get_by_id_entry)
    then show ?thesis using x True ob'(5) q(1,2) by (auto simp: owner_ok_def)
  next
    case False
    then have own: "owner_ok items w c (strong x)" using L(6) x by simp
    have "get_by_id sid ?w = Inr (Some (j, if j = i then ?info else y))" if "get_by_id sid w = Inr (Some (j, y))" for sid j y
      using that entries by (auto simp: get_by_id_entry)
    then show ?thesis
      using own ei q(1) unfolding owner_ok_def
      by (cases "owner_id (biased_of (strong x))") (force simp: get_by_id_entry)+
  qed
  moreover have "queue_ok E items (heap ?w) x" if x: "entry ?w j = Some x" for j x
  proof (cases "j = i")
    case True
    have old: "distinct (map header_ptr (items (queue_inner info)))"
      "\<forall>y \<in> set (items (queue_inner info)). waits_in E (heap w) (info_short_id info) y"
      using qi ids by (simp_all add: queue_ok_def)
    then have "a \<notin> header_ptr ` set (items (queue_inner info))" using not_a by fastforce
    moreover have "waits_in E (heap ?w) (info_short_id info) q"
      using ob'(2,4,5) q(2-4) typed_block [OF ob'(2), of E] by (auto simp: waits_in_def)
    moreover have "\<forall>y \<in> set (items (queue_inner info)). waits_in E (heap ?w) (info_short_id info) y"
      using old(2) wait by blast
    ultimately have "queue_ok E items (heap ?w) ?info"
      using old(1) q(1,2) live ids by (simp add: queue_ok_def)
    then show ?thesis using x True entries by simp
  next
    case False
    then have "queue_ok E items (heap w) x" using x entries L(7) by simp
    then show ?thesis using wait unfolding queue_ok_def by blast
  qed
  ultimately show ?thesis using ptrs by (simp add: lib_ok_def owners_ok_def queues_ok_def)
qed

text \<open>
  The drop of a pointer \<open>h\<close> after the decrement, which left \<open>h'\<close> and the answer \<open>r\<close>: \<open>dropping\<close> is the
  situation that the three outcomes below have in common.
\<close>

definition dropping ::
  "('q, 'v) env \<Rightarrow> ('q \<Rightarrow> QueuedObject list) \<Rightarrow> ('q, 'v) world \<Rightarrow> Brc multiset
    \<Rightarrow> Weak multiset \<Rightarrow> Brc \<Rightarrow> addr \<Rightarrow> 'v object \<Rightarrow> RawBrcHeader \<Rightarrow> shared_decrement \<Rightarrow> bool" where
  "dropping E items w S W h a ob h' r \<longleftrightarrow>
     lib_ok E items w S W \<and> Brc_header_ptr E h = Inr a \<and> heap w a = Some ob \<and> h \<in># held E a S
     \<and> settled h' \<and> logical_count h' = logical_count (strong ob) - 1 \<and> decrement_moves (strong ob) r h'"

lemma droppingD:
  assumes "dropping E items w S W h a ob h' r"
  shows "lib_ok E items w S W" "Brc_header_ptr E h = Inr a" "heap w a = Some ob" "h \<in># held E a S"
    "settled h'" "logical_count h' = logical_count (strong ob) - 1" "decrement_moves (strong ob) r h'"
    "obj_ok E (held E a S) (held_weak E a W) a ob" "pointers_ok E (S - {#h#}) W"
    "\<And>c. c \<noteq> a \<Longrightarrow> held E c (S - {#h#}) = held E c S \<and> held_weak E c W = held_weak E c W"
proof -
  have ok: "lib_ok E items w S W" and ob: "heap w a = Some ob" and a: "Brc_header_ptr E h = Inr a"
    using assms by (simp_all add: dropping_def)
  show "obj_ok E (held E a S) (held_weak E a W) a ob" by (rule lib_okD(5) [OF ok ob])
  show "pointers_ok E (S - {#h#}) W" by (rule pointers_ok_simps(3) [OF lib_okD(3) [OF ok]])
  show "c \<noteq> a \<Longrightarrow> held E c (S - {#h#}) = held E c S \<and> held_weak E c W = held_weak E c W" for c
    using a by simp
qed (use assms in \<open>simp_all add: dropping_def\<close>)

lemma merged_unowned: "settled h \<Longrightarrow> merged (shared_of h) \<Longrightarrow> owner_id (biased_of h) = None"
  by (simp add: settled_def header_ok_def)

text \<open>The count was not the last one.\<close>

lemma drop_counts:
  assumes d: "dropping E items w S W h a ob h' (Shared_done False)"
  shows "lib_ok E items (store a (ob\<lparr>strong := h'\<rparr>) w) (S - {#h#}) W"
  unfolding set_heap_store [symmetric]
proof -
  note D = droppingD [OF d]
  have m: "\<not> is_dead h'" "same_place (strong ob) h' \<or> merged (shared_of h') \<and> \<not> awaits_merge (strong ob)"
    using D(7) by (simp_all add: decrement_moves_def)
  show "lib_ok E items (w\<lparr>heap := (heap w)(a := Some (ob\<lparr>strong := h'\<rparr>))\<rparr>) (S - {#h#}) W"
  proof (rule lib_ok_object [OF D(1,3) _ _ D(9,10)])
    show "slot_ok E (held E a (S - {#h#})) (held_weak E a W) a (Some (ob\<lparr>strong := h'\<rparr>))"
      using obj_ok_lose [OF D(8,4,5,6) m(1)] D(2) by simp
    show "moves ob (Some (ob\<lparr>strong := h'\<rparr>))" using m(2) merged_unowned [OF D(5)] by auto
  qed
qed

text \<open>It was, and the value is taken out, to be destroyed.\<close>

lemma drop_opens:
  assumes d: "dropping E items w S W h a ob h' (Shared_done True)" and x: "weak_points_to E x a ob"
  shows "lib_ok E items (store a (ob\<lparr>strong := h', contents := None\<rparr>) w) (S - {#h#}) (add_mset x W)"
  unfolding set_heap_store [symmetric]
proof -
  note D = droppingD [OF d] and A = obj_ok_alive [OF droppingD(8,4) [OF d]]
  have hx: "WeakReal_header_ptr E x = Inr a" by (rule weak_points_header [OF x])
  have m: "is_dead h'" "same_place (strong ob) h' \<or> merged (shared_of h') \<and> \<not> awaits_merge (strong ob)"
    using D(7) by (simp_all add: decrement_moves_def)
  show "lib_ok E items (w\<lparr>heap := (heap w)(a := Some (ob\<lparr>strong := h', contents := None\<rparr>))\<rparr>) (S - {#h#}) (add_mset x W)"
  proof (rule lib_ok_object [OF D(1,3)])
    have "logical_count h' = 0" by (rule header_ok_dead [OF settled_ok [OF D(5)] m(1)])
    then have "size (held E a S) = 1" using D(6) obj_okD(2) [OF D(8)] by simp
    then obtain y where "held E a S = {#y#}" using size_1_singleton_mset by blast
    then have "held E a (S - {#h#}) = {#}" using D(2,4) by simp
    then show "slot_ok E (held E a (S - {#h#})) (held_weak E a (add_mset x W)) a (Some (ob\<lparr>strong := h', contents := None\<rparr>))"
      using obj_ok_open [OF D(8) A(1) D(5) m(1) x] hx by simp
    have dead: "merged (shared_of h')" using m(1) by (simp add: is_dead_def)
    then have "\<not> awaits_merge (strong ob)" using m(2) by (auto simp: same_place_def awaits_merge_def)
    then show "moves ob (Some (ob\<lparr>strong := h', contents := None\<rparr>))" using merged_unowned [OF D(5) dead] by simp
    show "pointers_ok E (S - {#h#}) (add_mset x W)" by (rule pointers_ok_simps(2) [OF D(9) hx])
  qed (use D(10) hx in simp)
qed

text \<open>The shared count became negative: the owner, if it is still there, gets the object into its queue.\<close>

lemma drop_waits:
  assumes d: "dropping E items w S W h a ob h' Do_queue"
  obtains i x where "get_by_id (info_short_id x) w = Inr (Some (i, x))"
    "owner_id (biased_of h') = Some (info_short_id x)" "awaits_merge h'" "queued (shared_of h')"
    "\<not> awaits_merge (strong ob)" "obj_ok E (held E a (S - {#h#})) (held_weak E a W) a (ob\<lparr>strong := h'\<rparr>)"
proof -
  note D = droppingD [OF d]
  have q: "\<not> awaits_merge (strong ob)" "awaits_merge h'" "queued (shared_of h')"
    "\<not> merged (shared_of (strong ob))" "owner_id (biased_of h') = owner_id (biased_of (strong ob))"
    using D(7) by (simp_all add: decrement_moves_def)
  obtain sid where sid: "owner_id (biased_of (strong ob)) = Some sid"
    using owned_unmerged [OF settled_ok [OF obj_okD(1) [OF D(8)]]] q(4) by blast
  obtain i x where e: "get_by_id sid w = Inr (Some (i, x))" "info_short_id x = sid"
    using lib_okD(6) [OF D(1,3)] sid by (auto simp: owner_ok_def)
  have "\<not> is_dead h'" using q(2) by (simp add: awaits_merge_def is_dead_def)
  then have "obj_ok E (held E a (S - {#h#})) (held_weak E a W) a (ob\<lparr>strong := h'\<rparr>)"
    using obj_ok_lose [OF D(8,4,5,6)] D(2) by simp
  then show thesis using that [of x i] e sid q by simp
qed

lemma drop_hands_over:
  assumes D: "ready E items owns p t n" and ok: "nlib E items owns w (add_mset h S) W" and few: "live w \<le> n"
    and d: "dropping E items w (add_mset h S + inner_strong owns w) (W + inner_weak owns w) h a ob h' Do_queue"
    and q: "header_ptr q = a" "drop_info q = erase m offset" "typed E m offset ob"
    and own: "owner_id (biased_of h') = Some sid"
  defines "R \<equiv> leads E items owns S W t w"
  obtains i x where "get_by_id sid w = Inr (Some (i, x))"
    "safely p R R (queue_object E i q (store a (ob\<lparr>strong := h'\<rparr>) w))"
proof -
  note P = droppingD [OF d] and E = env_okD [OF readyD(1) [OF D]] and N = nlibD [OF ok]
  let ?S = "S + inner_strong owns w" and ?W = "W + inner_weak owns w"
  let ?ob = "ob\<lparr>strong := h'\<rparr>" and ?w = "store a (ob\<lparr>strong := h'\<rparr>) w"
  have S: "add_mset h S + inner_strong owns w - {#h#} = ?S" by simp
  obtain i x where x: "get_by_id (info_short_id x) w = Inr (Some (i, x))"
    "owner_id (biased_of h') = Some (info_short_id x)" "awaits_merge h'" "queued (shared_of h')"
    "\<not> awaits_merge (strong ob)" "obj_ok E (held E a ?S) (held_weak E a ?W) a ?ob"
    using drop_waits [OF d] unfolding S by metis
  have "\<not> merged (shared_of (strong ob)) \<and> owner_id (biased_of h') = owner_id (biased_of (strong ob))"
    using P(7) by (simp add: decrement_moves_def)
  then have s: "settles t w ?w" by (intro settles_store) (use P(3) in simp)
  have e: "entry w i = Some x" "entry ?w i = Some x" using x(1) by (auto simp: get_by_id_entry entry_def)
  have same: "value_at ?w = value_at w" by (rule value_at_same [OF P(3)]) simp
  note Q = lib_okD(7) [OF P(1) e(1)]
  have frame: "held E c ?S = held E c (add_mset h S + inner_strong owns w)" "held_weak E c ?W = held_weak E c ?W"
    if "c \<noteq> a" for c
    using P(10) [OF that] unfolding S by simp_all
  have ptrs: "pointers_ok E ?S ?W" using P(9) unfolding S .
  show thesis
  proof (cases "queue_strong x = 0")
    case False
    then have live: "is_live (state_flag x)" "0 < queue_strong x" using Q by (simp_all add: queue_ok_def)
    then have flag: "(if state_flag x = Live then QueuedObjects else state_flag x) = QueuedObjects"
      by (cases "state_flag x") auto
    have items: "items (queue_push E q (queue_inner x)) = items (queue_inner x) @ [q]"
      using E(2) by (simp add: fifo_def)
    let ?x = "x\<lparr>queue_inner := queue_push E q (queue_inner x), state_flag := QueuedObjects\<rparr>"
    let ?w' = "set_entry i ?x ?w"
    have "lib_ok E items ?w' ?S ?W"
      by (rule lib_ok_enqueue [OF P(1,3) x(5,6) _ _ _ _ ptrs frame(1) x(1) False items q]) (use x(2-4) in simp_all)
    then have "nlib E items owns ?w' S W" by (rule nlib_same) (use same N(2) in simp_all)
    moreover have "settles t w ?w'"
      by (rule settles_trans [OF s settles_set_entry [OF e(2)]]) (use live in \<open>simp add: same_queue_def\<close>)
    ultimately show thesis
      using that x(1,2) own queue_object_live [OF e(2) live(2), of E q] unfolding flag R_def by (simp add: leads_def)
  next
    case True
    then have dead: "is_dead_or_dying (state_flag x)" using Q by (auto simp: queue_ok_def is_dead_or_dying_def)
    have alive: "\<not> is_dead (strong ?ob)" using x(3) by (simp add: awaits_merge_def is_dead_def)
    have m: "mergeable_header (info_short_id x) (strong ?ob)" using awaits_mergeable [OF P(5) x(3,2)] by simp
    note M = merged_header_settled [OF m]
    obtain v where v: "contents ob = Some v" using obj_okD(5) [OF x(6)] alive by auto
    obtain y where y: "weak_points_to E y a ?ob" using typed_weak [OF E(3) obj_okD(9) [OF x(6)], of m offset] q(3) by auto
    have hy: "WeakReal_header_ptr E y = Inr a" by (rule weak_points_header [OF y])
    have twice: "store a z ?w = w\<lparr>heap := (heap w)(a := Some z)\<rparr>" for z by (simp add: store_def)
    have stays: "nlib E items owns (store a (?ob\<lparr>strong := merged_header (strong ?ob)\<rparr>) ?w) S W"
      if some: "logical_count (strong ?ob) \<noteq> 0"
    proof (rule nlib_same [of _ _ _ _ _ w])
      show "lib_ok E items (store a (?ob\<lparr>strong := merged_header (strong ?ob)\<rparr>) ?w) ?S ?W"
        unfolding twice
        by (rule lib_ok_object [OF P(1,3)])
          (use obj_ok_merge [OF x(6) alive m some] M(2) x(5) ptrs frame in simp_all)
    qed (use N(2) value_at_object [OF P(3)] in \<open>auto simp: fun_upd_idem\<close>)
    have dies: "nlib E items owns (store a (?ob\<lparr>strong := merged_header (strong ?ob), contents := None\<rparr>) ?w)
        (S + strongs_of (owns v)) (add_mset y W + weaks_of (owns v))" if zero: "logical_count (strong ?ob) = 0"
    proof (rule nlib_open [where w = w and a = a])
      have none: "held E a ?S = {#}" using obj_okD(2) [OF x(6)] zero by simp
      show "lib_ok E items (store a (?ob\<lparr>strong := merged_header (strong ?ob), contents := None\<rparr>) ?w) ?S (add_mset y ?W)"
        unfolding twice
      proof (rule lib_ok_object [OF P(1,3)])
        show "slot_ok E (held E a ?S) (held_weak E a (add_mset y ?W)) a
            (Some (?ob\<lparr>strong := merged_header (strong ?ob), contents := None\<rparr>))"
          using obj_ok_open [OF x(6) alive M(1) _ y] M(3) zero none hy by simp
        show "pointers_ok E ?S (add_mset y ?W)" by (rule pointers_ok_simps(2) [OF ptrs hy])
      qed (use M(2) x(5) frame hy in simp_all)
    qed (use N(2,3) value_at_object [OF P(3)] v in simp_all)
    have w0: "heap ?w a = Some ?ob" "contents ?ob = Some v" "typed E m offset ?ob" "live ?w \<le> n" "finite (dom (heap ?w))"
      using v q(3) few inner_same(3) [OF same] N(2) by simp_all
    let ?R = "\<lambda>w'. leads E items owns S W t ?w w' \<and> a \<notin> owned w'"
    have "safely p ?R ?R (explicit_merge E (info_short_id x) q ?w)"
      by (rule merge_keeps [OF D w0(1,2,3) m q(1,2) y w0(4,5) stays dies])
    then have "safely p R R (abort_unwind (explicit_merge E (info_short_id x) q ?w))"
      by (intro safely_abort, elim safely_mono) (use leads_trans [OF s] in \<open>auto simp: R_def\<close>)
    moreover have "queue_object E i q ?w = abort_unwind (explicit_merge E (info_short_id x) q ?w)"
      using e(2) True dead by (simp add: queue_object_def upgrade_queue_def with_entry_def)
    ultimately show thesis using that x(1,2) own by simp
  qed
qed

text \<open>
  The drop of one of the pointers: it counts one less, or destroys the object, or hands it to its
  owner, or merges it when the owner is gone.
\<close>

lemma drop_keeps:
  assumes D: "ready E items owns p t n" and ok: "nlib E items owns w (add_mset h S) W" and few: "live w \<le> n"
  defines "R \<equiv> leads E items owns S W t w"
  shows "safely p R R (drop_no_collect_in_place E t h w)"
proof -
  note N = nlibD [OF ok]
  let ?S = "S + inner_strong owns w" and ?W = "W + inner_weak owns w"
  have S: "add_mset h S + inner_strong owns w - {#h#} = ?S" by simp
  obtain a ob me where ob: "Brc_header_ptr E h = Inr a" "heap w a = Some ob"
    "h \<in># held E a (add_mset h S + inner_strong owns w)"
    "obj_ok E (held E a (add_mset h S + inner_strong owns w)) (held_weak E a ?W) a ob" "points_to E h a ob"
    "existing_short_id t w = Inr me" "my_short_id t w = Return me w" "at_object E t h w a ob me"
    by (rule strong_at_object [OF N(1), of h t]) simp_all
  note O = obj_okD [OF ob(4)] and A = obj_ok_alive [OF ob(4,3)]
  obtain r h' where r: "decrement_strong (debug_assertions E) me [] (strong ob) = Inr (r, h')" "settled h'"
    "logical_count h' = logical_count (strong ob) - 1" "decrement_moves (strong ob) r h'"
    using decrement_settled [OF O(1) A(2), of "debug_assertions E" me] by blast
  have d: "dropping E items w (add_mset h S + inner_strong owns w) ?W h a ob h' r"
    using N(1) ob(1-3) r(2-4) by (simp add: dropping_def)
  obtain info where i: "Brc_layout E h = Inr info" "header_ptr_for (value_ptr h) info = a"
    "value_ptr h = int a + value_offset info"
    using points_to_info [OF ob(5)] by blast
  let ?w = "store a (ob\<lparr>strong := h'\<rparr>) w"
  have typed: "typed E (meta h) (value_offset info) ob" using ob(5) i(3) by (simp add: points_to_def)
  have dec: "on_header a (decrement_strong (debug_assertions E) me []) w = Return r ?w"
    using ob(2) r(1) by (simp add: on_header_def)
  note run_def = drop_no_collect_in_place_def decrement_strong_at_def
  have same: "value_at ?w = value_at w" by (rule value_at_same [OF ob(2)]) simp
  have owner: "owner_id (biased_of h') \<in> {None, owner_id (biased_of (strong ob))}"
    using r(4) merged_unowned [OF r(2)] by (auto simp: decrement_moves_def same_place_def split: shared_decrement.splits)
  show ?thesis
  proof (cases r)
    case (Shared_done dead)
    show ?thesis
    proof (cases dead)
      case False
      then have go: "drop_no_collect_in_place E t h w = Return () ?w"
        using ob(7) dec i(1,2) Shared_done by (simp add: run_def Let_def)
      have "dropping E items w (add_mset h S + inner_strong owns w) ?W h a ob h' (Shared_done False)"
        using d Shared_done False by simp
      from drop_counts [OF this] have "nlib E items owns ?w S W"
        unfolding S by (rule nlib_same) (use same N(2) in simp_all)
      moreover have "settles t w ?w" by (rule settles_store) (use ob(2) owner in simp)
      ultimately show ?thesis using go by (simp add: R_def leads_def)
    next
      case True
      have "\<not> is_dead (strong ob)" by (rule A(1))
      then obtain v where v: "contents ob = Some v" using O(5) by auto
      have x: "weak_points_to E (weak_of h) a ob" using O(7) [OF ob(3)] by simp
      let ?dead = "ob\<lparr>strong := h', contents := None\<rparr>"
      have "dropping E items w (add_mset h S + inner_strong owns w) ?W h a ob h' (Shared_done True)"
        using d Shared_done True by simp
      from drop_opens [OF this x] have "lib_ok E items (store a ?dead w) ?S (add_mset (weak_of h) ?W)" unfolding S .
      then have opened: "nlib E items owns (store a ?dead w) (S + strongs_of (owns v)) (add_mset (weak_of h) W + weaks_of (owns v))"
        by (rule nlib_open [where a = a]) (use v N(2,3) value_at_object [OF ob(2)] in simp_all)
      let ?R = "leads E items owns S W t (store a ((ob\<lparr>strong := h'\<rparr>)\<lparr>contents := None\<rparr>) ?w)"
      have run: "safely p ?R ?R (drop_context_dealloc E (meta h) (value_offset info) a ?w)"
        by (rule destroy [OF D, where v = v and x = "weak_of h"])
          (use v typed x few inner_same(3) [OF same] N(2) opened in auto)
      have go: "drop_no_collect_in_place E t h w = drop_context_dealloc E (meta h) (value_offset info) a ?w"
        using ob(7) dec i(1,2) Shared_done True by (simp add: run_def Let_def)
      have "settles t w (store a ?dead w)" by (rule settles_store) (use ob(2) owner in simp)
      from leads_trans [OF this] show ?thesis
        using run unfolding go R_def by (elim safely_mono) simp_all
    qed
  next
    case Do_queue
    let ?q = "\<lparr>header_ptr = a, drop_info = erase (meta h) (value_offset info)\<rparr>"
    obtain sid where sid: "owner_id (biased_of h') = Some sid"
      using drop_waits [OF d [unfolded Do_queue]] by metis
    obtain i' x where x: "get_by_id sid w = Inr (Some (i', x))" "safely p R R (queue_object E i' ?q ?w)"
      unfolding R_def by (rule drop_hands_over [OF D ok few d [unfolded Do_queue] _ _ typed sid, of ?q]) simp_all
    have "get_by_id sid ?w = Inr (Some (i', x))" using x(1) by (simp add: get_by_id_entry entry_def)
    then have "drop_no_collect_in_place E t h w = bind_outcome (queue_object E i' ?q ?w) (\<lambda>_. Return ())"
      using ob(7) dec i(1,2) Do_queue sid by (simp add: run_def Let_def decrement_shared_do_queue_def bind_outcome_assoc)
    then show ?thesis by (simp add: safely_bind [OF x(2)])
  qed
qed

end
