(* ===== verification/Client_Glue.thy ===== *)
theory Client_Glue
  imports Client_Steps
begin

text \<open>
  The drop of a \<open>Brc\<close> as a whole, the drop of the pointers in a value, and from them the contract of
  the destructors: with \<open>n\<close> levels of destructors within destructors, every value is destroyed as
  \<open>ready\<close> asks for while there are not more than \<open>n\<close> values, by induction on \<open>n\<close>. A destructor destroys
  other values only after its own has gone, so the depth never exceeds the number of values.
\<close>

section \<open>Dropping pointers\<close>

lemma drop_call:
  assumes D: "ready E items owns p t n" and ok: "nlib E items owns w (add_mset h S) W" and few: "live w \<le> n"
  defines "R \<equiv> leads E items owns S W t w"
  shows "safely p R R (Brc_drop E t h w)"
  using D ok few
proof (cases rule: collected_first [where c = "no_implicit_collect_drop E"])
  case (collected w1)
  have "safely p (leads E items owns S W t w1) (leads E items owns S W t w1) (drop_no_collect_in_place E t h w1)"
    by (rule drop_keeps [OF D collected(2,4)])
  then have "safely p R R (drop_no_collect_in_place E t h w1)"
    by (rule safely_mono) (use leads_trans [OF collected(3)] in \<open>simp_all add: R_def\<close>)
  then show ?thesis using collected(1) by (simp add: Brc_drop_def collect_if_def)
next
  case aborts
  then show ?thesis by (simp add: Brc_drop_def collect_if_def)
qed

text \<open>\<open>U\<close> is the environment while a panic unwinds the stack: what has been begun is dropped there.\<close>

lemma drop_fields_keeps:
  fixes E :: "('q, 'v) env"
  assumes D: "ready E items owns p t n" "ready U items owns p t n" and U: "nlib U = nlib E"
    and ok: "nlib E items owns w (S + strongs_of ps) (W + weaks_of ps)" and few: "live w \<le> n"
  defines "R \<equiv> \<lambda>w. leads E items owns S W t w"
  shows "safely p (R w) (R w) (drop_fields E U t ps w)"
proof -
  have "safely p (leads F items owns S W t w) (leads F items owns S W t w) (drop_fields F U t ps w)"
    if "ready F items owns p t n" "nlib F = nlib E" "nlib E items owns w (S + strongs_of ps) (W + weaks_of ps)" "live w \<le> n"
    for F and w :: "('q, 'v) world"
    using that
  proof (induction ps arbitrary: F w)
    case (Cons q ps)
    let ?L = "\<lambda>w1. leads F items owns (S + strongs_of ps) (W + weaks_of ps) t w w1"
    have rest: "safely p (leads F items owns S W t w) (leads F items owns S W t w) (drop_fields G U t ps w1)"
      if w1: "?L w1" and G: "ready G items owns p t n" "nlib G = nlib E" for G w1
    proof -
      have n: "nlib E items owns w1 (S + strongs_of ps) (W + weaks_of ps)" "settles t w w1"
        using w1 Cons.prems(2) by (simp_all add: leads_def)
      have "live w1 \<le> n" using settles_live [OF n(2) nlibD(3) [OF Cons.prems(3)]] Cons.prems(4) by simp
      from Cons.IH [OF G n(1) this] show ?thesis
        by (rule safely_mono) (use settles_trans [OF n(2)] G(2) Cons.prems(2) in \<open>auto simp: leads_def\<close>)
    qed
    have both: "safely p (leads F items owns S W t w) (leads F items owns S W t w)
        (then_drop r (drop_fields F U t ps) (drop_fields U U t ps))" if "safely p ?L ?L r" for r :: "(('q, 'v) world, unit) outcome"
      by (rule safely_then_drop [OF that]) (use rest Cons.prems(1,2) D(2) U in simp_all)
    show ?case
    proof (cases q)
      case (Inl b)
      have "safely p ?L ?L (Brc_drop F t b w)"
        by (rule drop_call [OF Cons.prems(1) _ Cons.prems(4)]) (use Cons.prems(2,3) Inl in simp)
      then show ?thesis using both Inl by simp
    next
      case (Inr x)
      have "nlib F items owns w (S + strongs_of ps) (add_mset x (W + weaks_of ps))"
        using Cons.prems(2,3) Inr by simp
      then obtain w1 where "Weak_drop F x w = Return () w1" "nlib F items owns w1 (S + strongs_of ps) (W + weaks_of ps)"
        "settles t w w1"
        using weak_drop_keeps by metis
      then have "safely p ?L ?L (Weak_drop F x w)" by (simp add: leads_def)
      then show ?thesis using both Inr by simp
    qed
  qed (simp add: leads_def)
  then show ?thesis unfolding R_def using assms(1,4,5) by blast
qed

section \<open>Destructors\<close>

text \<open>The invariant does not depend on the destructor, nor on who is panicking.\<close>

definition same_layouts :: "('q, 'v) env \<Rightarrow> ('q, 'v) env \<Rightarrow> bool" where
  "same_layouts E E' \<longleftrightarrow> allocator_layout E' = allocator_layout E \<and> layout_for E' = layout_for E"

lemma same_layouts_facts:
  assumes "same_layouts E E'"
  shows "typed E' = typed E" "weak_points_to E' = weak_points_to E" "Brc_header_ptr E' = Brc_header_ptr E"
    "WeakReal_header_ptr E' = WeakReal_header_ptr E"
  using assms
  by (simp_all add: fun_eq_iff same_layouts_def typed_def weak_points_to_def Brc_header_ptr_def Brc_layout_def
      WeakReal_header_ptr_def WeakReal_layout_info_def)

lemma same_layouts_nlib:
  assumes "same_layouts E E'"
  shows "nlib E' = nlib E"
proof -
  note F = same_layouts_facts [OF assms]
  have "obj_ok E' = obj_ok E" by (simp add: fun_eq_iff obj_ok_def F)
  then have "slot_ok E' = slot_ok E" by (intro ext) (simp add: slot_ok_def split: option.split)
  moreover have "held E' = held E" "held_weak E' = held_weak E" by (simp_all add: fun_eq_iff held_def held_weak_def F)
  ultimately have "heap_ok E' = heap_ok E" by (simp add: fun_eq_iff heap_ok_def)
  moreover have "waits_in E' = waits_in E" unfolding waits_in_def [abs_def] F by (rule refl)
  then have "queue_ok E' = queue_ok E" by (intro ext) (simp add: queue_ok_def)
  moreover have "pointers_ok E' = pointers_ok E" by (simp add: fun_eq_iff pointers_ok_def F)
  ultimately show ?thesis by (simp add: fun_eq_iff nlib_def lib_ok_def queues_ok_def)
qed

lemma with_glue_fields [simp]:
  "same_layouts E (with_glue n E t panics owns)" "env_ok (with_glue n E t panics owns) items = env_ok E items"
  "no_implicit_collect_clone (with_glue n E t panics owns) = no_implicit_collect_clone E"
  "allocator_layout (with_glue n E t panics owns) = allocator_layout E" "layout_for (with_glue n E t panics owns) = layout_for E"
  "panic_unwind (with_glue n E t panics owns) = panic_unwind E"
  by (cases n; simp add: same_layouts_def env_ok_def fifo_def allocator_ok_def indices_fresh_def)+

lemma unwinding_fields [simp]:
  "same_layouts E (unwinding t E)" "env_ok (unwinding t E) items = env_ok E items"
  by (simp_all add: unwinding_def same_layouts_def env_ok_def fifo_def allocator_ok_def indices_fresh_def)

lemma nlib_glue [simp]:
  "nlib (with_glue n E t panics owns) = nlib E" "nlib (unwinding t E) = nlib E"
  by (simp_all add: same_layouts_nlib [of E])

lemma leads_glue: "leads (with_glue n E t panics owns') = leads E" "leads (unwinding t E) = leads E"
  by (simp_all add: fun_eq_iff leads_def del: with_glue.simps)

lemma header_glue [simp]:
  "Brc_header_ptr (with_glue n E t panics owns) = Brc_header_ptr E"
  "WeakReal_header_ptr (with_glue n E t panics owns) = WeakReal_header_ptr E"
  by (rule same_layouts_facts; simp)+

lemma unwinding_twice [simp]: "unwinding t (unwinding t E) = unwinding t E"
  by (simp add: unwinding_def)

lemma glue_ready:
  assumes "env_ok E items" "\<And>v. panics v \<Longrightarrow> p"
  shows "ready (with_glue n E t panics owns) items owns p t n"
  using assms(1)
proof (induction n arbitrary: E)
  case 0
  then show ?case by (simp add: ready_def del: with_glue.simps)
next
  case (Suc n)
  let ?I = "with_glue n E t panics owns" and ?U = "with_glue n (unwinding t E) t panics owns"
  have D: "ready ?I items owns p t n" "ready ?U items owns p t n" using Suc.IH Suc.prems by simp_all
  have "safely p (leads (with_glue (Suc n) E t panics owns) items owns S W t w)
      (leads (with_glue (Suc n) E t panics owns) items owns S W t w) (drop_in_place (with_glue (Suc n) E t panics owns) v w)"
    if w: "nlib E items owns w (S + strongs_of (owns v)) (W + weaks_of (owns v))" "live w < Suc n" for w S W v
  proof -
    have user: "safely p ((=) w) ((=) w) (run_user_drop E panics v w)" using assms(2) by (simp add: run_user_drop_def)
    have few: "live w \<le> n" using w(2) by simp
    have f: "safely p (leads E items owns S W t w) (leads E items owns S W t w) (drop_fields ?I ?U t (owns v) w)"
      using drop_fields_keeps [OF D _ _ few] w(1) unfolding leads_glue by simp
    have g: "safely p (leads E items owns S W t w) (leads E items owns S W t w) (drop_fields ?U ?U t (owns v) w)"
      using drop_fields_keeps [OF D(2,2) _ _ few] w(1) unfolding leads_glue by simp
    have "safely p (leads E items owns S W t w) (leads E items owns S W t w)
        (then_drop (run_user_drop E panics v w) (drop_fields ?I ?U t (owns v)) (drop_fields ?U ?U t (owns v)))"
      by (rule safely_then_drop [OF user]) (use f g in auto)
    then show ?thesis unfolding leads_glue by (simp add: Let_def)
  qed
  then show ?case using Suc.prems by (simp add: ready_def del: with_glue.simps)
qed

end
