(* ===== verification/Client_New.thy ===== *)
theory Client_New
  imports Client_Glue
begin

text \<open>
  The constructors, which may collect first, and \<open>make_mut\<close>, which is a constructor and a drop when the
  object is shared, keep the invariant. A new object is one that nothing points to yet.
\<close>

section \<open>Construction\<close>

lemma lib_ok_new:
  assumes ok: "lib_ok E items w S W" and free: "heap w a = None"
    and ob: "obj_ok E {#h#} {#} a ob" "\<not> queued (shared_of (strong ob))" and h: "Brc_header_ptr E (h) = Inr a"
    and own: "owner_ok items w a (strong ob)"
  shows "lib_ok E items (store a ob w) (add_mset h S) W"
proof -
  let ?w = "store a ob w"
  note L = lib_okD [OF ok]
  have none: "held E a S = {#}" "held_weak E a W = {#}" using L(4) [of a] free by simp_all
  have "slot_ok E (held E c (add_mset h S)) (held_weak E c W) c (heap ?w c)" for c
    using L(4) [of c] none ob(1) h by (cases "c = a") simp_all
  then have "heap_ok E (heap ?w) (add_mset h S) W" by (simp add: heap_ok_def)
  moreover have "owner_ok items ?w c (strong x)" if "heap ?w c = Some x" for c x
    using that L(6) own owner_ok_frame [of ?w w] by (cases "c = a") simp_all
  moreover have "queue_ok E items (heap ?w) x" if "entry ?w i = Some x" for i x
  proof -
    have "waits_in E (heap ?w) sid q" if "waits_in E (heap w) sid q" for sid q
      using that free by (cases "header_ptr q = a") (auto simp: waits_in_def)
    then show ?thesis using that L(7) [of i x] unfolding queue_ok_def by (auto simp: entry_def)
  qed
  moreover have "table_open ?w" using L(2) by (simp add: table_open_def)
  ultimately show ?thesis
    using L(1) pointers_ok_simps(1) [OF L(3) h] by (simp add: lib_ok_def owners_ok_def queues_ok_def)
qed

text \<open>A new object, as \<open>alloc_with_in\<close> builds it.\<close>

lemma new_obj_ok:
  fixes v :: 'v
  assumes E: "allocator_ok E" and info: "LayoutInfo_new (allocator_layout E) (layout_for E m) = Some info"
    and a: "align_of (full_layout info) dvd a" and id: "\<And>s. this_id = Some s \<Longrightarrow> short_id_ok s"
  defines "ob \<equiv> \<lparr>strong = init_for this_id, weak_count = 1, contents = Some v, block = full_layout info\<rparr>"
    and "b \<equiv> Brc_from_raw (int a + value_offset info) m"
  shows "obj_ok E {#b#} {#} a ob" "Brc_header_ptr E b = Inr a"
proof -
  have b: "weak_of b = Weak_from_raw (int a + value_offset info) m"
    by (simp add: weak_of_def Weak_from_raw_def Brc_from_raw_def b_def)
  have p: "weak_points_to E (weak_of b) a ob"
    unfolding b by (rule typed_weak [OF E]) (use a info in \<open>simp_all add: ob_def typed_def\<close>)
  then show "Brc_header_ptr E b = Inr a" using header_of_points [OF weak_of_points] by blast
  show "obj_ok E {#b#} {#} a ob"
    using p new_settled(1) [of this_id] init_for_counts_one(2,4) [of this_id] id a
    by (simp add: obj_ok_def ob_def)
qed

text \<open>
  \<open>alloc_with_in\<close> up to the call of the closure: it collects, computes the layout, allocates, and asks for
  the id of the thread.
\<close>

lemma alloc_keeps:
  assumes D: "ready E items owns p t n" and ok: "nlib E items owns w S W" and few: "live w \<le> n"
  obtains (too_large) w' where "\<And>func. alloc_with_in E pol t (layout_for E m) m func w = Unwind w'"
      "nlib E items owns w' S W" "settles t w w'" "LayoutInfo_new (allocator_layout E) (layout_for E m) = None"
  | (no_memory) "\<And>func. alloc_with_in E pol t (layout_for E m) m func w = Halt Alloc_error"
  | (aborts) p "\<And>func. alloc_with_in E pol t (layout_for E m) m func w = Halt Nounwind_abort"
  | (allocated) info a this_id w' where "LayoutInfo_new (allocator_layout E) (layout_for E m) = Some info"
      "heap w' a = None" "align_of (full_layout info) dvd a" "nlib E items owns w' S W" "settles t w w'"
      "\<And>s. this_id = Some s \<Longrightarrow> short_id_ok s \<and>
         (\<exists>i info. get_by_id s w' = Inr (Some (i, info)) \<and> info_short_id info = s)"
      "\<And>func. alloc_with_in E pol t (layout_for E m) m func w =
         (case func (store a \<lparr>strong = init_for this_id, weak_count = 1, contents = None, block = full_layout info\<rparr> w') of
            Return v w \<Rightarrow> bind_outcome (load a w) (\<lambda>ob w.
              Return (Brc_from_raw (int a + value_offset info) m) (store a (ob\<lparr>contents := Some v\<rparr>) w))
          | Unwind w \<Rightarrow>
              if may_unwind E pol
              then bind_outcome (deallocate a (full_layout info) w) (\<lambda>_ w. Unwind w)
              else Unwind w
          | Halt e \<Rightarrow> Halt e)"
proof -
  note E = readyD(1) [OF D]
  let ?c = "\<lambda>w. if no_implicit_collect E then Return () w else collect_implicit E t w"
  from D ok few show thesis
  proof (cases rule: collected_first [where c = "no_implicit_collect E"])
    case aborts
    then have "?c w = Halt Nounwind_abort" by (simp add: collect_if_def)
    then show thesis using that(3) aborts(1) by (simp add: alloc_with_in_def)
  next
    case w0: (collected w0)
    have c: "(if no_implicit_collect E then Return () w else collect_implicit E t w) = Return () w0"
      using w0(1) by (simp add: collect_if_def)
    let ?info = "LayoutInfo_new (allocator_layout E) (layout_for E m)"
    show thesis
    proof (cases ?info)
      case None
      then show thesis using too_large [of w0] w0(2,3) c by (simp add: alloc_with_in_def LayoutInfo_new_or_panic_def)
    next
      case info: (Some info)
      show thesis
      proof (cases "allocate E (full_layout info) w0")
        case None
        then show thesis using no_memory info c by (simp add: alloc_with_in_def LayoutInfo_new_or_panic_def)
      next
        case a: (Some a)
        note N = nlibD [OF w0(2)]
        have free: "heap w0 a = None" "align_of (full_layout info) dvd a"
          using env_okD(3) [OF E] a by (simp_all add: allocator_ok_def)
        obtain this_id w1 where i: "init (queue_new E) (next_index E (threads w0)) t w0 = Inr (init_for this_id, w1)"
          "lib_ok E items w1 (S + inner_strong owns w0) (W + inner_weak owns w0)" "heap w1 = heap w0" "settles t w0 w1"
          "\<And>s. this_id = Some s \<Longrightarrow> short_id_ok s \<and>
             (\<exists>i info. get_by_id s w1 = Inr (Some (i, info)) \<and> info_short_id info = s)"
          using init_keeps [OF E N(1), of t] by blast
        have ok1: "nlib E items owns w1 S W"
          by (rule nlib_same [OF i(2) value_at_heap [OF i(3)]]) (use N(2) i(3) in simp)
        have "heap w1 a = None" using i(3) free(1) by simp
        from allocated [OF info this free(2) ok1 settles_trans [OF w0(3) i(4)] i(5)] show thesis
          using a info unfolding alloc_with_in_def c by (simp add: LayoutInfo_new_or_panic_def i(1) Let_def)
      qed
    qed
  qed
qed

text \<open>The world got a new object with the value \<open>v\<close>; otherwise it only settled.\<close>

definition created ::
  "('q, 'v) env \<Rightarrow> ('v \<Rightarrow> field list) \<Rightarrow> thread \<Rightarrow> Brc \<Rightarrow> addr \<Rightarrow> 'v \<Rightarrow> ('q, 'v) world \<Rightarrow> ('q, 'v) world \<Rightarrow> bool" where
  "created E owns t b a v w w' \<longleftrightarrow> Brc_header_ptr E b = Inr a
     \<and> (\<exists>w1. settles t w w1 \<and> value_at w1 a = None \<and> value_at w' = (value_at w1)(a \<mapsto> v)
          \<and> threads w' = threads w1)
     \<and> held E a (inner_strong owns w') = {#} \<and> held_weak E a (inner_weak owns w') = {#}"

lemma held_plus [simp]:
  "held E a (S + T) = held E a S + held E a T" "held_weak E a (W + U) = held_weak E a W + held_weak E a U"
  by (simp_all add: held_def held_weak_def)

lemma new_keeps:
  assumes D: "ready E items owns p t n" and ok: "nlib E items owns w (S + strongs_of (owns v)) (W + weaks_of (owns v))"
    and few: "live w \<le> n"
  obtains b a w' where "alloc_with_in E pol t (layout_for E m) m (Return v) w = Return b w'"
      "nlib E items owns w' (add_mset b S) W" "created E owns t b a v w w'" "held E a S = {#}" "live w' \<le> Suc (live w)"
  | w' where "alloc_with_in E pol t (layout_for E m) m (Return v) w = Unwind w'"
      "nlib E items owns w' (S + strongs_of (owns v)) (W + weaks_of (owns v))" "settles t w w'"
      "LayoutInfo_new (allocator_layout E) (layout_for E m) = None"
  | "alloc_with_in E pol t (layout_for E m) m (Return v) w = Halt Alloc_error"
  | p "alloc_with_in E pol t (layout_for E m) m (Return v) w = Halt Nounwind_abort"
  using D ok few
proof (cases rule: alloc_keeps [where pol = pol and m = m])
  case (too_large w')
  then show thesis using that(2) by blast
next
  case no_memory
  then show thesis using that(3) by blast
next
  case aborts
  then show thesis using that(4) by blast
next
  case (allocated info a this_id w1)
  note N1 = nlibD [OF allocated(4)]
  let ?ob = "\<lparr>strong = init_for this_id, weak_count = 1, contents = Some v, block = full_layout info\<rparr>"
  let ?b = "Brc_from_raw (int a + value_offset info) m" and ?w = "store a \<lparr>strong = init_for this_id, weak_count = 1,
    contents = Some v, block = full_layout info\<rparr> w1"
  have id: "\<And>s. this_id = Some s \<Longrightarrow> short_id_ok s" using allocated(6) by blast
  have run: "alloc_with_in E pol t (layout_for E m) m (Return v) w = Return ?b ?w"
    unfolding allocated(7) by simp
  note N = new_obj_ok [OF env_okD(3) [OF readyD(1) [OF D]] allocated(1,3), of this_id] and H = new_settled [of this_id]
  have none: "value_at w1 a = None" using allocated(2) by (simp add: value_at_def)
  have vals: "value_at ?w = (value_at w1)(a \<mapsto> v)" by simp
  note I = inner_upd(1,2) [OF N1(3) vals none, of owns] inner_upd(3) [OF N1(3) vals none]
  have "lib_ok E items ?w (add_mset ?b (S + strongs_of (owns v) + inner_strong owns w1))
      (W + weaks_of (owns v) + inner_weak owns w1)"
  proof (rule lib_ok_new [OF N1(1) allocated(2)])
    show "obj_ok E {#?b#} {#} a ?ob" using N(1) id by blast
    show "Brc_header_ptr E ?b = Inr a" using N(2) id by simp
    show "\<not> queued (shared_of (strong ?ob))" using H(3) id by simp
    show "owner_ok items w1 a (strong ?ob)"
      using H(2,3) id allocated(6) by (cases this_id) (simp_all add: owner_ok_def)
  qed
  then have nlib: "nlib E items owns ?w (add_mset ?b S) W"
    using N1(2) I by (simp add: nlib_def ac_simps)
  have "held E a (S + strongs_of (owns v) + inner_strong owns w1) = {#}"
    "held_weak E a (W + weaks_of (owns v) + inner_weak owns w1) = {#}"
    using lib_okD(4) [OF N1(1), of a] allocated(2) by simp_all
  then have alone: "held E a (inner_strong owns ?w) = {#}" "held_weak E a (inner_weak owns ?w) = {#}" "held E a S = {#}"
    using I(1,2) by simp_all
  have "Brc_header_ptr E ?b = Inr a" using N(2) id by blast
  then have "created E owns t ?b a v w ?w"
    unfolding created_def using allocated(5) none vals alone(1,2) by (auto intro!: exI [of _ w1])
  moreover have "live ?w \<le> Suc (live w)"
    using I(3) settles_live [OF allocated(5) nlibD(3) [OF ok]] by simp
  ultimately show thesis using that(1) run nlib alone(3) by blast
qed

text \<open>When the closure panics, the memory is given back.\<close>

lemma new_panics_keeps:
  assumes D: "ready E items owns p t n" and ok: "nlib E items owns w S W" and few: "live w \<le> n" and unwind: "panic_unwind E"
  obtains w' where "alloc_with_in E MayPanic t (layout_for E m) m Unwind w = Unwind w'" "nlib E items owns w' S W"
      "settles t w w'"
  | "alloc_with_in E MayPanic t (layout_for E m) m Unwind w = Halt Alloc_error"
  | p "alloc_with_in E MayPanic t (layout_for E m) m Unwind w = Halt Nounwind_abort"
  using D ok few
proof (cases rule: alloc_keeps [where pol = MayPanic and m = m])
  case (too_large w')
  then show thesis using that(1) by blast
next
  case no_memory
  then show thesis using that(2) by blast
next
  case aborts
  then show thesis using that(3) by blast
next
  case (allocated info a this_id w1)
  have "w1\<lparr>heap := (heap w1)(a := None)\<rparr> = w1" using allocated(2) by (simp add: fun_upd_idem)
  then have "alloc_with_in E MayPanic t (layout_for E m) m Unwind w = Unwind w1"
    unfolding allocated(7) using unwind by (simp add: deallocate_def store_def)
  then show thesis using that(1) allocated(4,5) by blast
qed

lemma in_held: "h \<in># held E a S \<Longrightarrow> h \<in># S"
  by (simp add: held_def)

text \<open>\<open>make_mut\<close>: the pointer itself when it is known to be the only one, else a new object for it.\<close>

lemma make_mut_keeps:
  assumes D: "ready E items owns p t n" and few: "live w < n" and thin: "meta h = Thin"
    and ok: "nlib E items owns w (add_mset h (S + strongs_of (owns c))) (W + weaks_of (owns c))"
  obtains "Brc_make_mut E t (\<lambda>_. Return c) h w = Return h w"
  | b a w1 where "make_mut_copy E t (\<lambda>_. Return c) h w = Return (Some b) w1" "b \<noteq> h"
      "nlib E items owns w1 (add_mset b (add_mset h S)) W" "created E owns t b a c w w1"
      "safely p (leads E items owns (add_mset b S) W t w1) (leads E items owns (add_mset b S) W t w1) (Brc_drop E t h w1)"
  | "Brc_make_mut E t (\<lambda>_. Return c) h w = Halt Alloc_error"
  | p "Brc_make_mut E t (\<lambda>_. Return c) h w = Halt Nounwind_abort"
proof -
  obtain a ob me where ob: "heap w a = Some ob" "points_to E h a ob" "Brc_header_ptr E h = Inr a"
    "h \<in># held E a (add_mset h (S + strongs_of (owns c)) + inner_strong owns w)"
    "obj_ok E (held E a (add_mset h (S + strongs_of (owns c)) + inner_strong owns w))
       (held_weak E a (W + weaks_of (owns c) + inner_weak owns w)) a ob" "at_object E t h w a ob me"
    by (rule strong_at_object [OF nlibD(1) [OF ok], of h t]) simp_all
  show thesis
  proof (cases "known_unique me ob")
    case True
    then show thesis using that(1) by (simp add: make_mut_unique [OF ob(6)])
  next
    case False
    have fits: "LayoutInfo_new (allocator_layout E) (layout_for E Thin) \<noteq> None"
      using ob(2) thin by (auto simp: points_to_def typed_def split: option.splits)
    obtain x where x: "Brc_deref E h w = Return x w"
      using obj_okD(5) [OF ob(5)] obj_ok_alive(1) [OF ob(5,4)] ob(1,3) by (auto simp: Brc_deref_def Brc_object_def)
    let ?new = "alloc_with_in E MayPanic t (layout_for E Thin) Thin (Return c) w"
    have copy: "make_mut_copy E t (\<lambda>_. Return c) h w = bind_outcome ?new (\<lambda>b'. Return (Some b'))"
      using False x by (simp add: make_mut_copy_def is_unique_answer [OF ob(6)] Brc_new_with_in_def)
    have ok': "nlib E items owns w (add_mset h S + strongs_of (owns c)) (W + weaks_of (owns c))" using ok by simp
    show thesis
    proof (rule new_keeps [OF D ok', of MayPanic Thin])
      fix b a' w1
      assume new: "?new = Return b w1" "nlib E items owns w1 (add_mset b (add_mset h S)) W"
        "created E owns t b a' c w w1" "held E a' (add_mset h S) = {#}" "live w1 \<le> Suc (live w)"
      have ne: "b \<noteq> h" using new(3,4) by (auto simp: created_def split: if_splits)
      have "nlib E items owns w1 (add_mset h (add_mset b S)) W" using new(2) by (simp add: add_mset_commute)
      from drop_call [OF D this] have "safely p (leads E items owns (add_mset b S) W t w1)
        (leads E items owns (add_mset b S) W t w1) (Brc_drop E t h w1)" using new(5) few by simp
      then show thesis using that(2) ne copy new(1-3) by simp
    next
      fix w1
      assume "LayoutInfo_new (allocator_layout E) (layout_for E Thin) = None"
      then show thesis using fits by simp
    next
      assume "?new = Halt Alloc_error"
      then show thesis using that(3) copy by (simp add: Brc_make_mut_def)
    next
      assume p "?new = Halt Nounwind_abort"
      then show thesis using that(4) copy by (simp add: Brc_make_mut_def)
    qed (use few in simp)
  qed
qed

text \<open>When the clone panics, all is as it was.\<close>

lemma make_mut_panics_keeps:
  assumes D: "ready E items owns p t n" and few: "live w \<le> n" and unwind: "panic_unwind E"
    and ok: "nlib E items owns w S W" and h: "h \<in># S"
  obtains "Brc_make_mut E t (\<lambda>_. Unwind) h w = Return h w"
  | w' where "Brc_make_mut E t (\<lambda>_. Unwind) h w = Unwind w'" "nlib E items owns w' S W" "settles t w w'"
  | "Brc_make_mut E t (\<lambda>_. Unwind) h w = Halt Alloc_error"
  | p "Brc_make_mut E t (\<lambda>_. Unwind) h w = Halt Nounwind_abort"
proof -
  obtain a ob me where ob: "heap w a = Some ob" "Brc_header_ptr E h = Inr a" "h \<in># held E a (S + inner_strong owns w)"
    "obj_ok E (held E a (S + inner_strong owns w)) (held_weak E a (W + inner_weak owns w)) a ob" "at_object E t h w a ob me"
    by (rule strong_at_object [OF nlibD(1) [OF ok], of h t]) (use h in simp_all)
  show thesis
  proof (cases "known_unique me ob")
    case True
    then show thesis using that(1) by (simp add: make_mut_unique [OF ob(5)])
  next
    case False
    obtain x where x: "Brc_deref E h w = Return x w"
      using obj_okD(5) [OF ob(4)] obj_ok_alive(1) [OF ob(4,3)] ob(1,2) by (auto simp: Brc_deref_def Brc_object_def)
    have run: "Brc_make_mut E t (\<lambda>_. Unwind) h w
        = bind_outcome (bind_outcome (alloc_with_in E MayPanic t (layout_for E Thin) Thin Unwind w) (\<lambda>b'. Return (Some b')))
            (\<lambda>copy w. case copy of None \<Rightarrow> Return h w | Some b' \<Rightarrow> bind_outcome (Brc_drop E t h w) (\<lambda>_ w. Return b' w))"
      using False x by (simp add: Brc_make_mut_def make_mut_copy_def is_unique_answer [OF ob(5)] Brc_new_with_in_def)
    show thesis
      by (rule new_panics_keeps [OF D ok few unwind, where m = Thin]) (use that run in simp_all)
  qed
qed

end
