(* ===== verification/Client_Safety.thy ===== *)
theory Client_Safety
  imports Client_New
begin

text \<open>
  The invariant of a program that uses the library, and that every call keeps it: all counts are right
  with the pointers in values counted, nothing is under way between calls, the values are those that
  the program remembers, and no value owns a pointer that leads back to it. The last holds because
  a value gets its pointers when nothing else points to it: when it is created, or when \<open>get_mut\<close> gives
  access.
\<close>

section \<open>Who points to whom\<close>

definition points_in :: "('q, 'v) env \<Rightarrow> ('v \<Rightarrow> field list) \<Rightarrow> ('q, 'v) world \<Rightarrow> (addr \<times> addr) set" where
  "points_in E owns w = {(a, c). \<exists>v. value_at w a = Some v \<and>
     ((\<exists>b \<in># strongs_of (owns v). Brc_header_ptr E b = Inr c)
      \<or> (\<exists>x \<in># weaks_of (owns v). WeakReal_header_ptr E x = Inr c))}"

lemma inner_member:
  fixes w :: "('q, 'v) world"
  assumes "finite (dom (value_at w))" "value_at w a = Some v"
  shows "strongs_of (owns v) \<subseteq># inner_strong owns w" "weaks_of (owns v) \<subseteq># inner_weak owns w"
  using inner_none(1,2) [where w = w and w' = "w\<lparr>heap := (heap w)(a := None)\<rparr>" and a = a and v = v and owns = owns]
    assms by simp_all

text \<open>New edges out of an address that no edge leads to do not close a cycle.\<close>

lemma acyclic_source:
  assumes "acyclic r" and new: "\<And>x y. (x, y) \<in> r' \<Longrightarrow> x = a \<or> (x, y) \<in> r" and none: "\<And>x. (x, a) \<notin> r'"
  shows "acyclic r'"
proof -
  have "y \<noteq> a \<and> (x \<noteq> a \<longrightarrow> (x, y) \<in> r\<^sup>+)" if "(x, y) \<in> r'\<^sup>+" for x y
    using that
  proof induction
    case (base y)
    then show ?case using new none by blast
  next
    case (step y z)
    then have "(y, z) \<in> r" "z \<noteq> a" using new none by blast+
    then show ?case using step.IH by (auto intro: trancl_into_trancl)
  qed
  then show ?thesis using assms(1) unfolding acyclic_def by blast
qed

section \<open>The invariant\<close>

definition fine ::
  "('q, 'v) env \<Rightarrow> ('v \<Rightarrow> field list) \<Rightarrow> (addr \<Rightarrow> 'v option) \<Rightarrow> ('q, 'v) world \<Rightarrow> bool" where
  "fine E owns mem w \<longleftrightarrow> quiet w \<and> (\<forall>a v. value_at w a = Some v \<longrightarrow> mem a = Some v) \<and> acyclic (points_in E owns w)"

lemma fine_fades:
  assumes ok: "fine E owns mem w" and q: "quiet w'" and f: "\<And>a. fades (heap w a) (heap w' a)"
  shows "fine E owns mem w'"
proof -
  have v: "value_at w a = Some v" if "value_at w' a = Some v" for a v
    using f [of a] that by (cases "heap w' a") (auto simp: value_at_def)
  then have "points_in E owns w' \<subseteq> points_in E owns w" unfolding points_in_def by blast
  then show ?thesis using ok q v acyclic_subset by (auto simp: fine_def)
qed

lemma fine_settles: "fine E owns mem w \<Longrightarrow> settles t w w' \<Longrightarrow> fine E owns mem w'"
  using fine_fades [of E owns mem w w'] settles_quiet [of t w w'] settlesD(1) [of t w w']
  by (simp add: fine_def)

lemma fine_put:
  assumes ok: "fine E owns mem w" and q: "quiet w'" and v: "value_at w' = (value_at w)(a \<mapsto> v)"
    and fin: "finite (dom (value_at w'))"
    and none: "held E a (inner_strong owns w') = {#}" "held_weak E a (inner_weak owns w') = {#}"
  shows "fine E owns (mem(a \<mapsto> v)) w'"
proof -
  have "acyclic (points_in E owns w')"
  proof (rule acyclic_source [of "points_in E owns w" _ a])
    show "x = a \<or> (x, y) \<in> points_in E owns w" if "(x, y) \<in> points_in E owns w'" for x y
      using that v by (auto simp: points_in_def)
    show "(x, a) \<notin> points_in E owns w'" for x
    proof
      assume "(x, a) \<in> points_in E owns w'"
      then obtain u where u: "value_at w' x = Some u" "(\<exists>b \<in># strongs_of (owns u). Brc_header_ptr E b = Inr a)
          \<or> (\<exists>y \<in># weaks_of (owns u). WeakReal_header_ptr E y = Inr a)"
        by (auto simp: points_in_def)
      note sub = inner_member [OF fin u(1), of owns]
      have "b \<in># held E a (inner_strong owns w')" if "b \<in># strongs_of (owns u)" "Brc_header_ptr E b = Inr a" for b
        using that mset_subset_eqD [OF sub(1)] by (simp add: held_def)
      moreover have "y \<in># held_weak E a (inner_weak owns w')"
        if "y \<in># weaks_of (owns u)" "WeakReal_header_ptr E y = Inr a" for y
        using that mset_subset_eqD [OF sub(2)] by (simp add: held_weak_def)
      ultimately show False using u(2) none by auto
    qed
  qed (use ok in \<open>simp add: fine_def\<close>)
  then show ?thesis using ok q v by (simp add: fine_def)
qed

lemma fine_created:
  assumes ok: "fine E owns mem w" and c: "created E owns t b a v w w'" and n: "nlib E items owns w' S W"
  shows "fine E owns (mem(a \<mapsto> v)) w'"
proof -
  obtain w1 where w1: "settles t w w1" "value_at w' = (value_at w1)(a \<mapsto> v)" "threads w' = threads w1"
    using c by (auto simp: created_def)
  have f1: "fine E owns mem w1" by (rule fine_settles [OF ok w1(1)])
  then have "quiet w'" using w1(3) by (simp add: fine_def quiet_def entry_def)
  then show ?thesis using fine_put [OF f1 _ w1(2) nlibD(3) [OF n]] c by (simp add: created_def)
qed

definition client_ok ::
  "('q, 'v) env \<Rightarrow> ('q \<Rightarrow> QueuedObject list) \<Rightarrow> ('v \<Rightarrow> field list) \<Rightarrow> ('q, 'v) client \<Rightarrow> bool" where
  "client_ok E items owns st \<longleftrightarrow> nlib E items owns (lib st) (strongs st) (weaks_held st)
     \<and> fine E owns (memory st) (lib st)"

lemma client_okD:
  assumes "client_ok E items owns st"
  shows "nlib E items owns (lib st) (strongs st) (weaks_held st)" "fine E owns (memory st) (lib st)"
  using assms by (simp_all add: client_ok_def)

section \<open>What the program can reach\<close>

definition among :: "Brc multiset \<Rightarrow> Weak multiset \<Rightarrow> field \<Rightarrow> bool" where
  "among S W p \<longleftrightarrow> (case p of Inl b \<Rightarrow> b \<in># S | Inr x \<Rightarrow> x \<in># W)"

lemma among_simps [simp]: "among S W (Inl b) \<longleftrightarrow> b \<in># S" "among S W (Inr x) \<longleftrightarrow> x \<in># W"
  by (simp_all add: among_def)

lemma among_fields: "p \<in> set ps \<Longrightarrow> among (strongs_of ps) (weaks_of ps) p"
  by (induction ps rule: strongs_of.induct) (auto simp: among_def split: sum.splits)

lemma among_inner:
  assumes "finite (dom (value_at w))" "value_at w a = Some v" "p \<in> set (owns v)"
  shows "among (S + inner_strong owns w) (W + inner_weak owns w) p"
  using among_fields [OF assms(3)] mset_subset_eqD [OF inner_member(1) [OF assms(1,2), of owns]]
    mset_subset_eqD [OF inner_member(2) [OF assms(1,2), of owns]]
  by (cases p) auto

lemma counted_deref:
  assumes "Brc_deref E b w = Return v w'" "Brc_header_ptr E b = Inr a"
  shows "value_at w a = Some v"
  using assms by (cases "heap w a") (auto simp: Brc_deref_def Brc_object_def value_at_def split: option.splits)

lemma counted_value:
  assumes ok: "nlib E items owns w S W" and b: "b \<in># S + inner_strong owns w"
  obtains a v where "Brc_header_ptr E b = Inr a" "value_at w a = Some v" "Brc_deref E b w = Return v w"
proof -
  obtain a ob where ob: "Brc_header_ptr E b = Inr a" "heap w a = Some ob" "b \<in># held E a (S + inner_strong owns w)"
    "obj_ok E (held E a (S + inner_strong owns w)) (held_weak E a (W + inner_weak owns w)) a ob"
    by (rule strong_target [OF nlibD(1) [OF ok] b])
  then obtain v where "contents ob = Some v"
    using obj_okD(5) [OF ob(4)] obj_ok_alive(1) [OF ob(4,3)] by auto
  then show thesis using that ob(1,2) by (simp add: value_at_def Brc_deref_def Brc_object_def)
qed

text \<open>
  What can be reached is there, also after a collection: nobody destroys a value that somebody can
  reach.
\<close>

lemma readable_there:
  assumes r: "readable E owns st p" and ok: "nlib E items owns w (strongs st) (weaks_held st)" and s: "settles t (lib st) w"
  shows "among (strongs st + inner_strong owns w) (weaks_held st + inner_weak owns w) p"
  using r
proof induction
  case (inside b v p)
  then have "b \<in># strongs st + inner_strong owns w" by simp
  then obtain a u where a: "Brc_header_ptr E b = Inr a" "value_at w a = Some u" by (rule counted_value [OF ok])
  have "value_at (lib st) a = Some u" by (rule settles_value [OF s a(2)])
  then have "u = v" using counted_deref [OF inside(2) a(1)] by simp
  then show ?case using among_inner [OF nlibD(3) [OF ok] a(2)] inside(3) by blast
qed simp_all

end
