(* ===== verification/Client_Calls.thy ===== *)
theory Client_Calls
  imports Client_Safety
begin

text \<open>
  Every call that a program may make ends as it should and keeps the invariant: one lemma for each kind
  of operation, and from them the invariant of all reachable states.
\<close>

section \<open>What a call must achieve\<close>

definition call_ok ::
  "('q, 'v) env \<Rightarrow> ('q \<Rightarrow> QueuedObject list) \<Rightarrow> ('v \<Rightarrow> bool) \<Rightarrow> ('v \<Rightarrow> field list) \<Rightarrow> 'v op
    \<Rightarrow> (('q, 'v) client, unit) outcome \<Rightarrow> bool" where
  "call_ok E items panics owns a r \<longleftrightarrow> expected E (\<exists>v. panics v) a r
     \<and> (case r of Return _ st \<Rightarrow> client_ok E items owns st | Unwind st \<Rightarrow> client_ok E items owns st | Halt _ \<Rightarrow> True)"

lemma call_ok_simps [simp]:
  "call_ok E items panics owns a (Return u st) \<longleftrightarrow> client_ok E items owns st"
  "call_ok E items panics owns a (Unwind st) \<longleftrightarrow> expected E (\<exists>v. panics v) a (Unwind st) \<and> client_ok E items owns st"
  "call_ok E items panics owns a (Halt e) \<longleftrightarrow> expected E (\<exists>v. panics v) a (Halt e :: (('q, 'v) client, unit) outcome)"
  for E :: "('q, 'v) env"
  by (simp_all add: call_ok_def)

text \<open>The invariant before a call, and a world that has only settled afterwards.\<close>

definition calling ::
  "nat \<Rightarrow> ('q, 'v) env \<Rightarrow> ('q \<Rightarrow> QueuedObject list) \<Rightarrow> ('v \<Rightarrow> bool) \<Rightarrow> ('v \<Rightarrow> field list) \<Rightarrow> ('q, 'v) client \<Rightarrow> bool" where
  "calling n E items panics owns st \<longleftrightarrow> env_ok E items \<and> client_ok E items owns st \<and> live (lib st) < n"

lemma callingD:
  assumes "calling n E items panics owns st"
  shows "env_ok E items" "nlib E items owns (lib st) (strongs st) (weaks_held st)" "fine E owns (memory st) (lib st)"
    "live (lib st) < n" "live (lib st) \<le> n" "ready (with_glue n E t panics owns) items owns (\<exists>v. panics v) t n"
    "ready (with_glue n (unwinding t E) t panics owns) items owns (\<exists>v. panics v) t n"
  using assms glue_ready [of E items panics "\<exists>v. panics v" n t owns]
    glue_ready [of "unwinding t E" items panics "\<exists>v. panics v" n t owns]
  by (auto simp: calling_def client_ok_def)

lemma settled_ok_client:
  assumes "calling n E items panics owns st" "settles t (lib st) w" "nlib E items owns w S W"
    "lib st' = w" "strongs st' = S" "weaks_held st' = W" "memory st' = memory st"
  shows "client_ok E items owns st'"
  using fine_settles [OF callingD(3) [OF assms(1)] assms(2)] assms(3-) by (simp add: client_ok_def)

lemma counted_ok_client:
  assumes c: "calling n E items panics owns st" and w: "counts_only (lib st) w"
    "lib_ok E items w (S + inner_strong owns (lib st)) (W + inner_weak owns (lib st))"
    and st': "lib st' = w" "strongs st' = S" "weaks_held st' = W" "memory st' = memory st"
  shows "client_ok E items owns st'"
proof -
  have "nlib E items owns w S W" by (rule nlib_counts [OF w(2,1) nlibD(2) [OF callingD(2) [OF c]]])
  moreover have "settles undefined (lib st) w" using w(1) by (simp add: counts_only_def)
  ultimately show ?thesis using settled_ok_client [OF c _ _ st'] by blast
qed

lemma holds_split:
  assumes "holds st B ps"
  obtains S W where "strongs st = B + S + strongs_of ps" "weaks_held st = W + weaks_of ps"
proof -
  obtain S where "strongs st = B + strongs_of ps + S" using assms by (auto simp: holds_def elim: mset_subset_eq_exists_conv [THEN iffD1, THEN exE])
  moreover obtain W where "weaks_held st = weaks_of ps + W"
    using assms by (auto simp: holds_def elim: mset_subset_eq_exists_conv [THEN iffD1, THEN exE])
  ultimately show thesis by (intro that) (simp_all add: ac_simps)
qed

section \<open>Creating and changing values\<close>

lemma call_new:
  assumes c: "calling n E items panics owns st" and act: "client_act n E panics owns (Op_new t pol m v) st = Some r"
  shows "call_ok E items panics owns (Op_new t pol m v) r"
proof -
  let ?E = "with_glue n E t panics owns"
  have h: "holds st {#} (owns v)" using act by (auto split: if_splits)
  obtain S W where SW: "strongs st = S + strongs_of (owns v)" "weaks_held st = W + weaks_of (owns v)"
    by (rule holds_split [OF h]) simp
  have ok: "nlib ?E items owns (lib st) (S + strongs_of (owns v)) (W + weaks_of (owns v))"
    using callingD(2) [OF c] SW by simp
  have r: "r = then_holds (alloc_with_in ?E pol t (layout_for E m) m (Return v) (lib st))
      (unwinds_through (with_glue n (unwinding t E) t panics owns) t (owns v) st)
      (\<lambda>b w. let st = hand_over (owns v) st in
         remember E b v (st\<lparr>lib := w, strongs := add_mset b (strongs st)\<rparr>))"
    using act h by simp
  show ?thesis
  proof (rule new_keeps [OF callingD(6) [OF c] ok callingD(5) [OF c], where pol = pol and m = m])
    fix b a w'
    assume new: "alloc_with_in ?E pol t (layout_for ?E m) m (Return v) (lib st) = Return b w'"
      "nlib ?E items owns w' (add_mset b S) W" "created ?E owns t b a v (lib st) w'"
    have cr: "created E owns t b a v (lib st) w'"
      using new(3) by (simp add: created_def held_def held_weak_def)
    then have "Brc_header_ptr E b = Inr a" by (simp add: created_def)
    then show ?thesis
      using r new(1,2) fine_created [OF callingD(3) [OF c] cr] SW
      by (simp add: client_ok_def remember_def hand_over_def Let_def)
  next
    fix w'
    assume new: "alloc_with_in ?E pol t (layout_for ?E m) m (Return v) (lib st) = Unwind w'"
      "nlib ?E items owns w' (S + strongs_of (owns v)) (W + weaks_of (owns v))" "settles t (lib st) w'"
      "LayoutInfo_new (allocator_layout ?E) (layout_for ?E m) = None"
    let ?U = "with_glue n (unwinding t E) t panics owns"
    have "live w' \<le> n" using settles_live [OF new(3) nlibD(3) [OF ok]] callingD(5) [OF c] by simp
    let ?R = "leads ?U items owns S W t w'"
    have "safely (\<exists>v. panics v) ?R ?R (drop_fields ?U ?U t (owns v) w')"
      by (rule drop_fields_keeps [OF callingD(7) [OF c] callingD(7) [OF c] refl]) (use new(2) \<open>live w' \<le> n\<close> in simp_all)
    then show ?thesis
    proof (cases rule: safelyE)
      case (returns u w2)
      then have w2: "nlib E items owns w2 S W" "settles t w' w2" by (simp_all add: leads_def)
      have "client_ok E items owns (with_lib (hand_over (owns v) st) w2)"
        by (rule settled_ok_client [OF c settles_trans [OF new(3) w2(2)] w2(1)])
          (use SW in \<open>simp_all add: with_lib_def hand_over_def\<close>)
      then show ?thesis using r new(1,4) returns(1) by (simp add: unwinds_through_def)
    qed (use r new(1) in \<open>auto simp: unwinds_through_def\<close>)
  next
    assume "alloc_with_in ?E pol t (layout_for ?E m) m (Return v) (lib st) = Halt Alloc_error"
    then show ?thesis using r by simp
  next
    assume "\<exists>v. panics v" "alloc_with_in ?E pol t (layout_for ?E m) m (Return v) (lib st) = Halt Nounwind_abort"
    then show ?thesis using r by simp
  qed
qed

lemma call_new_panics:
  assumes c: "calling n E items panics owns st" and act: "client_act n E panics owns (Op_new_panics t m) st = Some r"
  shows "call_ok E items panics owns (Op_new_panics t m) r"
proof -
  let ?E = "with_glue n E t panics owns"
  have p: "panic_unwind E" using act by (auto split: if_splits)
  then have p': "panic_unwind ?E" by simp
  have ok: "nlib ?E items owns (lib st) (strongs st) (weaks_held st)" using callingD(2) [OF c] by simp
  show ?thesis
  proof (rule new_panics_keeps [OF callingD(6) [OF c] ok callingD(5) [OF c] p', where m = m])
    fix w'
    assume new: "alloc_with_in ?E MayPanic t (layout_for ?E m) m Unwind (lib st) = Unwind w'"
      "nlib ?E items owns w' (strongs st) (weaks_held st)" "settles t (lib st) w'"
    have "client_ok E items owns (with_lib st w')"
      by (rule settled_ok_client [OF c new(3)]) (use new(2) in \<open>simp_all add: with_lib_def\<close>)
    then show ?thesis using act p new(1) by (auto simp: unwinds_def)
  qed (use act p in auto)
qed

lemma call_replace:
  assumes c: "calling n E items panics owns st" and act: "client_act n E panics owns (Op_replace t b v) st = Some r"
  shows "call_ok E items panics owns (Op_replace t b v) r"
proof -
  have h: "holds st {#b#} (owns v)" using act by (auto split: if_splits)
  obtain S W where SW: "strongs st = {#b#} + S + strongs_of (owns v)" "weaks_held st = W + weaks_of (owns v)"
    by (rule holds_split [OF h])
  note N = nlibD [OF callingD(2) [OF c]]
  have b: "b \<in># strongs st + inner_strong owns (lib st)" using SW(1) by simp
  show ?thesis
  proof (rule replace_keeps [OF N(1) b, where t = t and v = v])
    assume "Brc_replace E t b v (lib st) = Return None (lib st)"
    then have "r = Return () (with_lib st (lib st))" using act h by simp
    moreover have "client_ok E items owns (with_lib st (lib st))"
      by (rule settled_ok_client [OF c settles_refl callingD(2) [OF c]]) (simp_all add: with_lib_def)
    ultimately show ?thesis by simp
  next
    fix a ob old
    let ?w = "store a (ob\<lparr>contents := Some v\<rparr>) (lib st)"
    assume run: "Brc_replace E t b v (lib st) = Return (Some old) ?w"
      and lib: "lib_ok E items ?w (strongs st + inner_strong owns (lib st)) (weaks_held st + inner_weak owns (lib st))"
      and ob: "heap (lib st) a = Some ob" "contents ob = Some old" and a: "Brc_header_ptr E b = Inr a"
      and one: "held E a (strongs st + inner_strong owns (lib st)) = {#b#}"
        "held_weak E a (weaks_held st + inner_weak owns (lib st)) = {#}"
    let ?gone = "(lib st)\<lparr>heap := (heap (lib st))(a := None)\<rparr>"
    have w0: "value_at ?gone = (value_at (lib st))(a := None)" and w: "value_at ?w = (value_at (lib st))(a \<mapsto> v)"
      by simp_all
    have v: "value_at (lib st) a = Some old" "value_at ?w = (value_at ?gone)(a \<mapsto> v)" "value_at ?gone a = None"
      "finite (dom (value_at ?gone))"
      unfolding w w0 using ob N(3) by (simp_all add: value_at_object)
    have old: "inner_strong owns (lib st) = inner_strong owns ?gone + strongs_of (owns old)"
      "inner_weak owns (lib st) = inner_weak owns ?gone + weaks_of (owns old)"
      using inner_none(1,2) [where w = "lib st" and w' = ?gone and a = a and v = old and owns = owns] N(3) v(1) by simp_all
    have new: "inner_strong owns ?w = inner_strong owns ?gone + strongs_of (owns v)"
      "inner_weak owns ?w = inner_weak owns ?gone + weaks_of (owns v)"
      by (rule inner_upd [OF v(4,2,3)])+
    have "nlib E items owns ?w ({#b#} + S + strongs_of (owns old)) (W + weaks_of (owns old))"
      using lib N(2) SW old new by (simp add: nlib_def ac_simps)
    then have nl: "nlib E items owns ?w (add_mset b (S + strongs_of (owns old))) (W + weaks_of (owns old))" by simp
    have none: "held E a (inner_strong owns ?w) = {#}" "held_weak E a (inner_weak owns ?w) = {#}"
      using one SW old new a by simp_all
    have "fine E owns ((memory st)(a \<mapsto> v)) ?w"
    proof (rule fine_put [OF callingD(3) [OF c]])
      show "quiet ?w" using callingD(3) [OF c] by (simp add: fine_def quiet_def entry_def)
    qed (use none nlibD(3) [OF nl] in simp_all)
    then show ?thesis
      using act h run nl a SW
      by (auto simp: client_ok_def remember_def with_lib_def take_back_def hand_over_def)
  qed
qed

lemma call_make_mut:
  assumes c: "calling n E items panics owns st" and act: "client_act n E panics owns (Op_make_mut t b v) st = Some r"
  shows "call_ok E items panics owns (Op_make_mut t b v) r"
proof -
  let ?E = "with_glue n E t panics owns"
  have h: "holds st {#b#} (owns v)" "meta b = Thin" using act by (auto split: if_splits)
  obtain S W where SW: "strongs st = {#b#} + S + strongs_of (owns v)" "weaks_held st = W + weaks_of (owns v)"
    by (rule holds_split [OF h(1)])
  have ok: "nlib ?E items owns (lib st) (add_mset b (S + strongs_of (owns v))) (W + weaks_of (owns v))"
    using callingD(2) [OF c] SW by simp
  let ?copy = "make_mut_copy ?E t (\<lambda>_. Return v) b (lib st)"
  have r: "r = then_holds (Brc_make_mut ?E t (\<lambda>_. Return v) b (lib st))
      (\<lambda>w. case ?copy of Return (Some b') _ \<Rightarrow> Unwind (with_lib (moved_to E owns b b' v st) w) | _ \<Rightarrow> unwinds st w)
      (\<lambda>b' w. with_lib (if b' = b then st else moved_to E owns b b' v st) w)"
    using act h by simp
  show ?thesis
  proof (rule make_mut_keeps [OF callingD(6) [OF c] callingD(4) [OF c] h(2) ok])
    assume "Brc_make_mut ?E t (\<lambda>_. Return v) b (lib st) = Return b (lib st)"
    moreover have "client_ok E items owns (with_lib st (lib st))"
      by (rule settled_ok_client [OF c settles_refl callingD(2) [OF c]]) (simp_all add: with_lib_def)
    ultimately show ?thesis using r by simp
  next
    fix b' a w1
    let ?R = "leads ?E items owns (add_mset b' S) W t w1"
    assume copy: "?copy = Return (Some b') w1" "b' \<noteq> b"
      and w1: "nlib ?E items owns w1 (add_mset b' (add_mset b S)) W" "created ?E owns t b' a v (lib st) w1"
      and drop: "safely (\<exists>v. panics v) ?R ?R (Brc_drop ?E t b w1)"
    have cr: "created E owns t b' a v (lib st) w1"
      using w1(2) by (simp add: created_def held_def held_weak_def)
    then have a: "Brc_header_ptr E b' = Inr a" by (simp add: created_def)
    have "nlib E items owns w1 (add_mset b' (add_mset b S)) W" using w1(1) by simp
    note f = fine_settles [OF fine_created [OF callingD(3) [OF c] cr this]]
    have ok: "client_ok E items owns (with_lib (moved_to E owns b b' v st) w')" if "?R w'" for w'
      using that f [of t w'] a SW
      by (simp add: client_ok_def leads_def remember_def hand_over_def moved_to_def with_lib_def Let_def)
    have run: "Brc_make_mut ?E t (\<lambda>_. Return v) b (lib st)
        = bind_outcome (Brc_drop ?E t b w1) (\<lambda>_. Return b')"
      using copy(1) by (simp add: Brc_make_mut_def)
    from drop show ?thesis
    proof (cases rule: safelyE)
      case (returns u w')
      then show ?thesis using r run ok copy(2) by simp
    next
      case (unwinds w')
      then show ?thesis using r run ok copy(1) by simp
    next
      case aborts
      then show ?thesis using r run by simp
    qed
  qed (use r in simp_all)
qed

lemma call_make_mut_panics:
  assumes c: "calling n E items panics owns st" and act: "client_act n E panics owns (Op_make_mut_panics t b) st = Some r"
  shows "call_ok E items panics owns (Op_make_mut_panics t b) r"
proof -
  let ?E = "with_glue n E t panics owns"
  have h: "b \<in># strongs st" "panic_unwind ?E" "meta b = Thin" using act by (auto split: if_splits)
  have ok: "nlib ?E items owns (lib st) (strongs st) (weaks_held st)" using callingD(2) [OF c] by simp
  have kept: "client_ok E items owns (with_lib st w)" if "nlib ?E items owns w (strongs st) (weaks_held st)" "settles t (lib st) w" for w
    by (rule settled_ok_client [OF c that(2)]) (use that(1) in \<open>simp_all add: with_lib_def\<close>)
  show ?thesis
    by (rule make_mut_panics_keeps [OF callingD(6) [OF c] callingD(5) [OF c] h(2) ok h(1)])
      (use act h kept kept [OF ok settles_refl] in \<open>auto simp: unwinds_def split: if_splits\<close>)
qed

section \<open>More and fewer pointers\<close>

lemma readable_now:
  assumes "calling n E items panics owns st" "readable E owns st p"
  shows "among (strongs st + inner_strong owns (lib st)) (weaks_held st + inner_weak owns (lib st)) p"
  by (rule readable_there [OF assms(2) callingD(2) [OF assms(1)] settles_refl])

lemma call_clone:
  assumes c: "calling n E items panics owns st" and may: "may_count n E panics owns (Op_clone t b) st"
    and act: "client_act n E panics owns (Op_clone t b) st = Some r"
  shows "call_ok E items panics owns (Op_clone t b) r"
proof -
  let ?E = "with_glue n E t panics owns"
  have h: "readable E owns st (Inl b)" using act by (auto split: if_splits)
  have ok: "nlib ?E items owns (lib st) (strongs st) (weaks_held st)" using callingD(2) [OF c] by simp
  from callingD(6) [OF c] ok callingD(5) [OF c] show ?thesis
  proof (cases rule: collected_first [where c = "no_implicit_collect_clone ?E"])
    case aborts
    then have "Brc_clone ?E t b (lib st) = Halt Nounwind_abort" by (simp add: Brc_clone_def collect_if_def)
    then show ?thesis using act h aborts(1) by auto
  next
    case w1: (collected w1)
    have there: "b \<in># strongs st + inner_strong owns w1"
      using readable_there [OF h _ w1(3)] w1(2) by simp
    have safe: "counting_safe w1 t (Brc_header_ptr ?E b)" "size (strongs st + inner_strong owns w1) < 2 ^ 60"
      using may w1(1) by (simp_all add: after_def room_def)
    note N = nlibD [OF w1(2)]
    obtain w2 where w2: "Brc_clone_no_collect ?E t b w1 = Return b w2"
      "lib_ok ?E items w2 (add_mset b (strongs st + inner_strong owns w1)) (weaks_held st + inner_weak owns w1)"
      "counts_only w1 w2"
      by (rule clone_keeps [OF N(1) there safe])
    have "nlib ?E items owns w2 (add_mset b (strongs st)) (weaks_held st)"
      by (rule nlib_counts [OF _ w2(3) N(2)]) (use w2(2) in simp)
    then have nl: "nlib E items owns w2 (add_mset b (strongs st)) (weaks_held st)" by simp
    have s: "settles t (lib st) w2" using settles_trans [OF w1(3)] w2(3) by (simp add: counts_only_def)
    have "Brc_clone ?E t b (lib st) = Return b w2" using w1(1) w2(1) by (simp add: Brc_clone_def collect_if_def)
    then show ?thesis
      using act h settled_ok_client [OF c s nl, of "st\<lparr>lib := w2, strongs := add_mset b (strongs st)\<rparr>"] by auto
  qed
qed

lemma call_clone_shared:
  assumes c: "calling n E items panics owns st" and may: "may_count n E panics owns (Op_clone_shared b) st"
    and act: "client_act n E panics owns (Op_clone_shared b) st = Some r"
  shows "call_ok E items panics owns (Op_clone_shared b) r"
proof -
  have h: "readable E owns st (Inl b)" using act by (auto split: if_splits)
  have there: "b \<in># strongs st + inner_strong owns (lib st)" using readable_now [OF c h] by simp
  have safe: "at_header (lib st) (Brc_header_ptr E b) (\<lambda>h. \<not> awaits_merge h)"
    "size (strongs st + inner_strong owns (lib st)) < 2 ^ 60"
    using may by (simp_all add: room_def)
  obtain w2 where w2: "Brc_clone_shared E b (lib st) = Return b w2"
    "lib_ok E items w2 (add_mset b (strongs st + inner_strong owns (lib st))) (weaks_held st + inner_weak owns (lib st))"
    "counts_only (lib st) w2"
    by (rule clone_shared_keeps [OF nlibD(1) [OF callingD(2) [OF c]] there safe])
  have "client_ok E items owns (st\<lparr>lib := w2, strongs := add_mset b (strongs st)\<rparr>)"
    by (rule counted_ok_client [OF c w2(3), of "add_mset b (strongs st)" "weaks_held st"]) (use w2(2) in simp_all)
  then show ?thesis using act h w2(1) by auto
qed

lemma call_drop:
  assumes c: "calling n E items panics owns st" and act: "client_act n E panics owns (Op_drop t b) st = Some r"
  shows "call_ok E items panics owns (Op_drop t b) r"
proof -
  let ?E = "with_glue n E t panics owns"
  have h: "b \<in># strongs st" using act by (auto split: if_splits)
  have ok: "nlib ?E items owns (lib st) (add_mset b (strongs st - {#b#})) (weaks_held st)"
    using callingD(2) [OF c] h by simp
  let ?R = "leads ?E items owns (strongs st - {#b#}) (weaks_held st) t (lib st)"
  have kept: "client_ok E items owns (st\<lparr>lib := w', strongs := strongs st - {#b#}\<rparr>)" if "?R w'" for w'
    by (rule settled_ok_client [OF c leadsD(2) [OF that]]) (use leadsD(1) [OF that] in simp_all)
  have "safely (\<exists>v. panics v) ?R ?R (Brc_drop ?E t b (lib st))"
    by (rule drop_call [OF callingD(6) [OF c] ok callingD(5) [OF c]])
  then show ?thesis using act h kept by (cases rule: safelyE) auto
qed

lemma call_downgrade:
  assumes c: "calling n E items panics owns st" and act: "client_act n E panics owns (Op_downgrade b) st = Some r"
  shows "call_ok E items panics owns (Op_downgrade b) r"
proof -
  have h: "readable E owns st (Inl b)" using act by (auto split: if_splits)
  have there: "b \<in># strongs st + inner_strong owns (lib st)" using readable_now [OF c h] by simp
  show ?thesis
  proof (rule downgrade_keeps [OF nlibD(1) [OF callingD(2) [OF c]] there])
    fix x w'
    assume w': "Brc_downgrade E b (lib st) = Return x w'" "lib_ok E items w' (strongs st + inner_strong owns (lib st))
      (add_mset x (weaks_held st + inner_weak owns (lib st)))" "counts_only (lib st) w'"
    have "client_ok E items owns (st\<lparr>lib := w', weaks_held := add_mset x (weaks_held st)\<rparr>)"
      by (rule counted_ok_client [OF c w'(3), of "strongs st" "add_mset x (weaks_held st)"]) (use w'(2) in simp_all)
    then show ?thesis using act h w'(1) by auto
  qed (use act h in auto)
qed

lemma call_upgrade:
  assumes c: "calling n E items panics owns st" and may: "may_count n E panics owns (Op_upgrade t x) st"
    and act: "client_act n E panics owns (Op_upgrade t x) st = Some r"
  shows "call_ok E items panics owns (Op_upgrade t x) r"
proof -
  have h: "readable E owns st (Inr x)" using act by (auto split: if_splits)
  have there: "x \<in># weaks_held st + inner_weak owns (lib st)" using readable_now [OF c h] by simp
  have safe: "counting_safe (lib st) t (WeakReal_header_ptr E x)" "size (strongs st + inner_strong owns (lib st)) < 2 ^ 60"
    using may by (simp_all add: room_def)
  show ?thesis
  proof (rule upgrade_keeps [OF nlibD(1) [OF callingD(2) [OF c]] there safe])
    assume "Weak_upgrade E t x (lib st) = Return None (lib st)"
    moreover have "client_ok E items owns (with_lib st (lib st))"
      by (rule settled_ok_client [OF c settles_refl callingD(2) [OF c]]) (simp_all add: with_lib_def)
    ultimately show ?thesis using act h by auto
  next
    fix b w'
    assume w': "Weak_upgrade E t x (lib st) = Return (Some b) w'" "lib_ok E items w'
      (add_mset b (strongs st + inner_strong owns (lib st))) (weaks_held st + inner_weak owns (lib st))" "counts_only (lib st) w'"
    have "client_ok E items owns (st\<lparr>lib := w', strongs := add_mset b (strongs st)\<rparr>)"
      by (rule counted_ok_client [OF c w'(3), of "add_mset b (strongs st)" "weaks_held st"]) (use w'(2) in simp_all)
    then show ?thesis using act h w'(1) by auto
  qed
qed

lemma call_weak_clone:
  assumes c: "calling n E items panics owns st" and act: "client_act n E panics owns (Op_weak_clone x) st = Some r"
  shows "call_ok E items panics owns (Op_weak_clone x) r"
proof -
  have h: "readable E owns st (Inr x)" using act by (auto split: if_splits)
  have there: "x \<in># weaks_held st + inner_weak owns (lib st)" using readable_now [OF c h] by simp
  show ?thesis
  proof (rule weak_clone_keeps [OF nlibD(1) [OF callingD(2) [OF c]] there])
    fix w'
    assume w': "Weak_clone E x (lib st) = Return x w'" "lib_ok E items w' (strongs st + inner_strong owns (lib st))
      (add_mset x (weaks_held st + inner_weak owns (lib st)))" "counts_only (lib st) w'"
    have "client_ok E items owns (st\<lparr>lib := w', weaks_held := add_mset x (weaks_held st)\<rparr>)"
      by (rule counted_ok_client [OF c w'(3), of "strongs st" "add_mset x (weaks_held st)"]) (use w'(2) in simp_all)
    then show ?thesis using act h w'(1) by auto
  qed (use act h in auto)
qed

lemma call_weak_drop:
  assumes c: "calling n E items panics owns st" and act: "client_act n E panics owns (Op_weak_drop x) st = Some r"
  shows "call_ok E items panics owns (Op_weak_drop x) r"
proof -
  have h: "x \<in># weaks_held st" using act by (auto split: if_splits)
  have ok: "nlib E items owns (lib st) (strongs st) (add_mset x (weaks_held st - {#x#}))"
    using callingD(2) [OF c] h by simp
  obtain w' where w': "Weak_drop E x (lib st) = Return () w'"
    "nlib E items owns w' (strongs st) (weaks_held st - {#x#})" "\<And>t. settles t (lib st) w'"
    using weak_drop_keeps [OF ok] by blast
  have "client_ok E items owns (st\<lparr>lib := w', weaks_held := weaks_held st - {#x#}\<rparr>)"
    by (rule settled_ok_client [OF c w'(3) w'(2)]) simp_all
  then show ?thesis using act h w'(1) by auto
qed

section \<open>Collections and the end of threads\<close>

lemma call_collect:
  assumes c: "calling n E items panics owns st"
  shows "client_act n E panics owns (Op_collect t pol) st = Some r \<Longrightarrow> call_ok E items panics owns (Op_collect t pol) r"
    "client_act n E panics owns (Op_collect_force t) st = Some r \<Longrightarrow> call_ok E items panics owns (Op_collect_force t) r"
proof -
  let ?E = "with_glue n E t panics owns"
  have ok: "nlib ?E items owns (lib st) (strongs st) (weaks_held st)" using callingD(2) [OF c] by simp
  let ?p = "\<exists>v. panics v" and ?R = "leads ?E items owns (strongs st) (weaks_held st) t (lib st)"
  have kept: "client_ok E items owns (with_lib st w)" if "?R w" for w
    by (rule settled_ok_client [OF c leadsD(2) [OF that]]) (use leadsD(1) [OF that] in \<open>simp_all add: with_lib_def\<close>)
  have "safely ?p ?R (\<lambda>w. pol = MayPanic \<and> ?R w) (collect_with ?E pol t (lib st))"
    by (rule collect_keeps [OF callingD(6) [OF c] ok callingD(5) [OF c]])
  then show "client_act n E panics owns (Op_collect t pol) st = Some r \<Longrightarrow> call_ok E items panics owns (Op_collect t pol) r"
    using kept by (cases rule: safelyE) (auto simp: unwinds_def)
  have "safely ?p ?R ?R (collect_force ?E t (lib st))"
    by (rule collect_force_keeps [OF callingD(6) [OF c] ok callingD(5) [OF c]])
  then show "client_act n E panics owns (Op_collect_force t) st = Some r \<Longrightarrow> call_ok E items panics owns (Op_collect_force t) r"
    using kept by (cases rule: safelyE) (auto simp: unwinds_def)
qed

lemma exit_call:
  assumes c: "calling n E items panics owns st" and t: "tls (lib st) t \<noteq> Tls_destroyed"
  obtains (ends) w where "client_act n E panics owns (Op_exit t) st = Some (Return () (with_lib st w))"
    "client_ok E items owns (with_lib st w)" "tls w = (tls (lib st))(t := Tls_destroyed)" "live w \<le> live (lib st)"
  | (aborts) "\<exists>v. panics v" "client_act n E panics owns (Op_exit t) st = Some (Halt Nounwind_abort)"
proof -
  let ?E = "with_glue n E t panics owns"
  have ok: "nlib ?E items owns (lib st) (strongs st) (weaks_held st)" using callingD(2) [OF c] by simp
  have q: "quiet (lib st)" using callingD(3) [OF c] by (simp add: fine_def)
  show thesis
  proof (rule thread_exit_keeps [OF callingD(6) [OF c] ok callingD(5) [OF c] q])
    assume "\<exists>v. panics v" "thread_exit ?E t (lib st) = Halt Nounwind_abort"
    then show thesis using aborts t by simp
  next
    fix w
    assume w: "thread_exit ?E t (lib st) = Return () w" "nlib ?E items owns w (strongs st) (weaks_held st)"
      "quiet w" "tls w = (tls (lib st))(t := Tls_destroyed)" "\<And>a. fades (heap (lib st) a) (heap w a)"
    have "fine E owns (memory st) w" by (rule fine_fades [OF callingD(3) [OF c] w(3,5)])
    then have "client_ok E items owns (with_lib st w)" using w(2) by (simp add: client_ok_def with_lib_def)
    moreover have "value_at (lib st) a = Some v" if "value_at w a = Some v" for a v
      using w(5) [of a] that by (cases "heap w a") (auto simp: value_at_def)
    then have "live w \<le> live (lib st)"
      unfolding live_def using nlibD(3) [OF ok] by (intro card_mono) auto
    ultimately show thesis using ends w(1,4) t by simp
  qed
qed

lemma call_exit:
  assumes c: "calling n E items panics owns st" and act: "client_act n E panics owns (Op_exit t) st = Some r"
  shows "call_ok E items panics owns (Op_exit t) r"
proof -
  have "tls (lib st) t \<noteq> Tls_destroyed" using act by (auto split: if_splits)
  then show ?thesis
    by (rule exit_call [OF c]) (use act in \<open>auto simp del: client_act.simps\<close>)
qed

section \<open>All calls\<close>

lemma client_act_keeps:
  assumes E: "env_ok E items" and ok: "client_ok E items owns st"
    and allowed: "allowed n E panics owns a st" and act: "client_act n E panics owns a st = Some r"
  shows "call_ok E items panics owns a r"
proof -
  have c: "calling n E items panics owns st" and may: "may_count n E panics owns a st"
    using E ok allowed by (simp_all add: calling_def allowed_def)
  note plain = call_new [OF c] call_new_panics [OF c] call_replace [OF c] call_make_mut [OF c] call_make_mut_panics [OF c] call_drop [OF c]
    call_downgrade [OF c] call_weak_clone [OF c] call_weak_drop [OF c] call_collect [OF c] call_exit [OF c]
  note counting = call_clone [OF c] call_clone_shared [OF c] call_upgrade [OF c]
  show ?thesis using act may by (cases a) (simp_all only: plain counting)
qed

lemma empty_world_ok: "nlib E items owns empty_world {#} {#}"
  by (simp add: nlib_def lib_ok_def empty_world_def runtime_ok_def thread_ok_def table_ok_def entries_distinct_def
      table_open_def staffed_def pointers_ok_def heap_ok_def owners_ok_def queues_ok_def entry_def
      inner_strong_def inner_weak_def value_at_def dom_def)

lemma start_ok: "client_ok E items owns client_start"
  using empty_world_ok [of E items owns]
  by (simp add: client_ok_def client_start_def fine_def quiet_def points_in_def acyclic_def value_at_def
      empty_world_def entry_def)

lemma reachable_ok:
  assumes E: "env_ok E items" and r: "client_reachable n E panics owns st"
  shows "client_ok E items owns st"
  using r
proof induction
  case (client_steps st a st')
  then show ?case using client_act_keeps [OF E, of owns st n panics a "Return () st'"] by simp
next
  case (client_panics st a st')
  then show ?case using client_act_keeps [OF E, of owns st n panics a "Unwind st'"] by simp
qed (rule start_ok)

end
