(* ===== verification/Client_Depth.thy ===== *)
theory Client_Depth
  imports Client_Calls
begin

text \<open>
  How many levels of destructors within destructors the model provides does not matter, as long as they
  are enough: with more levels every call does the same, so every run with \<open>n\<close> levels is a run with any
  larger number of them. An action with fewer levels gives the result of one with more, unless it runs
  out of them, and \<open>client_act_keeps\<close> says that it does not.
\<close>

section \<open>Running out, or the same result\<close>

definition short_of :: "('s, 'a) outcome \<Rightarrow> ('s, 'a) outcome \<Rightarrow> bool" where
  "short_of r r' \<longleftrightarrow> r = Halt Diverges \<or> r = r'"

named_theorems short_rules

lemma short_refl [short_rules]: "short_of r r"
  by (simp add: short_of_def)

lemma short_bind [short_rules]:
  assumes "short_of r r'" "\<And>x w. short_of (k x w) (k' x w)"
  shows "short_of (bind_outcome r k) (bind_outcome r' k')"
proof (cases "r = Halt Diverges")
  case False
  then have "r' = r" using assms(1) by (simp add: short_of_def)
  then show ?thesis using assms(2) by (cases r) (simp_all add: short_of_def)
qed (simp add: short_of_def)

lemma short_guard [short_rules]:
  assumes "short_of r r'" "\<And>w. short_of (g w) (g' w)"
  shows "short_of (with_guard r g) (with_guard r' g')"
proof (cases "r = Halt Diverges")
  case False
  then have r': "r' = r" using assms(1) by (simp add: short_of_def)
  show ?thesis
  proof (cases r)
    case (Return x w)
    then show ?thesis using r' short_bind [OF assms(2) short_refl, of w "\<lambda>_. Return x"] by simp
  next
    case (Unwind w)
    then show ?thesis using r' assms(2) [of w] by (auto simp: short_of_def)
  qed (simp add: r' short_refl)
qed (simp add: short_of_def)

lemma short_then_drop [short_rules]:
  assumes "short_of r r'" "\<And>w. short_of (f w) (f' w)" "\<And>w. short_of (g w) (g' w)"
  shows "short_of (then_drop r f g) (then_drop r' f' g')"
proof (cases "r = Halt Diverges")
  case False
  then have r': "r' = r" using assms(1) by (simp add: short_of_def)
  show ?thesis
  proof (cases r)
    case (Unwind w)
    then show ?thesis using r' assms(3) [of w] by (auto simp: short_of_def)
  qed (use r' assms(2) short_refl in simp_all)
qed (simp add: short_of_def)

lemma short_abort [short_rules]: "short_of r r' \<Longrightarrow> short_of (abort_unwind r) (abort_unwind r')"
  by (auto simp: short_of_def)

lemma short_maybe_abort [short_rules]:
  "short_of r r' \<Longrightarrow> short_of (maybe_abort_unwind pol r) (maybe_abort_unwind pol r')"
  by (cases pol) (auto simp: short_of_def)

lemma short_if [short_rules]: "short_of r r' \<Longrightarrow> short_of s s' \<Longrightarrow> short_of (if c then r else s) (if c then r' else s')"
  by simp

lemma short_option [short_rules]:
  "short_of r r' \<Longrightarrow> (\<And>x. short_of (f x) (f' x)) \<Longrightarrow>
     short_of (case p of None \<Rightarrow> r | Some x \<Rightarrow> f x) (case p of None \<Rightarrow> r' | Some x \<Rightarrow> f' x)"
  by (cases p) simp_all

lemma short_sum [short_rules]:
  "(\<And>x. short_of (f x) (f' x)) \<Longrightarrow> (\<And>x. short_of (g x) (g' x)) \<Longrightarrow>
     short_of (case p of Inl x \<Rightarrow> f x | Inr x \<Rightarrow> g x) (case p of Inl x \<Rightarrow> f' x | Inr x \<Rightarrow> g' x)"
  by (cases p) simp_all

lemma short_prod [short_rules]:
  "(\<And>x y. short_of (f x y) (f' x y)) \<Longrightarrow> short_of (case p of (x, y) \<Rightarrow> f x y) (case p of (x, y) \<Rightarrow> f' x y)"
  by (cases p) simp_all

lemma short_entry [short_rules]:
  "(\<And>info w. short_of (f info w) (f' info w)) \<Longrightarrow> short_of (with_entry i f w) (with_entry i f' w)"
  by (auto simp: with_entry_def short_refl split: option.split)

lemma short_current [short_rules]:
  assumes "\<And>st w. short_of (f st w) (f' st w)" "queue_new E' = queue_new E" "next_index E' = next_index E"
  shows "short_of (with_current_state E t f w) (with_current_state E' t f' w)"
  unfolding with_current_state_def assms(2,3) by (intro short_rules assms(1))

section \<open>Operations\<close>

text \<open>\<open>E'\<close> is \<open>E\<close> with more levels of destructors.\<close>

definition deeper :: "('q, 'v) env \<Rightarrow> ('q, 'v) env \<Rightarrow> bool" where
  "deeper E E' \<longleftrightarrow> E' = E\<lparr>drop_in_place := drop_in_place E'\<rparr>
     \<and> (\<forall>v w. short_of (drop_in_place E v w) (drop_in_place E' v w))"

lemma deeper_refl: "deeper E E"
  by (simp add: deeper_def short_refl)

lemma short_drop: "deeper E E' \<Longrightarrow> short_of (drop_in_place E v w) (drop_in_place E' v w)"
  by (simp add: deeper_def)

lemma deeper_fields:
  assumes "deeper E E'"
  shows "debug_assertions E' = debug_assertions E" "panic_unwind E' = panic_unwind E"
    "implicit_collect_disable E' = implicit_collect_disable E" "no_implicit_collect E' = no_implicit_collect E"
    "no_implicit_collect_clone E' = no_implicit_collect_clone E"
    "no_implicit_collect_drop E' = no_implicit_collect_drop E"
    "queue_new E' = queue_new E" "queue_push E' = queue_push E" "queue_pop E' = queue_pop E"
    "queue_is_empty E' = queue_is_empty E" "next_index E' = next_index E" "thread_panicking E' = thread_panicking E"
    "needs_drop E' = needs_drop E" "layout_for E' = layout_for E" "allocator_layout E' = allocator_layout E"
    "allocate E' = allocate E"
proof -
  obtain f where "E' = E\<lparr>drop_in_place := f\<rparr>" using assms by (auto simp: deeper_def)
  then show "debug_assertions E' = debug_assertions E" "panic_unwind E' = panic_unwind E"
    "implicit_collect_disable E' = implicit_collect_disable E" "no_implicit_collect E' = no_implicit_collect E"
    "no_implicit_collect_clone E' = no_implicit_collect_clone E"
    "no_implicit_collect_drop E' = no_implicit_collect_drop E"
    "queue_new E' = queue_new E" "queue_push E' = queue_push E" "queue_pop E' = queue_pop E"
    "queue_is_empty E' = queue_is_empty E" "next_index E' = next_index E" "thread_panicking E' = thread_panicking E"
    "needs_drop E' = needs_drop E" "layout_for E' = layout_for E" "allocator_layout E' = allocator_layout E"
    "allocate E' = allocate E"
    by simp_all
qed

text \<open>What runs no destructor is not concerned.\<close>

lemma deeper_same:
  assumes "deeper E E'"
  shows "Brc_layout E' = Brc_layout E" "Brc_header_ptr E' = Brc_header_ptr E" "Brc_deref E' = Brc_deref E"
    "Brc_is_unique E' = Brc_is_unique E" "Brc_clone_no_collect E' = Brc_clone_no_collect E"
    "Weak_drop E' = Weak_drop E" "may_unwind E' pol = may_unwind E pol"
proof -
  note same = deeper_fields [OF assms]
  show l: "Brc_layout E' = Brc_layout E" by (intro ext) (simp add: Brc_layout_def same)
  show h: "Brc_header_ptr E' = Brc_header_ptr E" unfolding Brc_header_ptr_def [abs_def] l ..
  have o: "Brc_object E' = Brc_object E" unfolding Brc_object_def [abs_def] h ..
  show "Brc_deref E' = Brc_deref E" unfolding Brc_deref_def [abs_def] o ..
  show "Brc_is_unique E' = Brc_is_unique E" unfolding Brc_is_unique_def [abs_def] h same ..
  show "Brc_clone_no_collect E' = Brc_clone_no_collect E" unfolding Brc_clone_no_collect_def [abs_def] h same ..
  show "Weak_drop E' = Weak_drop E"
    unfolding Weak_drop_def [abs_def] on_real_def WeakReal_header_ptr_def WeakReal_layout_info_def same ..
  show "may_unwind E' pol = may_unwind E pol" by (cases pol) (simp_all add: same)
qed

lemma short_dealloc:
  assumes "deeper E E'"
  shows "short_of (erased_dealloc E a kind ctx offset w) (erased_dealloc E' a kind ctx offset w)"
  unfolding erased_dealloc_def drop_contents_def deeper_fields [OF assms]
  by (intro short_rules short_drop [OF assms])

lemma short_merge:
  assumes "deeper E E'"
  shows "short_of (explicit_merge E sid q w) (explicit_merge E' sid q w)"
  unfolding explicit_merge_def erased_info_dealloc_def by (intro short_rules short_dealloc [OF assms])

section \<open>Queues and collections\<close>

definition shorter :: "('s, 'a) outcome \<Rightarrow> ('s, 'a) outcome option \<Rightarrow> bool" where
  "shorter r x \<longleftrightarrow> r = Halt Diverges \<or> x = Some r"

lemma shorter_run: "(\<And>r. x = Some r \<Longrightarrow> shorter r x') \<Longrightarrow> short_of (finite_run x) (finite_run x')"
  by (cases x) (auto simp: shorter_def short_of_def finite_run_def)

lemma shorter_step:
  assumes m: "short_of m m'"
    and run: "(case m of Return _ w \<Rightarrow> k w | Unwind w \<Rightarrow> Some (Unwind w) | Halt e \<Rightarrow> Some (Halt e)) = Some r"
    and k: "\<And>w. k w = Some r \<Longrightarrow> shorter r (k' w)"
  shows "shorter r (case m' of Return _ w \<Rightarrow> k' w | Unwind w \<Rightarrow> Some (Unwind w) | Halt e \<Rightarrow> Some (Halt e))"
  using m run k by (cases m) (auto simp: short_of_def shorter_def, blast)

lemma process_loop_short:
  fixes E :: "('q, 'v) env"
  assumes ret: "process_loop E i w = Some r" and D: "deeper E E'"
  shows "shorter r (process_loop E' i w)"
proof -
  have "deeper E E' \<longrightarrow> shorter r (process_loop E' i w)"
  proof (rule process_loop.raw_induct [where P = "\<lambda>E i w r. deeper E E' \<longrightarrow> shorter r (process_loop E' i w)", OF _ ret],
      rule impI)
    fix loop and E :: "('q, 'v) env" and i w r
    assume IH: "\<And>E i w r. loop E i w = Some r \<Longrightarrow> deeper E E' \<longrightarrow> shorter r (process_loop E' i w)"
      and eq: "(case entry w i of None \<Rightarrow> Some (Halt Unchecked_violation)
        | Some info \<Rightarrow> (case queue_pop E (queue_inner info) of None \<Rightarrow> Some (Return () w)
          | Some (ob, rest) \<Rightarrow>
              (case explicit_merge E (queue_short_id info) ob (set_entry i (info\<lparr>queue_inner := rest\<rparr>) w) of
                 Return _ w \<Rightarrow> loop E i w | Unwind w \<Rightarrow> Some (Unwind w) | Halt e \<Rightarrow> Some (Halt e)))) = Some r"
      and D: "deeper E E'"
    note same = deeper_fields [OF D]
    show "shorter r (process_loop E' i w)"
    proof (cases "entry w i")
      case None
      then show ?thesis using eq by (subst process_loop.simps) (simp add: shorter_def)
    next
      case (Some info)
      note info = Some
      show ?thesis
      proof (cases "queue_pop E (queue_inner info)")
        case None
        then show ?thesis using eq info by (subst process_loop.simps) (simp add: shorter_def same)
      next
        case (Some p)
        obtain q rest where p: "p = (q, rest)" by (cases p)
        let ?m = "\<lambda>E. explicit_merge E (queue_short_id info) q (set_entry i (info\<lparr>queue_inner := rest\<rparr>) w)"
        have run: "(case ?m E of Return _ w \<Rightarrow> loop E i w | Unwind w \<Rightarrow> Some (Unwind w) | Halt e \<Rightarrow> Some (Halt e)) = Some r"
          using eq info Some p by simp
        have run': "process_loop E' i w
            = (case ?m E' of Return _ w \<Rightarrow> process_loop E' i w | Unwind w \<Rightarrow> Some (Unwind w) | Halt e \<Rightarrow> Some (Halt e))"
          using info Some p by (subst process_loop.simps) (simp add: same)
        show ?thesis
          unfolding run' by (rule shorter_step [OF short_merge [OF D] run]) (use IH D in blast)
      qed
    qed
  qed
  then show ?thesis using D by blast
qed

lemma short_process:
  assumes "deeper E E'"
  shows "short_of (do_process E i w) (do_process E' i w)"
  unfolding do_process_def by (rule shorter_run) (rule process_loop_short [OF _ assms])

lemma short_queue_arc:
  assumes "deeper E E'"
  shows "short_of (drop_queue_arc E i w) (drop_queue_arc E' i w)"
  unfolding drop_queue_arc_def Let_def by (intro short_rules short_process [OF assms])

lemma short_queue:
  assumes "deeper E E'"
  shows "short_of (queue_object E i q w) (queue_object E' i q w)"
  unfolding queue_object_def deeper_fields [OF assms]
  by (intro short_rules short_queue_arc [OF assms] short_merge [OF assms])

lemma short_decrement:
  assumes "deeper E E'"
  shows "short_of (decrement_strong_at E t a m offset w) (decrement_strong_at E' t a m offset w)"
proof -
  have "short_of (decrement_shared_do_queue E a m offset w) (decrement_shared_do_queue E' a m offset w)" for w
    unfolding decrement_shared_do_queue_def by (intro short_rules short_queue [OF assms])
  then have "short_of (case r of Shared_done d \<Rightarrow> Return d w
        | Do_queue \<Rightarrow> bind_outcome (decrement_shared_do_queue E a m offset w) (\<lambda>_ w. Return False w))
      (case r of Shared_done d \<Rightarrow> Return d w
        | Do_queue \<Rightarrow> bind_outcome (decrement_shared_do_queue E' a m offset w) (\<lambda>_ w. Return False w))" for r w
    by (cases r) (auto intro!: short_rules)
  then show ?thesis unfolding decrement_strong_at_def deeper_fields [OF assms] by (intro short_rules)
qed

lemma collect_loop_short:
  fixes E :: "('q, 'v) env"
  assumes ret: "collect_loop E i w = Some r" and D: "deeper E E'"
  shows "shorter r (collect_loop E' i w)"
proof -
  have "deeper E E' \<longrightarrow> shorter r (collect_loop E' i w)"
  proof (rule collect_loop.raw_induct [where P = "\<lambda>E i w r. deeper E E' \<longrightarrow> shorter r (collect_loop E' i w)", OF _ ret],
      rule impI)
    fix loop and E :: "('q, 'v) env" and i w r
    let ?p = "\<lambda>E :: ('q, 'v) env. bind_outcome (do_process E i w) (\<lambda>_. swap_flag i QueuedObjects Live)"
    let ?k = "\<lambda>(E :: ('q, 'v) env) loop w. case entry w i of None \<Rightarrow> Some (Halt Unchecked_violation)
        | Some info \<Rightarrow> if queue_is_empty E (queue_inner info) then Some (Return () w) else loop E i w"
    assume IH: "\<And>E i w r. loop E i w = Some r \<Longrightarrow> deeper E E' \<longrightarrow> shorter r (collect_loop E' i w)"
      and eq: "(case ?p E of Return _ w \<Rightarrow> ?k E loop w | Unwind w \<Rightarrow> Some (Unwind w) | Halt e \<Rightarrow> Some (Halt e)) = Some r"
      and D: "deeper E E'"
    have run': "collect_loop E' i w = (case ?p E' of Return _ w \<Rightarrow> ?k E' collect_loop w
        | Unwind w \<Rightarrow> Some (Unwind w) | Halt e \<Rightarrow> Some (Halt e))"
      by (subst collect_loop.simps) (rule refl)
    have k: "shorter r (?k E' collect_loop w)" if "?k E loop w = Some r" for w
      using that IH D by (auto simp: shorter_def deeper_fields [OF D] split: option.splits if_splits)
    have "short_of (?p E) (?p E')" by (intro short_rules short_process [OF D])
    then show "shorter r (collect_loop E' i w)" unfolding run' by (rule shorter_step [OF _ eq k])
  qed
  then show ?thesis using D by blast
qed

lemma short_local_collect:
  assumes "deeper E E'"
  shows "short_of (local_collect_force E st w) (local_collect_force E' st w)"
  unfolding local_collect_force_def
  by (intro short_rules short_queue_arc [OF assms] shorter_run collect_loop_short [OF _ assms])

lemma short_collect:
  assumes "deeper E E'"
  shows "short_of (collect_with E pol t w) (collect_with E' pol t w)"
    "short_of (collect_implicit E t w) (collect_implicit E' t w)" "short_of (collect_force E t w) (collect_force E' t w)"
proof -
  note same = deeper_fields [OF assms]
  show c: "short_of (collect_with E pol t w) (collect_with E' pol t w)" for pol
    unfolding collect_with_def collect_slow_def same(12)
    by (intro short_rules short_local_collect [OF assms] same)
  show "short_of (collect_implicit E t w) (collect_implicit E' t w)"
    unfolding collect_implicit_def collect_nounwind_def same by (intro short_rules c)
  show "short_of (collect_force E t w) (collect_force E' t w)"
    unfolding collect_force_def by (intro short_rules short_local_collect [OF assms] same)
qed

lemma short_exit:
  assumes "deeper E E'"
  shows "short_of (thread_exit E t w) (thread_exit E' t w)"
proof -
  have "short_of (drop_local_state E t st w) (drop_local_state E' t st w)" for st w
    unfolding drop_local_state_def Let_def by (intro short_rules short_queue_arc [OF assms])
  then show ?thesis
    by (auto simp: thread_exit_def Let_def intro: short_rules split: tls_slot.split sum.split)
qed

section \<open>Pointers\<close>

lemma short_Brc_drop:
  assumes "deeper E E'"
  shows "short_of (Brc_drop E t b w) (Brc_drop E' t b w)"
proof -
  have "short_of (drop_no_collect_in_place E t b w) (drop_no_collect_in_place E' t b w)" for w
    unfolding drop_no_collect_in_place_def drop_context_dealloc_def deeper_same [OF assms] Let_def
    by (intro short_rules short_decrement [OF assms] short_dealloc [OF assms])
  then show ?thesis
    unfolding Brc_drop_def deeper_fields [OF assms] by (intro short_rules short_collect [OF assms])
qed

lemma short_clone:
  assumes "deeper E E'"
  shows "short_of (Brc_clone E t b w) (Brc_clone E' t b w)"
  unfolding Brc_clone_def deeper_fields [OF assms] deeper_same [OF assms]
  by (intro short_rules short_collect [OF assms])

lemma short_alloc:
  assumes "deeper E E'"
  shows "short_of (alloc_with_in E pol t layout m func w) (alloc_with_in E' pol t layout m func w)"
  unfolding alloc_with_in_def deeper_fields [OF assms] deeper_same [OF assms]
  by (intro short_rules short_collect [OF assms])

lemma short_copy:
  assumes "deeper E E'"
  shows "short_of (make_mut_copy E t f b w) (make_mut_copy E' t f b w)"
  unfolding make_mut_copy_def Brc_new_with_in_def deeper_fields [OF assms] deeper_same [OF assms]
  by (intro short_rules short_alloc [OF assms])

lemma short_make_mut:
  assumes "deeper E E'"
  shows "short_of (Brc_make_mut E t f b w) (Brc_make_mut E' t f b w)"
  unfolding Brc_make_mut_def by (intro short_rules short_copy [OF assms] short_Brc_drop [OF assms])

lemma short_fields:
  assumes "deeper E E'" "deeper U U'"
  shows "short_of (drop_fields E U t ps w) (drop_fields E' U' t ps w)"
  using assms(1)
proof (induction ps arbitrary: E E' w)
  case (Cons q ps)
  note rest = Cons.IH [OF Cons.prems] Cons.IH [OF assms(2)]
  show ?case
  proof (cases q)
    case (Inl b)
    show ?thesis unfolding Inl drop_fields.simps by (intro short_rules rest short_Brc_drop [OF Cons.prems])
  next
    case (Inr x)
    show ?thesis unfolding Inr drop_fields.simps deeper_same [OF Cons.prems] by (intro short_rules rest)
  qed
qed (simp add: short_refl)

section \<open>Levels\<close>

lemma with_glue_deeper:
  assumes "n \<le> m"
  shows "deeper (with_glue n E t panics owns) (with_glue m E t panics owns)"
  using assms
proof (induction n arbitrary: m E)
  case 0
  then show ?case by (cases m) (simp_all add: deeper_def short_of_def)
next
  case (Suc n)
  then obtain m' where m: "m = Suc m'" "n \<le> m'" by (cases m) auto
  note D = Suc.IH [OF m(2), of E] Suc.IH [OF m(2), of "unwinding t E"]
  have "short_of (drop_in_place (with_glue (Suc n) E t panics owns) v w)
      (drop_in_place (with_glue m E t panics owns) v w)" for v w
    unfolding m(1) by (simp add: Let_def) (intro short_rules short_fields D)
  then show ?case using m(1) by (simp add: deeper_def)
qed

lemma short_then_holds:
  assumes "short_of r r'" "\<And>w. short_of (p w) (p' w)"
  shows "short_of (then_holds r p f) (then_holds r' p' f)"
  using assms(1) assms(2) [of "case r of Unwind w \<Rightarrow> w"] by (cases r) (auto simp: short_of_def)

lemma short_unwinds_through:
  assumes "deeper E E'"
  shows "short_of (unwinds_through E t ps st w) (unwinds_through E' t ps st w)"
  using short_fields [OF assms assms, of t ps w] by (auto simp: unwinds_through_def short_of_def)

lemma client_act_short:
  assumes "n \<le> m"
  shows "rel_option short_of (client_act n E panics owns a st) (client_act m E panics owns a st)"
proof -
  note D = with_glue_deeper [OF assms, where owns = owns and panics = panics]
  note rules = short_then_holds short_unwinds_through [OF D] short_alloc [OF D] short_clone [OF D] short_Brc_drop [OF D]
    short_make_mut [OF D] short_collect [OF D] short_exit [OF D] short_refl
  show ?thesis
  proof (cases a)
    case (Op_make_mut t b c)
    let ?run = "\<lambda>k. Brc_make_mut (with_glue k E t panics owns) t (\<lambda>_. Return c) b (lib st)"
      and ?copy = "\<lambda>k. make_mut_copy (with_glue k E t panics owns) t (\<lambda>_. Return c) b (lib st)"
    show ?thesis
    proof (cases "?copy n = Halt Diverges")
      case True
      then have "?run n = Halt Diverges" by (simp add: Brc_make_mut_def)
      then show ?thesis unfolding Op_make_mut by (simp add: short_of_def)
    next
      case False
      then have "?copy m = ?copy n"
        using short_copy [OF D, of E t t "\<lambda>_. Return c" b "lib st"] by (simp add: short_of_def)
      then show ?thesis
        using short_make_mut [OF D, of E t t "\<lambda>_. Return c" b "lib st"] unfolding Op_make_mut
        by (auto simp: short_refl intro!: short_then_holds)
    qed
  qed (simp_all add: rules Let_def)
qed

text \<open>
  More levels change nothing: a call that is allowed with \<open>n\<close> levels does the same with any larger number,
  and is allowed there too.
\<close>

lemma more_levels_same:
  assumes E: "env_ok E items" and st: "client_ok E items owns st" and a: "allowed n E panics owns a st" and "n \<le> m"
  shows "client_act m E panics owns a st = client_act n E panics owns a st" "allowed m E panics owns a st"
proof -
  have "r \<noteq> Halt Diverges" if "client_act n E panics owns a st = Some r" for r
    using client_act_keeps [OF E st a that] by (cases a) (auto simp: call_ok_def)
  then show "client_act m E panics owns a st = client_act n E panics owns a st"
    using client_act_short [OF assms(4), of E panics owns a st] by (auto simp: short_of_def option_rel_Some1 elim: option.rel_cases)
  have few: "live (lib st) < n" "may_count n E panics owns a st" using a by (simp_all add: allowed_def)
  have "may_count m E panics owns a st"
  proof (cases a)
    case (Op_clone t b)
    let ?c = "\<lambda>k. collect_if (no_implicit_collect_clone E) (with_glue k E t panics owns) t (lib st)"
    have ready: "ready (with_glue n E t panics owns) items owns (\<exists>v. panics v) t n" by (rule glue_ready [OF E]) blast
    have ok: "nlib (with_glue n E t panics owns) items owns (lib st) (strongs st) (weaks_held st)"
      unfolding nlib_glue by (rule client_okD(1) [OF st])
    have "?c n \<noteq> Halt Diverges"
      using few(1) by (rule collected_first [OF ready ok less_imp_le, where c = "no_implicit_collect_clone E"]) simp_all
    have "short_of (?c n) (?c m)"
      unfolding collect_if_def by (intro short_rules short_collect with_glue_deeper assms(4))
    then have "?c m = ?c n" using \<open>?c n \<noteq> Halt Diverges\<close> by (simp add: short_of_def)
    then show ?thesis using few(2) Op_clone by (simp add: after_def)
  qed (use few(2) in simp_all)
  then show "allowed m E panics owns a st" using few(1) assms(4) by (simp add: allowed_def)
qed

theorem more_levels_reach:
  assumes E: "env_ok E items" and r: "client_reachable n E panics owns st" and "n \<le> m"
  shows "client_reachable m E panics owns st"
  using r
proof induction
  case (client_steps st a st')
  note same = more_levels_same [OF E reachable_ok [OF E client_steps(1)] client_steps(2) assms(3)]
  show ?case using client_reachable.client_steps [OF client_steps(4) same(2)] same(1) client_steps(3) by simp
next
  case (client_panics st a st')
  note same = more_levels_same [OF E reachable_ok [OF E client_panics(1)] client_panics(2) assms(3)]
  show ?case using client_reachable.client_panics [OF client_panics(4) same(2)] same(1) client_panics(3) by simp
qed (rule client_begins)

end
