(* ===== verification/Client_Theorems.thy ===== *)
theory Client_Theorems
  imports Client_Calls
begin

text \<open>
  What a program can rely on, however it calls the library and whatever pointers its values own: every
  call does what it should and nothing else, a pointer reads back the value that was put behind it, and
  memory is kept exactly for what is still referred to or waits in a queue.
\<close>

section \<open>Why an object is there\<close>

definition waits_for_thread :: "('q \<Rightarrow> QueuedObject list) \<Rightarrow> ('q, 'v) world \<Rightarrow> addr \<Rightarrow> bool" where
  "waits_for_thread items w a \<longleftrightarrow>
     (\<exists>t st info. tls w t = Tls_alive (Inr st) \<and> entry w (shared_info st) = Some info
        \<and> state_flag info = QueuedObjects \<and> a \<in> header_ptr ` set (items (queue_inner info)))"

lemma unreferenced_waits:
  assumes ok: "lib_ok E items w S W" and quiet: "quiet w" and ob: "heap w a = Some ob"
    and none: "held E a S = {#}" "held_weak E a W = {#}"
  shows "waits_for_thread items w a"
proof -
  note L = lib_okD [OF ok] and O = obj_okD [OF lib_okD(5) [OF ok ob]]
  have alive: "\<not> is_dead (strong ob)" and zero: "logical_count (strong ob) = 0"
    using O(2,3,4) none by (auto simp: unsigned_eq_0_iff)
  have "awaits_merge (strong ob)"
    using alive zero settled_ok [OF O(1)]
    by (auto simp: awaits_merge_def header_ok_def is_dead_def logical_count_def split: if_splits)
  then have q: "\<not> merged (shared_of (strong ob))" "queued (shared_of (strong ob))"
    using settled_awaits [OF O(1)] by simp_all
  then obtain sid where sid: "owner_id (biased_of (strong ob)) = Some sid"
    using owned_unmerged [OF settled_ok [OF O(1)]] by blast
  then obtain i info where info: "entry w i = Some info" "a \<in> header_ptr ` set (items (queue_inner info))"
    using L(6) [OF ob] q(2) by (auto simp: owner_ok_def get_by_id_entry)
  have "queue_strong info = 1 \<or> queue_strong info = 0 \<and> state_flag info = Dead"
    using quiet info(1) unfolding quiet_def by blast
  then have "0 < queue_strong info" "state_flag info = QueuedObjects"
    using L(7) [OF info(1)] info(2) by (auto simp: queue_ok_def split: if_splits)
  moreover from this obtain t st where "tls w t = Tls_alive (Inr st)" "shared_info st = i"
    using table_openD(2) [OF L(2)] info(1) unfolding staffed_def by blast
  ultimately show ?thesis using info unfolding waits_for_thread_def by blast
qed

lemma member_sum: "finite A \<Longrightarrow> p \<in># (\<Sum>c \<in> A. f c) \<Longrightarrow> \<exists>c \<in> A. p \<in># f c"
  by (induction A rule: finite_induct) auto

lemma inner_source:
  fixes w :: "('q, 'v) world"
  assumes "finite (dom (value_at w))"
  shows "b \<in># inner_strong owns w \<Longrightarrow> \<exists>c v. value_at w c = Some v \<and> b \<in># strongs_of (owns v)"
    "x \<in># inner_weak owns w \<Longrightarrow> \<exists>c v. value_at w c = Some v \<and> x \<in># weaks_of (owns v)"
proof -
  show "\<exists>c v. value_at w c = Some v \<and> b \<in># strongs_of (owns v)" if b: "b \<in># inner_strong owns w"
  proof -
    obtain c where "c \<in> dom (value_at w)" "b \<in># strongs_of (owns (the (value_at w c)))"
      using member_sum [OF assms] b unfolding inner_strong_def by metis
    then show ?thesis by (intro exI [of _ c] exI [of _ "the (value_at w c)"]) auto
  qed
  show "\<exists>c v. value_at w c = Some v \<and> x \<in># weaks_of (owns v)" if x: "x \<in># inner_weak owns w"
  proof -
    obtain c where "c \<in> dom (value_at w)" "x \<in># weaks_of (owns (the (value_at w c)))"
      using member_sum [OF assms] x unfolding inner_weak_def by metis
    then show ?thesis by (intro exI [of _ c] exI [of _ "the (value_at w c)"]) auto
  qed
qed

text \<open>
  When the program holds nothing and nothing waits, there is nothing: an object would have to be kept
  by a value, that by another value, and so on, and values do not point in circles.
\<close>

lemma nothing_left:
  fixes w :: "('q, 'v) world"
  assumes ok: "nlib E items owns w {#} {#}" and quiet: "quiet w" and acyclic: "acyclic (points_in E owns w)"
    and none: "\<And>a. \<not> waits_for_thread items w a"
  shows "heap w = Map.empty"
proof (rule ccontr)
  assume "heap w \<noteq> Map.empty"
  then have ne: "dom (heap w) \<noteq> {}" by simp
  note N = nlibD [OF ok]
  have lib: "lib_ok E items w (inner_strong owns w) (inner_weak owns w)" using N(1) by simp
  have pred: "\<exists>c. (c, a) \<in> points_in E owns w \<and> c \<in> dom (heap w)" if a: "a \<in> dom (heap w)" for a
  proof -
    obtain ob where "heap w a = Some ob" using a by blast
    then have "held E a (inner_strong owns w) \<noteq> {#} \<or> held_weak E a (inner_weak owns w) \<noteq> {#}"
      using unreferenced_waits [OF lib quiet] none by blast
    then obtain c v where "value_at w c = Some v" "(\<exists>b \<in># strongs_of (owns v). Brc_header_ptr E b = Inr a)
        \<or> (\<exists>x \<in># weaks_of (owns v). WeakReal_header_ptr E x = Inr a)"
    proof
      assume "held E a (inner_strong owns w) \<noteq> {#}"
      then obtain b where "b \<in># inner_strong owns w" "Brc_header_ptr E b = Inr a"
        by (auto simp: held_def dest!: multiset_nonemptyE)
      then show thesis using that inner_source(1) [OF N(3), of b owns] by blast
    next
      assume "held_weak E a (inner_weak owns w) \<noteq> {#}"
      then obtain x where "x \<in># inner_weak owns w" "WeakReal_header_ptr E x = Inr a"
        by (auto simp: held_weak_def dest!: multiset_nonemptyE)
      then show thesis using that inner_source(2) [OF N(3), of x owns] by blast
    qed
    moreover from this have "c \<in> dom (heap w)" using dom_value_at [of w] by blast
    ultimately show ?thesis by (auto simp: points_in_def)
  qed
  let ?r = "points_in E owns w \<inter> (dom (heap w) \<times> dom (heap w))"
  have "finite ?r" using N(2) by simp
  then have "wf ?r" by (rule finite_acyclic_wf) (rule acyclic_subset [OF acyclic Int_lower1])
  then obtain z where z: "z \<in> dom (heap w)" "\<And>y. (y, z) \<in> ?r \<Longrightarrow> y \<notin> dom (heap w)"
    using ne unfolding wf_eq_minimal by blast
  then show False using pred [OF z(1)] by blast
qed

lemma exits_run:
  assumes E: "env_ok E items" and "client_ok E items owns st" "live (lib st) < n" "distinct ts"
    "\<forall>t \<in> set ts. tls (lib st) t \<noteq> Tls_destroyed"
    "\<forall>v. \<not> panics v"
  shows "\<exists>st'. client_run n E panics owns (map Op_exit ts) st = Some st' \<and> client_ok E items owns st'
    \<and> strongs st' = strongs st \<and> weaks_held st' = weaks_held st
    \<and> tls (lib st') = (\<lambda>u. if u \<in> set ts then Tls_destroyed else tls (lib st) u)"
  using assms(2-5)
proof (induction ts arbitrary: st)
  case (Cons t ts)
  have c: "calling n E items panics owns st" using E Cons.prems(1,2) by (simp add: calling_def)
  obtain w' where w': "client_act n E panics owns (Op_exit t) st = Some (Return () (with_lib st w'))"
    "client_ok E items owns (with_lib st w')" "tls w' = (tls (lib st))(t := Tls_destroyed)" "live w' \<le> live (lib st)"
    by (rule exit_call [OF c, of t]) (use Cons.prems(4) assms(6) in auto)
  let ?st = "with_lib st w'"
  have ok: "live (lib ?st) < n" "\<forall>u \<in> set ts. tls (lib ?st) u \<noteq> Tls_destroyed"
    using w'(3,4) Cons.prems by (auto simp: with_lib_def)
  obtain st' where "client_run n E panics owns (map Op_exit ts) ?st = Some st'" "client_ok E items owns st'"
    "strongs st' = strongs ?st" "weaks_held st' = weaks_held ?st"
    "tls (lib st') = (\<lambda>u. if u \<in> set ts then Tls_destroyed else tls (lib ?st) u)"
    using Cons.IH [OF w'(2) ok(1) _ ok(2)] Cons.prems(3) by auto
  moreover have "allowed n E panics owns (Op_exit t) st" using Cons.prems(2) by (simp add: allowed_def)
  ultimately show ?case using w'(1,3) by (auto simp: with_lib_def simp del: client_act.simps)
qed simp

section \<open>An environment\<close>

text \<open>
  A table that gives the first free index, an allocator with room for two objects, and no implicit
  collections; values are numbers, and \<open>6\<close> owns the pointer to the first object and has a destructor
  that panics. With it the hypotheses of the properties below can be met.
\<close>

definition client_env :: "(QueuedObject list, nat) env" where
  "client_env = list_env
     \<lparr>implicit_collect_disable := True, next_index := \<lambda>T. of_nat (LEAST i. T i = None),
      allocate := \<lambda>L w. if \<not> align_of L dvd 64 then None
        else if heap w 64 = None then Some 64 else if heap w 128 = None then Some 128 else None\<rparr>"

definition demo_owns :: "nat \<Rightarrow> field list" where
  "demo_owns v = (if v = 6 then [Inl demo_brc] else [])"

definition demo_panics :: "nat \<Rightarrow> bool" where
  "demo_panics v \<longleftrightarrow> v = 6"

definition outer_brc :: Brc where
  "outer_brc = Brc_from_raw 152 Thin"

lemma first_free:
  assumes "T i = None" "i < 2 ^ 64 - 1"
  shows "T (unat (of_nat (LEAST i. T i = None) :: 64 word)) = None
    \<and> unat (of_nat (LEAST i. T i = None) :: 64 word) < 2 ^ 64 - 1"
proof -
  let ?k = "LEAST i. T i = None"
  have "?k \<le> i" by (rule Least_le) (rule assms(1))
  then have "?k < 2 ^ 64 - 1" using assms(2) by simp
  moreover from this have "unat (of_nat ?k :: 64 word) = ?k" by (simp add: unat_of_nat)
  moreover have "T ?k = None" by (rule LeastI) (rule assms(1))
  ultimately show ?thesis by simp
qed

lemma client_env_ok: "env_ok client_env (\<lambda>q. q)"
proof -
  have "needs_drop client_env" by (simp add: client_env_def list_env_def)
  moreover have "fifo client_env (\<lambda>q. q)" using fifo_list_env by (simp add: fifo_def client_env_def)
  moreover have "allocator_ok client_env"
    by (auto simp: allocator_ok_def client_env_def list_env_def layout_ok_def Global_layout_def isize_MAX_def
        intro: dvd_trans [of _ 64 128])
  moreover have "indices_fresh client_env"
    unfolding indices_fresh_def
  proof (intro allI impI)
    fix T :: "nat \<Rightarrow> (ThreadIdOverflowError + QueuedObject list SharedThreadInfo) option" and i
    assume "T i = None \<and> i < 2 ^ 64 - 1"
    then show "T (unat (next_index client_env T)) = None \<and> unat (next_index client_env T) < 2 ^ 64 - 1"
      using first_free [of T i] by (simp add: client_env_def)
  qed
  ultimately show ?thesis by (simp add: env_ok_def)
qed

lemma demo_init: "init [] 0 0 empty_world = Inr (init_for (Some demo_sid), demo_world [] Map.empty)"
  by (simp add: init_def existing_short_id_def init_tid_def with_current_def
      init_thread_def new_thread_entry_def UniqueThreadId_from_index_def ShortThreadId_try_from_def
      UniqueThreadId_MIN_def ShortThreadId_MAX_def demo_world_def Let_def
      empty_world_def fast_init_def demo_info_def demo_state_def demo_sid_def)

text \<open>The first object, and then the second one, whose value owns the pointer to the first.\<close>

definition demo_node :: "nat \<Rightarrow> nat object" where
  "demo_node v = (demo_object (init_for (Some demo_sid)))\<lparr>contents := Some v\<rparr>"

definition demo_one :: "(QueuedObject list, nat) client" where
  "demo_one = \<lparr>lib = demo_world [] [64 \<mapsto> demo_node 5], strongs = {#demo_brc#}, weaks_held = {#}, memory = [64 \<mapsto> 5]\<rparr>"

definition demo_two :: "(QueuedObject list, nat) client" where
  "demo_two = \<lparr>lib = demo_world [] [64 \<mapsto> demo_node 5, 128 \<mapsto> demo_node 6], strongs = {#outer_brc#},
     weaks_held = {#}, memory = [64 \<mapsto> 5, 128 \<mapsto> 6]\<rparr>"

lemma glue_form: "\<exists>f. with_glue n E t panics owns = E\<lparr>drop_in_place := f\<rparr>"
  by (cases n) auto

lemma demo_alloc:
  assumes a: "allocate client_env \<lparr>size_of = 32, align_of = 8\<rparr> w = Some a"
    and i: "init [] (next_index client_env (threads w)) 0 w = Inr (init_for (Some demo_sid), demo_world [] H)"
  shows "alloc_with_in (with_glue n client_env 0 panics owns) NeverPanic 0 (layout_for client_env Thin) Thin (Return v) w
    = Return (Brc_from_raw (int a + 24) Thin) (demo_world [] (H(a \<mapsto> demo_node v)))"
proof -
  obtain f where f: "with_glue n client_env 0 panics owns = client_env\<lparr>drop_in_place := f\<rparr>" using glue_form by blast
  let ?E = "client_env\<lparr>drop_in_place := f\<rparr>"
  have info: "LayoutInfo_new (allocator_layout ?E) (layout_for client_env Thin)
      = Some \<lparr>value_offset = 24, full_layout = \<lparr>size_of = 32, align_of = 8\<rparr>\<rparr>"
    using demo_layout by (simp add: client_env_def list_env_def)
  have c: "(if no_implicit_collect ?E then Return () x else collect_implicit ?E 0 x) = Return () x" for x
    by (simp add: collect_implicit_def client_env_def)
  have q: "queue_new client_env = []" by (simp add: client_env_def list_env_def)
  show ?thesis
    unfolding f alloc_with_in_def c LayoutInfo_new_or_panic_def info
    using a i q by (simp add: Let_def demo_world_def demo_object_def demo_node_def store_def)
qed

lemma demo_headers:
  "Brc_header_ptr client_env demo_brc = Inr 64" "Brc_header_ptr client_env outer_brc = Inr 128"
  using demo_layout
  by (simp_all add: Brc_header_ptr_def Brc_layout_def demo_brc_def outer_brc_def Brc_from_raw_def client_env_def
      list_env_def header_ptr_for_def header_offset_def)

lemma demo_values:
  "value_at empty_world = Map.empty"
  "value_at (demo_world [] [64 \<mapsto> demo_node 5]) = [64 \<mapsto> 5]"
  "value_at (demo_world [] [64 \<mapsto> demo_node 5, 128 \<mapsto> demo_node 6]) = [64 \<mapsto> 5, 128 \<mapsto> 6]"
  by (auto simp: value_at_def demo_node_def empty_world_def fun_eq_iff)

lemma demo_lives:
  "live (lib client_start) = 0" "live (lib demo_one) = 1" "live (lib demo_two) = 2"
  by (simp_all add: live_def demo_one_def demo_two_def client_start_def demo_values)

lemma demo_reachable: "client_reachable 3 client_env panics demo_owns demo_two"
proof -
  let ?w = "empty_world :: (QueuedObject list, nat) world"
  have "init (queue_new client_env) (next_index client_env (threads ?w)) 0 ?w
      = Inr (init_for (Some demo_sid), demo_world [] Map.empty)"
    using demo_init by (simp add: client_env_def list_env_def empty_world_def)
  moreover have "queue_new client_env = []" by (simp add: client_env_def list_env_def)
  moreover have "allocate client_env \<lparr>size_of = 32, align_of = 8\<rparr> ?w = Some 64"
    by (simp add: client_env_def empty_world_def)
  ultimately have "client_act 3 client_env panics demo_owns (Op_new 0 NeverPanic Thin 5) client_start = Some (Return () demo_one)"
    using demo_alloc [of ?w 64 Map.empty 3 panics demo_owns 5] demo_headers(1)
    by (simp add: holds_def demo_owns_def hand_over_def remember_def Let_def demo_one_def client_start_def)
  then have one: "client_reachable 3 client_env panics demo_owns demo_one"
    using client_steps [OF client_begins, of 3 client_env panics demo_owns "Op_new 0 NeverPanic Thin 5" demo_one]
    by (simp add: allowed_def demo_lives del: client_act.simps)
  have "init [] (next_index client_env (threads (lib demo_one))) 0 (lib demo_one)
      = Inr (init_for (Some demo_sid), demo_world [] [64 \<mapsto> demo_node 5])"
    by (simp add: init_def existing_short_id_def demo_one_def demo_world_def)
  moreover have "allocate client_env \<lparr>size_of = 32, align_of = 8\<rparr> (lib demo_one) = Some 128"
    by (simp add: client_env_def demo_one_def demo_world_def)
  ultimately have "client_act 3 client_env panics demo_owns (Op_new 0 NeverPanic Thin 6) demo_one = Some (Return () demo_two)"
    using demo_alloc [of "lib demo_one" 128 "[64 \<mapsto> demo_node 5]" 3 panics demo_owns 6] demo_headers(2)
    by (simp add: holds_def demo_owns_def hand_over_def remember_def Let_def demo_one_def demo_two_def outer_brc_def)
  then show ?thesis
    using client_steps [OF one, of "Op_new 0 NeverPanic Thin 6" demo_two]
    by (simp add: allowed_def demo_lives del: client_act.simps)
qed

lemma demo_inside: "readable client_env demo_owns demo_two (Inl demo_brc)"
proof (rule inside)
  show "readable client_env demo_owns demo_two (Inl outer_brc)" by (rule in_hand) (simp add: demo_two_def)
  show "Brc_deref client_env outer_brc (lib demo_two) = Return 6 (lib demo_two)"
    using demo_headers(2) by (simp add: Brc_deref_def Brc_object_def demo_two_def demo_node_def)
qed (simp add: demo_owns_def)

section \<open>Properties\<close>

text \<open>
  C8. Nothing goes wrong in a history that keeps to the rules of \<open>allowed\<close>: the calls are the operations
  of \<open>op\<close>, one after the other on any threads; no call counts a strong reference more on an object that waits
  for its merge, except its owner in the biased word; there are at most \<open>2 ^ 60\<close> pointers, and fewer
  values than levels of nested destructors (\<open>n\<close>, which is arbitrary). Without the second rule this is false
  (\<open>carry_breaks_collection\<close>, \<open>freed_while_queued\<close>). Within the rules, whatever the values own and
  whichever of their destructors panic, every call ends as \<open>expected\<close> says. It returns;
  or \<open>new\<close> panics because the layout is too large or its closure panics; or a panic of a destructor comes
  out of a call that may let it through; or the program is aborted, because memory or the weak count
  runs out, or a panic would leave a place that it may not. No call loops, no assertion fails, no memory
  is used after it has been freed, no value is destroyed twice, also when destructors drop pointers or
  panic in the middle of a collection or of the end of a thread.
\<close>

theorem client_never_goes_wrong:
  assumes "env_ok E items" "client_reachable n E panics owns st" "allowed n E panics owns a st" "client_act n E panics owns a st = Some r"
  shows "expected E (\<exists>v. panics v) a r"
  using client_act_keeps [OF assms(1) reachable_ok [OF assms(1,2)] assms(3,4)] by (simp add: call_ok_def)

theorem client_never_goes_wrong_witness:
  "\<exists>r. client_act 3 client_env demo_panics demo_owns (Op_drop 0 outer_brc) demo_two = Some r
     \<and> expected client_env True (Op_drop 0 outer_brc :: nat op) r"
proof -
  obtain r where r: "client_act 3 client_env demo_panics demo_owns (Op_drop 0 outer_brc) demo_two = Some r"
    by (simp add: demo_two_def)
  have a: "allowed 3 client_env demo_panics demo_owns (Op_drop 0 outer_brc) demo_two"
    by (simp add: allowed_def demo_lives)
  have "\<exists>v. demo_panics v" by (simp add: demo_panics_def)
  then show ?thesis
    using client_never_goes_wrong [OF client_env_ok demo_reachable a r] r by auto
qed

text \<open>
  C9. A pointer reads what was put behind it: through every \<open>Brc\<close> that a program can reach, in its hands
  or inside of values it can reach, after any history of calls by any threads that keeps to the rules of
  \<open>allowed\<close> (no increment of an object that waits for its merge, except by its owner in the biased word),
  and after panics, the value is read
  that the object was created with, or that was last written through \<open>get_mut\<close>.
\<close>

theorem client_reads_back:
  assumes "env_ok E items" "client_reachable n E panics owns st" "readable E owns st (Inl b)"
  shows "\<exists>a v. Brc_header_ptr E b = Inr a \<and> memory st a = Some v \<and> Brc_deref E b (lib st) = Return v (lib st)"
proof -
  note ok = client_okD [OF reachable_ok [OF assms(1,2)]]
  have "b \<in># strongs st + inner_strong owns (lib st)"
    using readable_there [OF assms(3) ok(1) settles_refl [where t = undefined]] by simp
  then obtain a v where "Brc_header_ptr E b = Inr a" "value_at (lib st) a = Some v" "Brc_deref E b (lib st) = Return v (lib st)"
    by (rule counted_value [OF ok(1)])
  then show ?thesis using ok(2) by (auto simp: fine_def)
qed

theorem client_reads_back_witness:
  "Brc_deref client_env demo_brc (lib demo_two) = Return 5 (lib demo_two)"
  using client_reads_back [OF client_env_ok demo_reachable demo_inside] demo_headers(1) by (auto simp: demo_two_def)

text \<open>
  C10. An object is there for a reason. After any history that keeps to the rules of \<open>allowed\<close> (no
  increment of an object that waits for its merge, except by its owner in the biased word), its counts are the numbers of \<open>Brc\<close>s and \<open>Weak\<close>s that refer to
  it from the program's hands and from values (all \<open>Brc\<close>s together count as one weak reference while the
  value lives), its value is there until it is counted dead, and an object that nothing refers to waits
  in the queue of a thread that is alive and has been told so. A panic of a destructor loses no count
  and no object.
\<close>

theorem client_counts_agree:
  assumes "env_ok E items" "client_reachable n E panics owns st" "heap (lib st) a = Some ob"
  shows "logical_count (strong ob)
      = int (size {#h \<in># strongs st + inner_strong owns (lib st). Brc_header_ptr E h = Inr a#})
    \<and> uint (weak_count ob)
      = int (size {#x \<in># weaks_held st + inner_weak owns (lib st). WeakReal_header_ptr E x = Inr a#})
        + of_bool (contents ob \<noteq> None)
    \<and> (contents ob = None \<longleftrightarrow> is_dead (strong ob))
    \<and> ({#h \<in># strongs st + inner_strong owns (lib st). Brc_header_ptr E h = Inr a#} \<noteq> {#}
       \<or> {#x \<in># weaks_held st + inner_weak owns (lib st). WeakReal_header_ptr E x = Inr a#} \<noteq> {#}
       \<or> waits_for_thread items (lib st) a)"
proof -
  note ok = client_okD [OF reachable_ok [OF assms(1,2)]]
  have quiet: "quiet (lib st)" using ok(2) by (simp add: fine_def)
  note lib = nlibD(1) [OF ok(1)]
  note O = obj_okD [OF lib_okD(5) [OF lib assms(3)]]
  show ?thesis
    using O(2,3,5) unreferenced_waits [OF lib quiet assms(3)] unfolding held_def held_weak_def by auto
qed

theorem client_counts_agree_witness:
  "\<exists>ob. heap (lib demo_two) 64 = Some ob \<and> logical_count (strong ob) = 1"
proof -
  have h: "heap (lib demo_two) 64 = Some (demo_node 5)" by (simp add: demo_two_def)
  have "inner_strong demo_owns (lib demo_two) = {#demo_brc#}"
    by (simp add: inner_strong_def demo_two_def demo_values demo_owns_def)
  then show ?thesis
    using client_counts_agree [OF client_env_ok demo_reachable h] h demo_headers by (simp add: demo_two_def)
qed

text \<open>
  C11. What a program can ask about an object that it can reach is answered truthfully, after any history
  that keeps to the rules of \<open>allowed\<close> (no increment of an object that waits for its merge, except by its
  owner in the biased word). \<open>weak_count\<close> is
  the number of \<open>Weak\<close>s to the object; \<open>strong_count\<close>, where it gives an answer, is the number of \<open>Brc\<close>s,
  and the number in its error is not more than that; when \<open>is_unique\<close> says yes, there is no other pointer
  of either kind. None of them changes anything.
\<close>

theorem client_queries_truthful:
  assumes "env_ok E items" "client_reachable n E panics owns st" "readable E owns st (Inl b)"
  defines "S \<equiv> strongs st + inner_strong owns (lib st)" and "W \<equiv> weaks_held st + inner_weak owns (lib st)"
  shows "Brc_weak_count E b (lib st) = Return (Inr (of_nat (size
      {#x \<in># W. WeakReal_header_ptr E x = Brc_header_ptr E b#}))) (lib st)
    \<and> (\<exists>r. Brc_strong_count E t b (lib st) = Return r (lib st) \<and> (case r of
        Inr k \<Rightarrow> k = of_nat (size {#h \<in># S. Brc_header_ptr E h = Brc_header_ptr E b#})
      | Inl (ImpreciseRefCountError k) \<Rightarrow> unat k \<le> size {#h \<in># S. Brc_header_ptr E h = Brc_header_ptr E b#}))
    \<and> (\<exists>u. Brc_is_unique E t b (lib st) = Return u (lib st) \<and> (u \<longrightarrow>
      {#h \<in># S. Brc_header_ptr E h = Brc_header_ptr E b#} = {#b#}
      \<and> {#x \<in># W. WeakReal_header_ptr E x = Brc_header_ptr E b#} = {#}))"
proof -
  note client = client_okD [OF reachable_ok [OF assms(1,2)]]
  have b: "b \<in># S" using readable_there [OF assms(3) client(1) settles_refl [where t = undefined]] by (simp add: S_def)
  have ok: "lib_ok E items (lib st) S W" using nlibD(1) [OF client(1)] by (simp add: S_def W_def)
  obtain a ob me where ob: "Brc_header_ptr E b = Inr a" "heap (lib st) a = Some ob" "b \<in># held E a S"
    "obj_ok E (held E a S) (held_weak E a W) a ob"
    "my_short_id t (lib st) = Return me (lib st)" "at_object E t b (lib st) a ob me"
    by (rule strong_at_object [OF ok b, of t])
  note O = obj_okD [OF ob(4)] and A = obj_ok_alive [OF ob(4,3)]
  have hS: "{#h \<in># S. Brc_header_ptr E h = Brc_header_ptr E b#} = held E a S"
    and hW: "{#x \<in># W. WeakReal_header_ptr E x = Brc_header_ptr E b#} = held_weak E a W"
    using ob(1) by (simp_all add: held_def held_weak_def)
  have obj: "Brc_object E b (lib st) = Return ob (lib st)" using ob(1,2) by (simp add: Brc_object_def)
  have "uint (weak_count ob - 1) = int (size (held_weak E a W))"
    using uint_minus_one [OF O(4)] O(3) A(1) by simp
  then have "ucast (weak_count ob - 1) = (of_nat (size (held_weak E a W)) :: 64 word)"
    by (simp add: ucast_eq)
  then have weak: "Brc_weak_count E b (lib st) = Return (Inr (of_nat (size (held_weak E a W)))) (lib st)"
    using obj O(4) not_locked [OF ok ob(2)] by (simp add: Brc_weak_count_def)
  have low: "unat (word_of_int (max (shared_value (strong ob)) 0) :: 64 word) \<le> size (held E a S)"
    using A(3) shared_value_range(2) [of "strong ob"] by (simp add: unat_eq_nat_uint uint_word_of_int)
  have strong: "\<exists>r. Brc_strong_count E t b (lib st) = Return r (lib st) \<and> (case r of
        Inr k \<Rightarrow> k = of_nat (size (held E a S))
      | Inl (ImpreciseRefCountError k) \<Rightarrow> unat k \<le> size (held E a S))"
    using obj ob(5) low O(2) strong_count_cases [OF settled_ok [OF O(1)], of "debug_assertions E" me]
    by (simp add: Brc_strong_count_def)
  have unique: "\<exists>u. Brc_is_unique E t b (lib st) = Return u (lib st) \<and> (u \<longrightarrow>
      held E a S = {#b#} \<and> held_weak E a W = {#})"
    using is_unique_answer [OF ob(6)] unique_one [OF ob(4,3)] by blast
  show ?thesis unfolding hS hW using weak strong unique by blast
qed

theorem client_queries_truthful_witness:
  "Brc_weak_count client_env demo_brc (lib demo_two) = Return (Inr 0) (lib demo_two)"
proof -
  have "inner_weak demo_owns (lib demo_two) = {#}"
    by (simp add: inner_weak_def demo_two_def demo_values demo_owns_def)
  then show ?thesis
    using client_queries_truthful [OF client_env_ok demo_reachable demo_inside, of 0] by (simp add: demo_two_def)
qed

text \<open>
  C12. Nothing is left behind: when a program whose destructors do not panic has given up all its
  pointers, in a history that keeps to the rules of \<open>allowed\<close> (no increment of an object that waits for
  its merge, except by its owner in the biased word), and all threads that have registered end, in any
  order, every object is destroyed and its memory freed, also
  those that still waited in a queue, and those that only other values kept.
\<close>

theorem client_cleans_up:
  assumes "env_ok E items" "client_reachable n E panics owns st" "strongs st = {#}" "weaks_held st = {#}"
    and "\<forall>v. \<not> panics v" "live (lib st) < n" "distinct ts" "\<forall>t \<in> set ts. tls (lib st) t \<noteq> Tls_destroyed"
    and "\<forall>t s. tls (lib st) t = Tls_alive (Inr s) \<longrightarrow> t \<in> set ts"
  shows "\<exists>st'. client_run n E panics owns (map Op_exit ts) st = Some st' \<and> heap (lib st') = Map.empty"
proof -
  obtain st' where st': "client_run n E panics owns (map Op_exit ts) st = Some st'" "client_ok E items owns st'"
    "strongs st' = {#}" "weaks_held st' = {#}"
    "tls (lib st') = (\<lambda>u. if u \<in> set ts then Tls_destroyed else tls (lib st) u)"
    using exits_run [OF assms(1) reachable_ok [OF assms(1,2)] assms(6,7,8,5)] assms(3,4) by auto
  note ok = client_okD [OF st'(2)]
  have "\<not> waits_for_thread items (lib st') a" for a
    using st'(5) assms(9) by (auto simp: waits_for_thread_def split: if_splits)
  then have "heap (lib st') = Map.empty"
    using nothing_left [of E items owns "lib st'"] ok st'(3,4) by (simp add: fine_def)
  then show ?thesis using st'(1) by blast
qed

text \<open>
  A thread that does not own the second object drops it, so that it waits in the queue of thread \<open>0\<close>,
  and with it the first one.
\<close>

lemma demo_dropped:
  obtains st where "client_reachable 3 client_env (\<lambda>_. False) demo_owns st" "strongs st = {#}" "weaks_held st = {#}"
    "tls (lib st) = (\<lambda>_. Tls_uninit)(0 := Tls_alive (Inr demo_state))" "heap (lib st) 64 \<noteq> None" "live (lib st) < 3"
proof -
  let ?h = "init_for (Some demo_sid)" and ?w = "lib demo_two" and ?E = "with_glue 3 client_env 2 (\<lambda>_. False) demo_owns"
  have h: "?h = demo_live 1" by (simp add: init_for_def demo_live_def)
  obtain f where f: "?E = client_env\<lparr>drop_in_place := f\<rparr>" using glue_form by blast
  have typed: "typed list_env m 24 (demo_node v)" for m v
    by (simp add: demo_node_def)
  have at: "at_object ?E 2 outer_brc ?w 128 (demo_node 6) (Inl Uninitialized)"
    using typed [of Thin 6] h
    by (simp add: at_object_def points_to_def typed_def client_env_def f demo_two_def outer_brc_def Brc_from_raw_def
        existing_short_id_def demo_world_def fast_init_def demo_node_def demo_object_def)
  have "\<not> drops_directly (Inl Uninitialized) (strong (demo_node 6))"
    by (simp add: drops_directly_def h demo_node_def demo_object_def)
  moreover have "get_by_id demo_sid ?w = Inr (Some (0, demo_info []))"
    by (simp add: get_by_id_def demo_two_def demo_world_def ShortThreadId_index.simps demo_sid_def)
  moreover have "0 < queue_strong (demo_info [])" "entry ?w 0 = Some (demo_info [])"
    by (simp_all add: demo_info_def demo_two_def)
  moreover have "fifo ?E (\<lambda>q. q)" "0 < logical_count (strong (demo_node 6))"
    "owner_id (biased_of (strong (demo_node 6))) = Some demo_sid"
    using env_okD(2) [OF client_env_ok] by (simp_all add: f fifo_def h demo_node_def demo_object_def)
  ultimately obtain k q where "drop_no_collect_in_place ?E 2 outer_brc ?w
      = queue_object ?E 0 q (store 128 (demo_node 6\<lparr>strong := k\<rparr>) ?w)"
    using drop_queues [OF at, of 0 "demo_info []"] by force
  moreover have "entry (store 128 (demo_node 6\<lparr>strong := k\<rparr>) ?w) 0 = Some (demo_info [])" "0 < queue_strong (demo_info [])"
    by (simp_all add: entry_def demo_info_def demo_two_def demo_world_def)
  ultimately obtain info' where drop: "drop_no_collect_in_place ?E 2 outer_brc ?w
      = Return () (set_entry 0 info' (store 128 (demo_node 6\<lparr>strong := k\<rparr>) ?w))"
    using queue_object_live by metis
  let ?st = "demo_two\<lparr>lib := set_entry 0 info' (store 128 (demo_node 6\<lparr>strong := k\<rparr>) ?w), strongs := {#}\<rparr>"
  have "Brc_drop ?E 2 outer_brc ?w = Return () (lib ?st)"
    using drop f by (simp add: Brc_drop_def collect_implicit_def client_env_def)
  then have act: "client_act 3 client_env (\<lambda>_. False) demo_owns (Op_drop 2 outer_brc) demo_two = Some (Return () ?st)"
    by (simp add: demo_two_def)
  have "allowed 3 client_env (\<lambda>_. False) demo_owns (Op_drop 2 outer_brc) demo_two" by (simp add: allowed_def demo_lives)
  from client_steps [OF demo_reachable this act] have r: "client_reachable 3 client_env (\<lambda>_. False) demo_owns ?st" .
  have "value_at ?w 128 = Some 6" "contents (demo_node 6) = Some 6"
    by (simp_all add: demo_two_def demo_values) (simp add: demo_node_def)
  then have "value_at (lib ?st) = value_at ?w" by (simp add: fun_upd_idem)
  then have "live (lib ?st) < 3" using demo_lives(3) by (simp add: live_def)
  then show thesis using that [OF r] by (simp add: demo_two_def demo_world_def)
qed

theorem client_cleans_up_witness:
  "\<exists>st st'. heap (lib st) 64 \<noteq> None \<and> client_run 3 client_env (\<lambda>_. False) demo_owns (map Op_exit [0]) st = Some st'
     \<and> heap (lib st') = Map.empty"
proof -
  obtain st where st: "client_reachable 3 client_env (\<lambda>_. False) demo_owns st" "strongs st = {#}" "weaks_held st = {#}"
    "tls (lib st) = (\<lambda>_. Tls_uninit)(0 := Tls_alive (Inr demo_state))" "heap (lib st) 64 \<noteq> None" "live (lib st) < 3"
    by (rule demo_dropped)
  have "\<exists>st'. client_run 3 client_env (\<lambda>_. False) demo_owns (map Op_exit [0]) st = Some st' \<and> heap (lib st') = Map.empty"
    by (rule client_cleans_up [OF client_env_ok st(1-3) _ st(6)]) (use st(4) in \<open>auto split: if_splits\<close>)
  then show ?thesis using st(5) by blast
qed

end
