(* ===== verification/Spec2Isabelle.thy ===== *)
theory Spec2Isabelle
  imports Thread_Ids Counter_Words Thread_State Registration Header Header_Counts Header_Refinement
    Protocol Protocol_Invariant Protocol_Steps Protocol_Safety Protocol_Theorems Protocol_Owner Protocol_Alone
    Queue_Protocol Queue_Invariant Queue_Theorems Queue_Refinement
    Layout_Info Objects Collector Collector_Facts Brc_Pointers Weak_Pointers Pointer_Facts
    Conversions Conversion_Facts Integrations Integration_Facts
    Client Client_Headers Client_Invariant Client_Nesting Client_Runtime Client_Steps Client_Glue Client_New
    Client_Safety Client_Calls Client_Depth Client_Theorems
begin

text \<open>
  Biased reference counting: a verification library for the crate \<open>biasedrc\<close>.

  \<^bold>\<open>The program.\<close> A \<open>Brc\<close> is a reference-counted pointer like \<open>Arc\<close> whose count is split. The thread
  that creates an object owns its \<^emph>\<open>biased\<close> count and changes it without synchronisation; every other
  thread changes the \<^emph>\<open>shared\<close> count, which may become negative. Once the owner gives up its last
  reference, or somebody merges the two counts for it, the shared count alone is exact. An object whose
  shared count goes below zero is queued for its owner, which merges it at its next collection; if the
  owner has died, the thread that wanted to queue the object merges it. The crate has these parts
  (under \<open>src/src\<close>), from the bottom up:

  \<^item> \<open>runtime/threads.rs\<close>: thread ids, the table of threads, the thread-local state, the object queues.
  \<^item> \<open>runtime.rs\<close>: the two packed words of an object header, their operations, merging, collecting.
  \<^item> \<open>layout.rs\<close>, \<open>pointee.rs\<close>: where header and value lie, the weak count, what is known of a type.
  \<^item> \<open>strong.rs\<close>, \<open>weak.rs\<close>: the pointers \<open>Brc\<close> and \<open>Weak\<close>.
  \<^item> \<open>strong/conversions.rs\<close>, \<open>macros.rs\<close>, \<open>third_party\<close>: conversions and trait implementations.

  \<^bold>\<open>How the model is laid out.\<close> There are four levels, each with its own notion of a step.

  \<^item> \<^emph>\<open>Words and headers.\<close> What is computed between two atomic accesses is a function on machine words
    with result type \<open>fault + 'a\<close> (\<open>'a checked\<close>, \<open>Prelude\<close>): aborts, failing assertions and broken
    \<open>unchecked\<close> contracts are values. \<open>Counter_Words\<close> has \<open>BiasedWord\<close>, \<open>SharedWord\<close> and
    \<open>SharedCount\<close> with their packing into 32 and 64 bits; \<open>Header\<close> has one function per
    operation of \<open>RawBrcHeader\<close>, with a \<open>_next\<close> function for the body of a loop and a \<open>_result\<close> function
    for what follows its exchange. The values that failing exchanges return are an argument (\<open>seen\<close>), so
    these functions already cover interference inside a loop.
  \<^item> \<^emph>\<open>Interleavings.\<close> \<open>Protocol\<close> follows one object under any number of threads, one atomic access at a
    time: a thread's program counter names its next access and the values read so far, and each access
    applies the functions of \<open>Header\<close>; weak exchanges may fail spuriously. The accesses of
    \<open>queue_object\<close> to the state of the owner are one step there (\<open>Dec_push\<close>). \<open>Queue_Protocol\<close> does the same for the queue of one owner:
    \<open>queue_object\<close>, \<open>collect_force\<close> and \<open>Drop for LocalThreadState\<close> on the state flag, the strong count
    of the queue's \<open>Arc\<close> and the queue itself; threads have stacks of frames, as destructors that run
    inside a merge may start further operations. \<open>Registration\<close> does it for \<open>init_thread\<close> on the table of
    threads.
  \<^item> \<^emph>\<open>Whole operations.\<close> \<open>Thread_Ids\<close>, \<open>Thread_State\<close>, \<open>Layout_Info\<close>, \<open>Objects\<close>, \<open>Collector\<close>,
    \<open>Brc_Pointers\<close>, \<open>Weak_Pointers\<close>, \<open>Conversions\<close> and \<open>Integrations\<close> model every public operation as an
    action on a \<open>world\<close>: the runtime state (\<open>threads\<close> is \<open>THREADS\<close>, \<open>fast\<close> and \<open>tls\<close> are the two
    thread-local variables, \<open>ids_exhausted\<close> is \<open>SHORT_THREAD_IDS_EXHAUSTED\<close>) and a heap of objects. An
    action returns, unwinds with the state left behind, or stops with a fault. These are runs without
    interference between two accesses of the same operation.

  \<^item> \<^emph>\<open>Histories.\<close> \<open>Client\<close> puts the whole operations together: a program that holds \<open>Brc\<close>s and \<open>Weak\<close>s
    to any number of objects, and any sequence of calls by any number of threads, implicit collections
    and thread ends included. Values own pointers, as list nodes do: the destructor of a value drops
    them with \<open>Brc_drop\<close> and \<open>Weak_drop\<close>, so it enters the library again, in the middle of a drop, a
    collection or the end of a thread (\<open>with_glue\<close>). Destructors may panic (\<open>panics\<close>); the panic then
    unwinds through the library, drops the remaining fields on its way, and aborts where the library
    says so (\<open>NeverPanic\<close>, \<open>abort_unwind\<close>) or when it is the second one. Borrowing calls work on all
    pointers that the program can reach through values (\<open>readable\<close>). One call is one step.

  The names follow the source: \<open>decrement_shared\<close> is \<open>RawBrcHeader::decrement_shared\<close>, \<open>Brc_get_mut\<close> is
  \<open>Brc::get_mut\<close>, \<open>Weak_upgrade\<close> is \<open>Weak::upgrade\<close>, \<open>BrcK_clone\<close> is the \<open>clone\<close> of \<open>BrcK\<close>. An action
  whose name ends in \<open>_at\<close> takes the address of the header.

  \<^bold>\<open>What the code gets from elsewhere\<close> is the record \<open>env\<close> (\<open>Objects\<close>): the build configuration, the
  queue of \<open>crossbeam\<close>, the index that \<open>boxcar\<close> gives to a new table entry, the allocator, and the user's
  destructor and layout. Hypotheses on it carry names: \<open>fifo\<close> (the queue is first-in first-out),
  \<open>fresh_index\<close> (a new entry gets an unused index), \<open>calm\<close> (the destructor returns and leaves the
  library's state alone; only for the theorems on single calls in \<open>Collector_Facts\<close> and \<open>Pointer_Facts\<close>,
  the histories do without), \<open>allocator_ok\<close> (layouts that \<open>Layout\<close> can hold, and free and aligned memory).
  \<open>list_env\<close> and \<open>client_env\<close> are environments that satisfy them, and the witnesses run in these.

  \<^bold>\<open>What is shown.\<close>

  \<^item> \<open>Header_Counts\<close>, \<open>Header_Refinement\<close>: \<open>header_ok\<close> is the invariant of the two words and
    \<open>logical_count\<close> the number of references they stand for. Each operation changes it by what its name
    says, and the header as a whole implements the interface \<open>reference_counter\<close>: a counter that
    reports its end exactly once over any sequence of operations (interpretation \<open>hc\<close>).
  \<^item> \<open>Protocol_Invariant\<close> to \<open>Protocol_Theorems\<close>: in every interleaving in which no thread increments the
    shared count while it is negative and unmerged (\<open>reachable_quiet\<close>), the value is dropped at most once
    and never while a reference exists, memory is freed only when nothing refers to it, counts and
    references agree, an exclusive borrow is exclusive, nothing leaks, and the only failures are counter
    overflow and one late store. Rust's ownership rules are the tokens \<open>refs\<close> and \<open>weaks\<close>. The
    restriction is necessary, as the section on where the source goes wrong shows with concrete
    schedules. In every interleaving, an operation that is left alone ends, whatever spurious failures
    it meets.
  \<^item> \<open>Protocol_Owner\<close>: in every interleaving, the disturbed ones included, the biased word has one writer,
    the thread that created the object, and an owner that is lost never comes back.
  \<^item> \<open>Protocol_Alone\<close>: without interference the accesses of an operation compute what \<open>Header\<close> says, so
    they count up or down by one, revive an object exactly when it is not dead, and go on to the
    destructor or the queue exactly when the header says so.
  \<^item> \<open>Queue_Invariant\<close>, \<open>Queue_Theorems\<close>: no assertion of the queue can fail, however queueing, collecting
    and the end of the owner interleave and nest; merges are exclusive; no object is lost; no wake-up is
    lost unless a destructor panics out of a collection. \<open>Queue_Refinement\<close>: seen on one object that is
    queued at most once, the queue takes only the steps that \<open>Protocol\<close> assumes, with its conditions on the
    queue, the owner and the acting thread; that the thread is at the matching point of \<open>Protocol\<close>
    (\<open>placed\<close>) is what links the two models.
  \<^item> \<open>Thread_State\<close>: \<open>runtime_ok\<close> is the invariant of the thread table and the thread-local variables;
    initialisation keeps it, short ids are unique, unreachable branches are unreachable. \<open>Registration\<close>:
    the same when threads register at the same time, with ids that are never given again, and what an
    undisturbed registration gives to its thread.
  \<^item> \<open>Layout_Info\<close>: the value lies behind the header, aligned and inside the allocation, and never at the
    reserved address of \<open>Weak::new\<close>, and \<open>header_offset\<close> leads back from the value to the header.
  \<^item> \<open>Collector_Facts\<close>: \<open>collect\<close> and the end of a thread merge all that is queued and return, for
    destructors that are \<open>calm\<close> and queues that are \<open>queue_ready\<close>.
  \<^item> \<open>Pointer_Facts\<close>: the effect of the operations on \<open>Brc\<close> and \<open>Weak\<close> on every branch.
  \<^item> \<open>Client_Headers\<close> to \<open>Client_Theorems\<close>: the invariant \<open>client_ok\<close> ties heap, queues and thread
    table to the pointers that exist, those in the hands of the program and those inside of values,
    and every call keeps it. \<open>Client_Nesting\<close> states the contract of a destructor that runs inside
    of a call (\<open>ready\<close>): returning or panicking, it gives up what its value owns, which is no
    longer behind any pointer, and leaves the rest as \<open>settles\<close> says; \<open>Client_Runtime\<close> and
    \<open>Client_Steps\<close> prove the operations of the library under this contract, and \<open>Client_Glue\<close> that
    the drop of the owned pointers, which are calls of these operations one level deeper, keeps it.
    \<open>Client_Safety\<close> adds that pointers cannot form cycles, as a pointer is put into a value only
    when nothing inside of that value can reach it. So no call fails, also when destructors panic
    (\<open>expected\<close> lists how calls end), pointers read back what was written, counts are reported
    truthfully, an object is kept exactly while it is referred to or waits in the queue of a live
    thread, and when all pointers and threads are gone, and no destructor panicked, the heap is
    empty. The hypotheses are \<open>env_ok\<close>, on what the code gets from elsewhere, and \<open>allowed\<close>: no
    increment of the shared count of an object that waits for its merge (the defects below), judged
    when the count is made; at most \<open>2 ^ 60\<close> pointers; and fewer values than levels of destructors.
  \<^item> \<open>Conversion_Facts\<close>: who owns and drops the elements when a slice is built, whatever the iterator does.
  \<^item> \<open>Integration_Facts\<close>: the handles of \<open>arc_swap\<close> and \<open>archery\<close> meet the interface \<open>owning_handle\<close>, and
    \<open>serde\<close> gives back the value.

  \<^bold>\<open>Defects found.\<close> Each is a theorem about the model of the code as it is:
  \<open>live_value_dropped\<close> and \<open>carry_breaks_collection\<close> (the \<open>fetch_add\<close> of \<open>increment_strong_shared\<close> at a
  shared count of \<open>-1\<close> carries into the merged flag; \<open>get_mut_shared\<close> is the same carry seen by
  \<open>get_mut\<close>), \<open>freed_while_queued\<close> (\<open>Weak::upgrade\<close> revives a
  queued object, which can then be freed in the queue), \<open>late_store_after_free\<close> (the store of \<open>UNOWNED\<close>
  comes after the count is visible as merged), \<open>strong_count_misread\<close> (a thread without an id takes an
  unowned word for its own), \<open>panic_loses_wakeup\<close> (a panic out of \<open>collect\<close> leaves objects behind a flag
  that says there are none), \<open>try_unwrap_leaks\<close>, \<open>from_box_destroys_twice\<close> and \<open>surplus_item_leaks_last\<close>.

  \<^bold>\<open>Bounds and fuel.\<close> The model is of a target with 64 bit pointers: biased counts have 20 bits,
  shared counts 62 bits (signed), short ids 12 bits, weak counts 32 bits, all as words of that
  width. \<open>2 ^ 60\<close> is the threshold above which \<open>increment_strong_shared\<close> aborts. An undisturbed operation
  makes at most 11 accesses besides spurious failures, which is the largest value of the measure \<open>rank\<close>:
  every access lowers it and no spurious failure raises it; \<open>queue_object\<close> counts as one of them.
  \<open>steps_alone\<close> takes at most 4 steps, the longest of the operations it is stated for. The loops of the collector may run for ever when destructors keep
  queueing objects, so they are partial functions into \<open>option\<close>, and that they return under \<open>fifo\<close>
  and \<open>calm\<close> is part of the theorems about them. In the histories they hold without \<open>calm\<close>: an
  object that was merged out of a queue is not queued again, and every object that a nested
  destructor queues or destroys had a pointer in a value that was there before and is gone.
  \<open>with_glue n\<close> gives \<open>n\<close> levels of destructors within destructors; each level runs for a value
  that the levels above it have destroyed already, so more levels than values are enough, which is
  what \<open>allowed\<close> asks for; \<open>Client_Depth\<close> proves that the number of levels never shows: what is
  allowed with \<open>n\<close> levels has the same result with any larger number. \<open>queue_run\<close> and \<open>run\<close> follow
  a given list of actions and need no fuel.

  \<^bold>\<open>Not modelled.\<close> Weaker memory orderings: the interleaved models are sequentially consistent, so they say
  nothing about the fences and orderings in the source. The value of an allocator is not tracked (its size
  and alignment are), so the accessor \<open>allocator\<close> is left out. \<open>Debug\<close> of headers and of \<open>Weak\<close>, the
  marker traits (\<open>Send\<close>, \<open>Sync\<close>, \<open>Unpin\<close>, \<open>StableDeref\<close>), the nightly features (\<open>CoerceUnsized\<close>,
  \<open>may_dangle\<close>, \<open>Layout::for_value_raw\<close>), targets with 32 bit pointers, and weak pointers to trait objects.
  In the histories, values change only through \<open>get_mut\<close>: there is no interior mutability, so no cycle of
  pointers, and a user destructor calls the library only to drop what its value owns. A panic is never
  caught inside of a destructor.
  \<open>lib.rs\<close> only re-exports; \<open>benchmark\<close>, \<open>examples\<close> and \<open>tests\<close> only call the library.
\<close>

end
